(* ===== verification/Prelude.thy ===== *)
theory Prelude
  imports Main "HOL-Library.Word" "HOL-Library.Sublist" "HOL-Library.State_Monad"
begin

text \<open>
  Shared ground of the development: the types of the C program's data, the result type
  of its fallible functions, the collections of facts that the component proofs use, the
  weakest-precondition rules for the state monad in which the effectful functions are
  written, and the codec interface of the encoders and printers.
\<close>

unbundle bit_operations_syntax

subsection \<open>Types\<close>

type_synonym byte = "8 word"
type_synonym u8 = "8 word"
type_synonym u16 = "16 word"
type_synonym u32 = "32 word"
type_synonym u64 = "64 word"

text \<open>
  A fallible C function of the sources returns 0 (or a handle) on success and -1 (or
  NULL) on failure, and on failure it may or may not have written a message into the
  caller's \<^verbatim>\<open>err\<close> buffer: \<open>Fail (Some msg)\<close> is a failure that wrote \<open>msg\<close>,
  \<open>Fail None\<close> one that left the buffer as it was.
\<close>

datatype 'a result = Ok 'a | Fail "string option"

fun is_Ok :: "'a result \<Rightarrow> bool" where
  "is_Ok (Ok _) = True"
| "is_Ok (Fail _) = False"

lemma is_Ok_iff: "is_Ok r \<longleftrightarrow> (\<exists>x. r = Ok x)"
  by (cases r) auto

subsection \<open>Collections of facts\<close>

named_theorems wp_rules \<open>weakest preconditions of the monadic operations\<close>
named_theorems len_bounds \<open>length bounds of printed numbers and messages\<close>
named_theorems event_simps \<open>what an external call acquires, releases and uses\<close>

subsection \<open>Lists\<close>

lemma takeWhile_eq_all: "(\<And>x. x \<in> set xs \<Longrightarrow> P x) \<Longrightarrow> takeWhile P xs = xs"
  by (simp add: takeWhile_eq_all_conv)

lemma dropWhile_hd: "xs \<noteq> [] \<Longrightarrow> \<not> P (hd xs) \<Longrightarrow> dropWhile P xs = xs"
  by (cases xs) auto

lemma takeWhile_append_stop:
  "(\<And>x. x \<in> set xs \<Longrightarrow> P x) \<Longrightarrow> ys = [] \<or> \<not> P (hd ys) \<Longrightarrow> takeWhile P (xs @ ys) = xs"
  by (cases ys) (auto simp: takeWhile_append)

lemma dropWhile_append_stop:
  "(\<And>x. x \<in> set xs \<Longrightarrow> P x) \<Longrightarrow> ys = [] \<or> \<not> P (hd ys) \<Longrightarrow> dropWhile P (xs @ ys) = ys"
  by (cases ys) (auto simp: dropWhile_append)

lemma take_drop_split: "m \<le> n \<Longrightarrow> take m xs @ take (n - m) (drop m xs) = take n xs"
  by (metis le_add_diff_inverse take_add)

subsection \<open>Words\<close>

lemma unat_less_exp: "unat (w :: 'a::len word) < 2 ^ LENGTH('a)"
  by (rule unsigned_less)

text \<open>Printing a narrow value and reading it into a 64-bit one loses nothing.\<close>

lemma ucast_word_of_nat_unat:
  fixes w :: "'a::len word"
  assumes "LENGTH('a) \<le> 64"
  shows "ucast (word_of_nat (unat w) :: u64) = w"
  using assms by (simp add: ucast_up_ucast_id is_up.rep_eq)

subsection \<open>Weakest preconditions of state-monad computations\<close>

abbreviation ret :: "'a \<Rightarrow> ('s, 'a) state" where
  "ret \<equiv> State_Monad.return"

definition wp :: "('s, 'a) state \<Rightarrow> ('a \<Rightarrow> 's \<Rightarrow> bool) \<Rightarrow> 's \<Rightarrow> bool" where
  "wp m Q s = (case run_state m s of (a, s') \<Rightarrow> Q a s')"

lemma wp_return [wp_rules]: "wp (State_Monad.return x) Q = Q x"
  by (rule ext) (simp add: wp_def)

lemma wp_bind [wp_rules]: "wp (State_Monad.bind m f) Q = wp m (\<lambda>a. wp (f a) Q)"
  by (rule ext) (simp add: wp_def split: prod.splits)

lemma wp_if [wp_rules]: "wp (if b then m else n) Q = (if b then wp m Q else wp n Q)"
  by simp

lemma wp_run: "wp m Q s \<Longrightarrow> run_state m s = (a, s') \<Longrightarrow> Q a s'"
  by (simp add: wp_def)

lemma wp_runI: "(\<And>a s'. run_state m s = (a, s') \<Longrightarrow> Q a s') \<Longrightarrow> wp m Q s"
  by (simp add: wp_def split: prod.splits)

lemma wp_mono: "wp m P s \<Longrightarrow> (\<And>a t. P a t \<Longrightarrow> Q a t) \<Longrightarrow> wp m Q s"
  by (simp add: wp_def split: prod.splits)

lemma wp_conj: "wp m P s \<Longrightarrow> wp m Q s \<Longrightarrow> wp m (\<lambda>a t. P a t \<and> Q a t) s"
  by (simp add: wp_def split: prod.splits)

text \<open>What holds of the result of an operation, whatever state it starts in.\<close>

definition yields :: "('a \<Rightarrow> bool) \<Rightarrow> ('s, 'a) state \<Rightarrow> bool" where
  "yields P m = (\<forall>s. wp m (\<lambda>a _. P a) s)"

lemma yields_returnI: "P x \<Longrightarrow> yields P (State_Monad.return x)"
  by (simp add: yields_def wp_rules)

lemma yields_bind_post:
  assumes "yields Q m" "\<And>a. Q a \<Longrightarrow> yields P (f a)"
  shows "yields P (State_Monad.bind m f)"
  unfolding yields_def wp_bind
proof
  fix s
  have "wp m (\<lambda>a _. Q a) s" using assms(1) by (simp add: yields_def)
  then show "wp m (\<lambda>a. wp (f a) (\<lambda>a _. P a)) s"
    by (rule wp_mono) (use assms(2) in \<open>simp add: yields_def\<close>)
qed

lemma yields_True: "yields (\<lambda>_. True) m"
  by (simp add: yields_def wp_def split: prod.splits)

lemma yields_bindI: "(\<And>a. yields P (f a)) \<Longrightarrow> yields P (State_Monad.bind m f)"
  by (rule yields_bind_post [OF yields_True])

lemma yields_wp: "yields P m \<Longrightarrow> wp m (\<lambda>a _. P a) s"
  by (simp add: yields_def)

lemma yields_run: "yields P m \<Longrightarrow> run_state m s = (a, s') \<Longrightarrow> P a"
  unfolding yields_def by (drule spec [of _ s], drule wp_run, assumption, assumption)

subsection \<open>Codecs\<close>

text \<open>
  The interface of an encoder and its decoder: decoding an encoded value gives it back,
  whatever acceptable bytes follow it. What the clients of an encoder use is that the
  encoding is injective, also when it is followed by further text.
\<close>

locale stream_codec =
  fixes enc :: "'a \<Rightarrow> 'b list"
    and dec :: "'b list \<Rightarrow> ('a \<times> 'b list) option"
    and ok :: "'a \<Rightarrow> bool"
    and stop :: "'b list \<Rightarrow> bool"
  assumes dec_enc: "ok x \<Longrightarrow> stop rest \<Longrightarrow> dec (enc x @ rest) = Some (x, rest)"
    and stop_nil: "stop []"
begin

lemma enc_inj: "ok x \<Longrightarrow> ok y \<Longrightarrow> enc x = enc y \<Longrightarrow> x = y"
  using dec_enc [of x "[]"] dec_enc [of y "[]"] stop_nil by auto

lemma enc_append_inj:
  assumes "ok x" "ok y" "stop r" "stop r'" "enc x @ r = enc y @ r'"
  shows "x = y \<and> r = r'"
proof -
  have "Some (x, r) = dec (enc x @ r)"
    using assms(1,3) by (simp add: dec_enc)
  also have "\<dots> = dec (enc y @ r')"
    by (simp only: assms(5))
  also have "\<dots> = Some (y, r')"
    using assms(2,4) by (rule dec_enc)
  finally show ?thesis by simp
qed

lemma enc_inj_on: "inj_on enc {x. ok x}"
  by (rule inj_onI) (auto intro: enc_inj)

end

end
