(* ===== verification/CString.thy ===== *)
theory CString
  imports Prelude
begin

text \<open>
  The part of the C library the sources call on strings and numbers. A NUL-terminated
  string is a \<^typ>\<open>string\<close> without NUL characters; a pointer into a string is the suffix
  it points to; \<open>NULL\<close> is \<^term>\<open>None\<close>. A bounded buffer is filled by \<open>snprintf\<close>,
  which keeps at most size - 1 characters and returns the length it would have needed.
  The integer conversions follow the LP64 C library: they saturate at the bounds of their
  result type, and \<open>atoi\<close> narrows the saturated \<open>long\<close> to 32 bits.
\<close>

abbreviation NUL :: char where "NUL \<equiv> CHR 0x00"
abbreviation dq :: string where "dq \<equiv> [CHR 0x22]"
abbreviation nl :: string where "nl \<equiv> [CHR 0x0A]"
abbreviation crlf :: string where "crlf \<equiv> [CHR 0x0D, CHR 0x0A]"

subsection \<open>Bytes and characters\<close>

definition byte_of_char :: "char \<Rightarrow> byte" where
  "byte_of_char c = word_of_nat (of_char c)"

definition char_of_byte :: "byte \<Rightarrow> char" where
  "char_of_byte b = char_of (unat b)"

definition bytes_of :: "string \<Rightarrow> byte list" where
  "bytes_of s = map byte_of_char s"

definition chars_of :: "byte list \<Rightarrow> string" where
  "chars_of bs = map char_of_byte bs"

text \<open>The C string a buffer of bytes holds: its bytes up to the first NUL.\<close>

definition cstring :: "string \<Rightarrow> string" where
  "cstring buf = takeWhile (\<lambda>c. c \<noteq> NUL) buf"

definition nul_free :: "string \<Rightarrow> bool" where
  "nul_free s = (\<forall>c \<in> set s. c \<noteq> NUL)"

subsection \<open>Searching and comparing\<close>

fun strstr :: "string \<Rightarrow> string \<Rightarrow> string option" where
  "strstr [] pat = (if pat = [] then Some [] else None)"
| "strstr (c # cs) pat = (if prefix pat (c # cs) then Some (c # cs) else strstr cs pat)"

fun strchr :: "string \<Rightarrow> char \<Rightarrow> string option" where
  "strchr [] x = None"
| "strchr (c # cs) x = (if c = x then Some (c # cs) else strchr cs x)"

definition strncmp_eq :: "string \<Rightarrow> string \<Rightarrow> nat \<Rightarrow> bool" where
  "strncmp_eq a b n = (take n a = take n b)"

definition lower_char :: "char \<Rightarrow> char" where
  "lower_char c = (if 65 \<le> (of_char c :: nat) \<and> (of_char c :: nat) \<le> 90 then char_of (of_char c + (32::nat)) else c)"

definition strncasecmp_eq :: "string \<Rightarrow> string \<Rightarrow> nat \<Rightarrow> bool" where
  "strncasecmp_eq a b n = (take n (map lower_char a) = take n (map lower_char b))"

subsection \<open>Bounded writes\<close>

definition snprintf :: "nat \<Rightarrow> string \<Rightarrow> string \<times> nat" where
  "snprintf sz s = (take (sz - 1) s, length s)"

abbreviation snprintf_str :: "nat \<Rightarrow> string \<Rightarrow> string" where
  "snprintf_str sz s \<equiv> fst (snprintf sz s)"

text \<open>
  \<^verbatim>\<open>pos += snprintf(buf + pos, cap - pos, ...)\<close> on a buffer that holds \<open>content\<close>: with
  \<open>pos > cap\<close> the size wraps around and the write is out of bounds, which is \<^term>\<open>None\<close>.
\<close>

definition snprintf_at :: "nat \<Rightarrow> string \<times> nat \<Rightarrow> string \<Rightarrow> (string \<times> nat) option" where
  "snprintf_at cap b s =
     (case b of (content, pos) \<Rightarrow>
        if pos \<le> cap then Some (content @ take (cap - pos - 1) s, pos + length s) else None)"

text \<open>\<^verbatim>\<open>strncpy(dst, src, n)\<close>: n bytes of \<open>src\<close>, padded with NUL; the rest of \<open>dst\<close> stays.\<close>

definition strncpy :: "string \<Rightarrow> string \<Rightarrow> nat \<Rightarrow> string" where
  "strncpy dst src n = take n (src @ replicate n NUL) @ drop n dst"

subsection \<open>Printing numbers\<close>

definition digit_char :: "nat \<Rightarrow> char" where
  "digit_char n = char_of (48 + n)"

fun show_nat :: "nat \<Rightarrow> string" where
  "show_nat n = (if n < 10 then [digit_char n] else show_nat (n div 10) @ [digit_char (n mod 10)])"

declare show_nat.simps [simp del]

definition show_int :: "int \<Rightarrow> string" where
  "show_int i = (if i < 0 then ''-'' @ show_nat (nat (- i)) else show_nat (nat i))"

definition hex_digit :: "nat \<Rightarrow> char" where
  "hex_digit n = (if n < 10 then char_of (48 + n) else char_of (87 + n))"

text \<open>\<^verbatim>\<open>"%02x"\<close> of a byte.\<close>

definition hex2 :: "byte \<Rightarrow> string" where
  "hex2 b = [hex_digit (unat b div 16), hex_digit (unat b mod 16)]"

subsection \<open>Reading numbers\<close>

definition is_space :: "char \<Rightarrow> bool" where
  "is_space c = (c \<in> {CHR '' '', CHR 0x09, CHR 0x0A, CHR 0x0B, CHR 0x0C, CHR 0x0D})"

definition is_digit :: "char \<Rightarrow> bool" where
  "is_digit c = (48 \<le> (of_char c :: nat) \<and> (of_char c :: nat) \<le> 57)"

definition digit_val :: "char \<Rightarrow> nat" where
  "digit_val c = of_char c - 48"

definition digits_val :: "string \<Rightarrow> nat" where
  "digits_val ds = foldl (\<lambda>v c. 10 * v + digit_val c) 0 ds"

text \<open>
  Base-10 \<open>strto*\<close>: white space, an optional sign, digits. The result is the sign, the
  magnitude and the end pointer, or \<^term>\<open>None\<close> when no conversion is possible (the end
  pointer is then the start).
\<close>

definition strto :: "string \<Rightarrow> (bool \<times> nat \<times> string) option" where
  "strto s =
     (let t = dropWhile is_space s;
          neg = (t \<noteq> [] \<and> hd t = CHR ''-'');
          u = (if t \<noteq> [] \<and> (hd t = CHR ''-'' \<or> hd t = CHR ''+'') then tl t else t);
          ds = takeWhile is_digit u
      in if ds = [] then None else Some (neg, digits_val ds, dropWhile is_digit u))"

definition strtoull :: "string \<Rightarrow> u64 \<times> string" where
  "strtoull s =
     (case strto s of
        None \<Rightarrow> (0, s)
      | Some (neg, v, rest) \<Rightarrow>
          (if 2 ^ 64 \<le> v then - 1 else if neg then - word_of_nat v else word_of_nat v, rest))"

definition strtoll :: "string \<Rightarrow> int \<times> string" where
  "strtoll s =
     (case strto s of
        None \<Rightarrow> (0, s)
      | Some (neg, v, rest) \<Rightarrow>
          (if neg then max (- (2 ^ 63)) (- int v) else min (2 ^ 63 - 1) (int v), rest))"

definition atoll :: "string \<Rightarrow> int" where
  "atoll s = fst (strtoll s)"

definition atoi :: "string \<Rightarrow> int" where
  "atoi s = signed_take_bit 31 (fst (strtoll s))"

subsection \<open>Bytes and characters: lemmas\<close>

lemma of_char_less: "(of_char c :: nat) < 256"
  using nat_of_char_less_256 by simp

lemma char_byte_inverse [simp]: "char_of_byte (byte_of_char c) = c"
  by (simp add: byte_of_char_def char_of_byte_def unat_of_nat of_char_less)

lemma byte_char_inverse [simp]: "byte_of_char (char_of_byte b) = b"
proof -
  have "unat b < 256" using unat_less_exp [of b] by simp
  then have "of_char (char_of (unat b)) = unat b" by (simp add: of_char_of)
  then show ?thesis by (simp add: byte_of_char_def char_of_byte_def)
qed

lemma chars_of_bytes_of [simp]: "chars_of (bytes_of s) = s"
  by (simp add: chars_of_def bytes_of_def map_idI)

lemma bytes_of_chars_of [simp]: "bytes_of (chars_of bs) = bs"
  by (simp add: chars_of_def bytes_of_def map_idI)

lemma length_bytes_of [simp]: "length (bytes_of s) = length s"
  by (simp add: bytes_of_def)

lemma length_chars_of [simp]: "length (chars_of bs) = length bs"
  by (simp add: chars_of_def)

lemma cstring_nul_free [simp]: "nul_free s \<Longrightarrow> cstring s = s"
  by (simp add: cstring_def nul_free_def takeWhile_eq_all)

lemma cstring_append_nul [simp]: "cstring (s @ NUL # t) = cstring s"
  by (induction s) (simp_all add: cstring_def)

lemma nul_free_cstring [simp]: "nul_free (cstring s)"
  using set_takeWhileD by (fastforce simp: nul_free_def cstring_def)

lemma nul_free_append [simp]: "nul_free (s @ t) \<longleftrightarrow> nul_free s \<and> nul_free t"
  by (auto simp: nul_free_def)

lemma nul_free_Nil [simp]: "nul_free []"
  by (simp add: nul_free_def)

lemma nul_free_Cons [simp]: "nul_free (c # s) \<longleftrightarrow> c \<noteq> NUL \<and> nul_free s"
  by (auto simp: nul_free_def)

subsection \<open>Searching: lemmas\<close>

lemma strstr_suffix: "strstr s pat = Some p \<Longrightarrow> \<exists>pre. s = pre @ p \<and> prefix pat p"
proof (induction s)
  case Nil
  then show ?case by (simp split: if_splits)
next
  case (Cons c cs)
  show ?case
  proof (cases "prefix pat (c # cs)")
    case True
    with Cons.prems have "c # cs = [] @ p \<and> prefix pat p" by simp
    then show ?thesis by blast
  next
    case False
    with Cons obtain pre where "cs = pre @ p" "prefix pat p" by auto
    then have "c # cs = (c # pre) @ p \<and> prefix pat p" by simp
    then show ?thesis by blast
  qed
qed

lemma strstr_None_iff: "strstr s pat = None \<longleftrightarrow> \<not> sublist pat s"
  by (induction s) (auto simp: sublist_Cons_right)

text \<open>Text that does not hold the pattern's first character is skipped.\<close>

lemma strstr_skip:
  "pat \<noteq> [] \<Longrightarrow> (\<And>c. c \<in> set ds \<Longrightarrow> c \<noteq> hd pat) \<Longrightarrow> strstr (ds @ s) pat = strstr s pat"
proof (induction ds)
  case Nil
  then show ?case by simp
next
  case (Cons d ds)
  then have "\<not> prefix pat (d # ds @ s)" by (cases pat) auto
  with Cons show ?case by simp
qed

lemma strstr_here: "strstr (pat @ s) pat = Some (pat @ s)"
proof (cases "pat @ s")
  case Nil
  then show ?thesis by simp
next
  case (Cons a list)
  then have "prefix pat (a # list)" by (metis prefixI)
  with Cons show ?thesis by simp
qed

lemma strchr_Some: "strchr s x = Some p \<Longrightarrow> \<exists>pre. s = pre @ p \<and> x \<notin> set pre \<and> hd p = x \<and> p \<noteq> []"
proof (induction s)
  case Nil
  then show ?case by simp
next
  case (Cons c cs)
  show ?case
  proof (cases "c = x")
    case True
    with Cons.prems show ?thesis by (auto intro: exI [of _ "[]"])
  next
    case False
    with Cons obtain pre where "cs = pre @ p" "x \<notin> set pre" "hd p = x" "p \<noteq> []" by auto
    with False have "c # cs = (c # pre) @ p \<and> x \<notin> set (c # pre) \<and> hd p = x \<and> p \<noteq> []" by simp
    then show ?thesis by blast
  qed
qed

lemma strchr_None: "strchr s x = None \<longleftrightarrow> x \<notin> set s"
  by (induction s) auto

lemma strchr_append: "x \<notin> set pre \<Longrightarrow> strchr (pre @ x # s) x = Some (x # s)"
  by (induction pre) auto

subsection \<open>Bounded writes: lemmas\<close>

lemma snprintf_length [len_bounds]: "0 < sz \<Longrightarrow> length (snprintf_str sz s) < sz"
  by (simp add: snprintf_def)

lemma snprintf_fits: "length s < sz \<Longrightarrow> snprintf sz s = (s, length s)"
  by (simp add: snprintf_def)

lemma snprintf_nul_free [simp]: "nul_free s \<Longrightarrow> nul_free (snprintf_str sz s)"
  by (auto simp: snprintf_def nul_free_def dest: in_set_takeD)

lemma snprintf_at_fits:
  "length content + length s < cap \<Longrightarrow>
   snprintf_at cap (content, length content) s = Some (content @ s, length (content @ s))"
  by (simp add: snprintf_at_def)

lemma length_strncpy: "n \<le> length dst \<Longrightarrow> length (strncpy dst src n) = length dst"
  by (simp add: strncpy_def)

text \<open>Into a zeroed buffer, \<open>strncpy\<close> of one byte less than its size leaves a C string.\<close>

lemma cstring_strncpy_zeroed:
  assumes "nul_free src" "n < sz"
  shows "cstring (strncpy (replicate sz NUL) src n) = take n src"
proof -
  have nf: "nul_free (take n src)"
    using assms(1) by (auto simp: nul_free_def dest: in_set_takeD)
  have "strncpy (replicate sz NUL) src n
      = take n src @ replicate (n - length src) NUL @ replicate (sz - n) NUL"
    by (simp add: strncpy_def min_def)
  also have "\<dots> = take n src @ NUL # replicate (n - length src + (sz - n) - 1) NUL"
    using assms(2) by (simp add: replicate_add [symmetric] flip: replicate_Suc)
  finally show ?thesis using nf by simp
qed

subsection \<open>Numbers: lemmas\<close>

lemma of_char_digit_char: "n < 10 \<Longrightarrow> (of_char (digit_char n) :: nat) = 48 + n"
  by (simp add: digit_char_def of_char_of)

lemma is_digit_digit_char [simp]: "n < 10 \<Longrightarrow> is_digit (digit_char n)"
  by (simp add: is_digit_def of_char_digit_char)

lemma digit_val_digit_char [simp]: "n < 10 \<Longrightarrow> digit_val (digit_char n) = n"
  by (simp add: digit_val_def of_char_digit_char)

lemma digits_val_snoc: "digits_val (ds @ [c]) = 10 * digits_val ds + digit_val c"
  by (simp add: digits_val_def)

lemma show_nat_digits: "c \<in> set (show_nat n) \<Longrightarrow> is_digit c"
proof (induction n rule: show_nat.induct)
  case (1 n)
  then show ?case
    by (cases "n < 10") (auto simp: show_nat.simps [of n])
qed

lemma show_nat_nonempty [simp]: "show_nat n \<noteq> []"
  by (subst show_nat.simps) simp

lemma digits_val_show_nat [simp]: "digits_val (show_nat n) = n"
proof (induction n rule: show_nat.induct)
  case (1 n)
  show ?case
  proof (cases "n < 10")
    case True
    then show ?thesis by (simp add: show_nat.simps [of n] digits_val_def)
  next
    case False
    with 1 show ?thesis by (simp add: show_nat.simps [of n] digits_val_snoc)
  qed
qed

lemma length_show_nat: "n < 10 ^ k \<Longrightarrow> 0 < k \<Longrightarrow> length (show_nat n) \<le> k"
proof (induction k arbitrary: n)
  case 0
  then show ?case by simp
next
  case (Suc k)
  show ?case
  proof (cases "n < 10")
    case True
    then show ?thesis by (simp add: show_nat.simps [of n])
  next
    case False
    with Suc.prems have "n div 10 < 10 ^ k" "0 < k"
      by (auto simp: less_mult_imp_div_less algebra_simps intro: Nat.gr0I)
    then have "length (show_nat (n div 10)) \<le> k" by (rule Suc.IH)
    with False show ?thesis by (simp add: show_nat.simps [of n])
  qed
qed

lemma digit_not_special:
  assumes "is_digit c"
  shows "c \<noteq> NUL" "c \<noteq> CHR 0x22" "c \<noteq> CHR '' ''" "c \<noteq> CHR '',''" "c \<noteq> CHR ''-''"
    "c \<noteq> CHR ''+''" "c \<noteq> CHR '']''" "c \<noteq> CHR ''}''" "\<not> is_space c"
  using assms by (auto simp: is_digit_def is_space_def)

lemma nul_free_show_nat [simp]: "nul_free (show_nat n)"
  by (auto simp: nul_free_def dest!: show_nat_digits dest: digit_not_special)

lemma nul_free_show_int [simp]: "nul_free (show_int i)"
  by (simp add: show_int_def)

lemma hd_show_nat: "is_digit (hd (show_nat n))"
  by (rule show_nat_digits [of _ n]) simp

lemma length_show_int: "\<bar>i\<bar> < 10 ^ k \<Longrightarrow> 0 < k \<Longrightarrow> length (show_int i) \<le> Suc k"
proof -
  assume a: "\<bar>i\<bar> < 10 ^ k" "0 < k"
  then have "nat \<bar>i\<bar> < 10 ^ k" by (simp add: nat_less_iff)
  with a(2) have "length (show_nat (nat \<bar>i\<bar>)) \<le> k" by (rule length_show_nat [rotated])
  then show ?thesis by (auto simp: show_int_def abs_if split: if_splits)
qed

lemma length_show_u8 [len_bounds]: "length (show_nat (unat (b :: u8))) \<le> 3"
  by (rule length_show_nat) (use unat_less_exp [of b] in simp_all)

lemma length_show_u16 [len_bounds]: "length (show_nat (unat (b :: u16))) \<le> 5"
  by (rule length_show_nat) (use unat_less_exp [of b] in simp_all)

lemma length_show_u32 [len_bounds]: "length (show_nat (unat (b :: u32))) \<le> 10"
  by (rule length_show_nat) (use unat_less_exp [of b] in simp_all)

lemma length_show_u64 [len_bounds]: "length (show_nat (unat (b :: u64))) \<le> 20"
  by (rule length_show_nat) (use unat_less_exp [of b] in simp_all)

text \<open>Reading back what was printed, whatever follows it that is not a digit.\<close>

lemma strto_show_nat:
  assumes "rest = [] \<or> \<not> is_digit (hd rest)"
  shows "strto (show_nat n @ rest) = Some (False, n, rest)"
proof -
  have hd: "hd (show_nat n @ rest) = hd (show_nat n)" by simp
  have "dropWhile is_space (show_nat n @ rest) = show_nat n @ rest"
    by (rule dropWhile_hd) (use hd_show_nat digit_not_special(9) in \<open>auto simp: hd\<close>)
  moreover have "takeWhile is_digit (show_nat n @ rest) = show_nat n"
    using assms by (intro takeWhile_append_stop) (auto dest: show_nat_digits)
  moreover have "dropWhile is_digit (show_nat n @ rest) = rest"
    using assms by (intro dropWhile_append_stop) (auto dest: show_nat_digits)
  ultimately show ?thesis
    using digit_not_special(5,6) [OF hd_show_nat [of n]] by (simp add: strto_def hd Let_def)
qed

lemma strtoull_show_nat:
  assumes "rest = [] \<or> \<not> is_digit (hd rest)" "n < 2 ^ 64"
  shows "strtoull (show_nat n @ rest) = (word_of_nat n, rest)"
  using assms(2) by (simp add: strtoull_def strto_show_nat [OF assms(1)])

lemma strto_minus_show_nat:
  assumes "rest = [] \<or> \<not> is_digit (hd rest)"
  shows "strto (CHR ''-'' # show_nat n @ rest) = Some (True, n, rest)"
proof -
  have "takeWhile is_digit (show_nat n @ rest) = show_nat n"
    "dropWhile is_digit (show_nat n @ rest) = rest"
    using assms by (auto intro!: takeWhile_append_stop dropWhile_append_stop dest: show_nat_digits)
  then show ?thesis by (simp add: strto_def is_space_def)
qed

text \<open>A negative number read as unsigned is its value modulo \<open>2 ^ 64\<close>.\<close>

lemma strtoull_show_int:
  assumes "rest = [] \<or> \<not> is_digit (hd rest)" "\<bar>i\<bar> < 2 ^ 63"
  shows "strtoull (show_int i @ rest) = (word_of_int i, rest)"
proof (cases "i < 0")
  case True
  then have "nat (- i) < 2 ^ 64" using assms(2) by (simp add: nat_less_iff)
  moreover have "- word_of_nat (nat (- i)) = (word_of_int i :: u64)"
    using True by (simp add: of_nat_nat)
  ultimately show ?thesis
    using True by (simp add: show_int_def strtoull_def strto_minus_show_nat [OF assms(1)])
next
  case False
  then have "nat i < 2 ^ 64" using assms(2) by (simp add: nat_less_iff)
  with False show ?thesis
    by (simp add: show_int_def strtoull_show_nat [OF assms(1)])
qed

lemma strtoll_show_nat:
  assumes "rest = [] \<or> \<not> is_digit (hd rest)" "n < 2 ^ 63"
  shows "strtoll (show_nat n @ rest) = (int n, rest)"
proof -
  have "int n < 2 ^ 63" using assms(2) by simp
  then show ?thesis by (simp add: strtoll_def strto_show_nat [OF assms(1)])
qed

lemma strtoll_range: "- (2 ^ 63) \<le> fst (strtoll s) \<and> fst (strtoll s) \<le> 2 ^ 63 - 1"
  by (auto simp: strtoll_def split: option.splits prod.splits)

lemma atoi_range: "- (2 ^ 31) \<le> atoi s \<and> atoi s < 2 ^ 31"
  using signed_take_bit_int_greater_eq_minus_exp [of 31 "fst (strtoll s)"]
    signed_take_bit_int_less_exp [of 31 "fst (strtoll s)"]
  by (simp add: atoi_def)

text \<open>Decimal printing is a codec for the C library's reader.\<close>

definition read_nat :: "string \<Rightarrow> (nat \<times> string) option" where
  "read_nat s = (case strto s of Some (False, v, rest) \<Rightarrow> Some (v, rest) | _ \<Rightarrow> None)"

definition no_digit_next :: "string \<Rightarrow> bool" where
  "no_digit_next rest \<longleftrightarrow> rest = [] \<or> \<not> is_digit (hd rest)"

interpretation decimal: stream_codec show_nat read_nat "\<lambda>_. True" no_digit_next
  by unfold_locales (simp_all add: read_nat_def no_digit_next_def strto_show_nat)

lemma length_hex2 [simp]: "length (hex2 b) = 2"
  by (simp add: hex2_def)

end
