(* ===== verification/World.thy ===== *)
theory World
  imports CString
begin

text \<open>
  The interface between the client and everything it does not implement: the operating
  system, libibverbs, libcurl, OpenSSL and zlib. Every external call is an event of a
  trace (newest first) that records its arguments and its answer; the answers come from an
  environment \<open>env\<close>, a record of functions of the trace so far, so a theorem for every
  environment covers every behaviour of the network, the server, the device and the memory
  allocator. A handle returned by a call that acquires a resource is the position of the
  call in the trace, so handles are never reused.
\<close>

subsection \<open>Arguments of the verbs and of libcurl\<close>

datatype qp_state = QPS_RESET | QPS_INIT | QPS_RTR | QPS_RTS

datatype access_flag = ACCESS_LOCAL_WRITE | ACCESS_REMOTE_WRITE | ACCESS_REMOTE_READ

datatype qp_mask = QP_STATE | QP_ACCESS_FLAGS | QP_PKEY_INDEX | QP_PORT | QP_AV | QP_PATH_MTU
  | QP_TIMEOUT | QP_RETRY_CNT | QP_RNR_RETRY | QP_RQ_PSN | QP_MAX_QP_RD_ATOMIC
  | QP_MIN_RNR_TIMER | QP_SQ_PSN | QP_MAX_DEST_RD_ATOMIC | QP_DEST_QPN

record qp_attr =
  qp_state :: qp_state
  path_mtu :: int
  qp_access_flags :: "access_flag set"
  pkey_index :: u16
  port_num :: u8
  dest_qp_num :: u32
  rq_psn :: u32
  sq_psn :: u32
  max_rd_atomic :: u8
  max_dest_rd_atomic :: u8
  min_rnr_timer :: u8
  timeout :: u8
  retry_cnt :: u8
  rnr_retry :: u8
  ah_is_global :: u8
  ah_dlid :: u16
  ah_sl :: u8
  ah_port_num :: u8
  grh_sgid_index :: u8
  grh_hop_limit :: u8
  grh_traffic_class :: u8
  grh_flow_label :: u32
  grh_dgid :: "byte list"

text \<open>The attribute structure after \<^verbatim>\<open>memset(&attr, 0, sizeof(attr))\<close>.\<close>

definition qp_attr_zero :: qp_attr where
  "qp_attr_zero = \<lparr>qp_state = QPS_RESET, path_mtu = 0, qp_access_flags = {}, pkey_index = 0,
     port_num = 0, dest_qp_num = 0, rq_psn = 0, sq_psn = 0, max_rd_atomic = 0,
     max_dest_rd_atomic = 0, min_rnr_timer = 0, timeout = 0, retry_cnt = 0, rnr_retry = 0,
     ah_is_global = 0, ah_dlid = 0, ah_sl = 0, ah_port_num = 0, grh_sgid_index = 0,
     grh_hop_limit = 0, grh_traffic_class = 0, grh_flow_label = 0, grh_dgid = replicate 16 0\<rparr>"

datatype qp_type = QPT_RC | QPT_UC | QPT_UD

record qp_init_attr =
  send_cq :: nat
  recv_cq :: nat
  max_send_wr :: u32
  max_recv_wr :: u32
  max_send_sge :: u32
  max_recv_sge :: u32
  max_inline_data :: u32
  qp_type :: qp_type
  sq_sig_all :: int

text \<open>The options set on an easy handle; \<^term>\<open>None\<close> and \<^term>\<open>False\<close> are libcurl's defaults.\<close>

datatype write_callback = Write_Discard | Write_Response

record curl_opts =
  co_url :: string
  co_headers :: "string list"
  co_write :: write_callback
  co_header_cb :: bool
  co_nobody :: bool
  co_httpget :: bool
  co_ignore_content_length :: bool
  co_upload :: bool
  co_infilesize :: "int option"
  co_empty_read :: bool
  co_customrequest :: "string option"
  co_postfields :: "string option"
  co_postfieldsize :: "int option"

record curl_reply =
  cr_headers :: "string list"
  cr_chunks :: "byte list list"
  cr_code :: nat
  cr_http :: int

subsection \<open>Events\<close>

datatype net_call =
    GetAddrInfo string string "(nat \<times> nat) option"
  | FreeAddrInfo nat
  | Socket nat nat "nat option"
  | Connect nat nat nat bool
  | Close nat
  | Read nat nat "byte list option"
  | Write nat "byte list" int

datatype sys_call =
    Srand u32
  | Rand u32
  | Time int
  | GetPid int
  | Malloc nat "nat option"
  | Realloc "nat option" nat "nat option"
  | Free nat
  | Mmap u64 "(nat \<times> u64) option"
  | Munmap nat u64
  | Load nat u64 "byte list"

datatype file_call =
    Fopen string string "nat option"
  | Fstat nat "int option"
  | Fseek nat int bool
  | Fread nat nat u64 "byte list"
  | Fwrite nat nat u64 "byte list" nat
  | Fclose nat

datatype verbs_call =
    GetDeviceList "(nat \<times> string list) option"
  | FreeDeviceList nat
  | OpenDevice nat nat "nat option"
  | CloseDevice nat
  | AllocPd nat "nat option"
  | DeallocPd nat
  | CreateCq nat int "nat option"
  | DestroyCq nat
  | CreateQp nat qp_init_attr "(nat \<times> u32) option"
  | DestroyQp nat
  | ModifyQp nat qp_attr "qp_mask set" int
  | QueryPort nat u8 "int option"
  | QueryGid nat u8 int "byte list option"
  | RegMr nat nat u64 "access_flag set" "(nat \<times> u32) option"
  | DeregMr nat

datatype curl_call =
    CurlInit "nat option"
  | SlistAppend "nat option" string "nat option"
  | SlistFree nat
  | Perform "nat option" curl_opts curl_reply
  | CurlCleanup nat

datatype event =
    Net net_call
  | Sys sys_call
  | File file_call
  | Verbs verbs_call
  | Curl curl_call
  | Stderr string
  | Stdout string
  | Undefined string

type_synonym trace = "event list"
type_synonym 'a io = "(trace, 'a) state"

record env =
  env_getaddrinfo :: "trace \<Rightarrow> string \<Rightarrow> string \<Rightarrow> nat option"
  env_socket :: "trace \<Rightarrow> nat \<Rightarrow> bool"
  env_connect :: "trace \<Rightarrow> nat \<Rightarrow> nat \<Rightarrow> bool"
  env_read :: "trace \<Rightarrow> nat \<Rightarrow> nat \<Rightarrow> byte list option"
  env_write :: "trace \<Rightarrow> nat \<Rightarrow> byte list \<Rightarrow> int"
  env_rand :: "trace \<Rightarrow> u32"
  env_time :: "trace \<Rightarrow> int"
  env_pid :: int
  env_malloc :: "trace \<Rightarrow> nat \<Rightarrow> bool"
  env_mmap :: "trace \<Rightarrow> u64 \<Rightarrow> u64 option"
  env_fopen :: "trace \<Rightarrow> string \<Rightarrow> string \<Rightarrow> bool"
  env_fstat :: "trace \<Rightarrow> nat \<Rightarrow> int option"
  env_fseek :: "trace \<Rightarrow> nat \<Rightarrow> int \<Rightarrow> bool"
  env_fread :: "trace \<Rightarrow> nat \<Rightarrow> u64 \<Rightarrow> byte list"
  env_ferror :: "trace \<Rightarrow> nat \<Rightarrow> bool"
  env_fwrite :: "trace \<Rightarrow> nat \<Rightarrow> byte list \<Rightarrow> nat"
  env_memory :: "trace \<Rightarrow> nat \<Rightarrow> byte list"
  env_device_list :: "trace \<Rightarrow> string list option"
  env_open_device :: "trace \<Rightarrow> nat \<Rightarrow> bool"
  env_alloc_pd :: "trace \<Rightarrow> nat \<Rightarrow> bool"
  env_create_cq :: "trace \<Rightarrow> nat \<Rightarrow> int \<Rightarrow> bool"
  env_create_qp :: "trace \<Rightarrow> nat \<Rightarrow> qp_init_attr \<Rightarrow> u32 option"
  env_modify_qp :: "trace \<Rightarrow> nat \<Rightarrow> qp_attr \<Rightarrow> qp_mask set \<Rightarrow> int"
  env_query_port :: "trace \<Rightarrow> nat \<Rightarrow> u8 \<Rightarrow> int option"
  env_query_gid :: "trace \<Rightarrow> nat \<Rightarrow> u8 \<Rightarrow> int \<Rightarrow> byte list option"
  env_reg_mr :: "trace \<Rightarrow> nat \<Rightarrow> nat \<Rightarrow> u64 \<Rightarrow> access_flag set \<Rightarrow> u32 option"
  env_curl_init :: "trace \<Rightarrow> bool"
  env_slist_append :: "trace \<Rightarrow> string \<Rightarrow> bool"
  env_perform :: "trace \<Rightarrow> nat \<Rightarrow> curl_opts \<Rightarrow> curl_reply"
  env_strerror :: "trace \<Rightarrow> string"
  env_curl_strerror :: "nat \<Rightarrow> string"
  env_sha256 :: "byte list \<Rightarrow> byte list"
  env_hmac_sha256 :: "byte list \<Rightarrow> byte list \<Rightarrow> byte list"
  env_crc32 :: "byte list \<Rightarrow> u32"

subsection \<open>Calls\<close>

definition ext_call :: "(trace \<Rightarrow> 'a \<times> event) \<Rightarrow> 'a io" where
  "ext_call f = State (\<lambda>tr. case f tr of (a, e) \<Rightarrow> (a, e # tr))"

abbreviation emit :: "event \<Rightarrow> unit io" where
  "emit e \<equiv> ext_call (\<lambda>_. ((), e))"

abbreviation handle_if :: "bool \<Rightarrow> trace \<Rightarrow> nat option" where
  "handle_if b tr \<equiv> (if b then Some (length tr) else None)"

definition c_getaddrinfo :: "env \<Rightarrow> string \<Rightarrow> string \<Rightarrow> (nat \<times> nat) option io" where
  "c_getaddrinfo E host port = ext_call (\<lambda>tr.
     let r = map_option (\<lambda>n. (length tr, n)) (env_getaddrinfo E tr host port)
     in (r, Net (GetAddrInfo host port r)))"

text \<open>Both calls read the entry number \<open>i\<close> of the address list \<open>ai\<close>.\<close>

definition c_socket :: "env \<Rightarrow> nat \<Rightarrow> nat \<Rightarrow> nat option io" where
  "c_socket E ai i = ext_call (\<lambda>tr. let r = handle_if (env_socket E tr i) tr in (r, Net (Socket ai i r)))"

definition c_connect :: "env \<Rightarrow> nat \<Rightarrow> nat \<Rightarrow> nat \<Rightarrow> bool io" where
  "c_connect E fd ai i = ext_call (\<lambda>tr. let r = env_connect E tr fd i in (r, Net (Connect fd ai i r)))"

definition c_close :: "nat \<Rightarrow> unit io" where
  "c_close fd = emit (Net (Close fd))"

definition c_freeaddrinfo :: "nat \<Rightarrow> unit io" where
  "c_freeaddrinfo ai = emit (Net (FreeAddrInfo ai))"

text \<open>A read returns at most the bytes asked for; \<^term>\<open>None\<close> is -1, \<^term>\<open>Some []\<close> is 0.\<close>

definition c_read :: "env \<Rightarrow> nat \<Rightarrow> nat \<Rightarrow> byte list option io" where
  "c_read E fd n = ext_call (\<lambda>tr.
     let r = map_option (take n) (env_read E tr fd n) in (r, Net (Read fd n r)))"

definition c_write :: "env \<Rightarrow> nat \<Rightarrow> byte list \<Rightarrow> int io" where
  "c_write E fd bs = ext_call (\<lambda>tr. let r = env_write E tr fd bs in (r, Net (Write fd bs r)))"

definition c_srand :: "u32 \<Rightarrow> unit io" where
  "c_srand seed = emit (Sys (Srand seed))"

text \<open>\<^verbatim>\<open>(unsigned char)rand()\<close>\<close>

definition c_rand_byte :: "env \<Rightarrow> byte io" where
  "c_rand_byte E = ext_call (\<lambda>tr. let r = env_rand E tr in (ucast r, Sys (Rand r)))"

definition c_time :: "env \<Rightarrow> int io" where
  "c_time E = ext_call (\<lambda>tr. let t = env_time E tr in (t, Sys (Time t)))"

definition c_getpid :: "env \<Rightarrow> int io" where
  "c_getpid E = ext_call (\<lambda>_. (env_pid E, Sys (GetPid (env_pid E))))"

definition c_malloc :: "env \<Rightarrow> nat \<Rightarrow> nat option io" where
  "c_malloc E n = ext_call (\<lambda>tr. let r = handle_if (env_malloc E tr n) tr in (r, Sys (Malloc n r)))"

text \<open>\<^verbatim>\<open>calloc\<close> refuses a product that does not fit a \<^verbatim>\<open>size_t\<close>.\<close>

definition c_calloc :: "env \<Rightarrow> u64 \<Rightarrow> nat \<Rightarrow> nat option io" where
  "c_calloc E count sz = ext_call (\<lambda>tr.
     let n = unat count * sz; r = handle_if (n < 2 ^ 64 \<and> env_malloc E tr n) tr in (r, Sys (Malloc n r)))"

definition c_free :: "nat \<Rightarrow> unit io" where
  "c_free h = emit (Sys (Free h))"

text \<open>\<^verbatim>\<open>realloc\<close> of a live block keeps the identity of the block; NULL is a \<^verbatim>\<open>malloc\<close>.\<close>

definition c_realloc :: "env \<Rightarrow> nat option \<Rightarrow> nat \<Rightarrow> nat option io" where
  "c_realloc E p n = ext_call (\<lambda>tr.
     let r = (if env_malloc E tr n then Some (case p of None \<Rightarrow> length tr | Some h \<Rightarrow> h) else None)
     in (r, Sys (Realloc p n r)))"

text \<open>An anonymous private mapping: a handle and its address. A length of zero is refused.\<close>

definition c_mmap :: "env \<Rightarrow> u64 \<Rightarrow> (nat \<times> u64) option io" where
  "c_mmap E n = ext_call (\<lambda>tr.
     let r = (if n = 0 then None else map_option (Pair (length tr)) (env_mmap E tr n))
     in (r, Sys (Mmap n r)))"

definition c_munmap :: "nat \<Rightarrow> u64 \<Rightarrow> unit io" where
  "c_munmap buf n = emit (Sys (Munmap buf n))"

text \<open>The bytes of a mapping at the time of the access: the device may have written them.\<close>

definition memory_at :: "env \<Rightarrow> trace \<Rightarrow> nat \<Rightarrow> u64 \<Rightarrow> byte list" where
  "memory_at E tr buf n = take (unat n) (env_memory E tr buf @ replicate (unat n) 0)"

definition c_load :: "env \<Rightarrow> nat \<Rightarrow> u64 \<Rightarrow> byte list io" where
  "c_load E buf n = ext_call (\<lambda>tr. let r = memory_at E tr buf n in (r, Sys (Load buf n r)))"

definition c_fopen :: "env \<Rightarrow> string \<Rightarrow> string \<Rightarrow> nat option io" where
  "c_fopen E path mode = ext_call (\<lambda>tr.
     let r = handle_if (env_fopen E tr path mode) tr in (r, File (Fopen path mode r)))"

definition c_fstat :: "env \<Rightarrow> nat \<Rightarrow> int option io" where
  "c_fstat E f = ext_call (\<lambda>tr. let r = env_fstat E tr f in (r, File (Fstat f r)))"

definition c_fseek :: "env \<Rightarrow> nat \<Rightarrow> int \<Rightarrow> bool io" where
  "c_fseek E f off = ext_call (\<lambda>tr. let r = env_fseek E tr f off in (r, File (Fseek f off r)))"

definition c_fread :: "env \<Rightarrow> nat \<Rightarrow> nat \<Rightarrow> u64 \<Rightarrow> byte list io" where
  "c_fread E f buf n = ext_call (\<lambda>tr.
     let r = take (unat n) (env_fread E tr f n) in (r, File (Fread f buf n r)))"

definition c_fwrite :: "env \<Rightarrow> nat \<Rightarrow> nat \<Rightarrow> u64 \<Rightarrow> nat io" where
  "c_fwrite E f buf n = ext_call (\<lambda>tr.
     let bs = memory_at E tr buf n; r = min (length bs) (env_fwrite E tr f bs)
     in (r, File (Fwrite f buf n bs r)))"

definition c_fclose :: "nat \<Rightarrow> unit io" where
  "c_fclose f = emit (File (Fclose f))"

text \<open>\<^verbatim>\<open>strerror(errno)\<close> and \<^verbatim>\<open>ferror\<close> after the calls made so far.\<close>

definition c_strerror :: "env \<Rightarrow> string io" where
  "c_strerror E = State (\<lambda>tr. (env_strerror E tr, tr))"

definition c_ferror :: "env \<Rightarrow> nat \<Rightarrow> bool io" where
  "c_ferror E f = State (\<lambda>tr. (env_ferror E tr f, tr))"

definition c_get_device_list :: "env \<Rightarrow> (nat \<times> string list) option io" where
  "c_get_device_list E = ext_call (\<lambda>tr.
     let r = map_option (Pair (length tr)) (env_device_list E tr) in (r, Verbs (GetDeviceList r)))"

definition c_free_device_list :: "nat \<Rightarrow> unit io" where
  "c_free_device_list h = emit (Verbs (FreeDeviceList h))"

definition c_open_device :: "env \<Rightarrow> nat \<Rightarrow> nat \<Rightarrow> nat option io" where
  "c_open_device E lst i = ext_call (\<lambda>tr.
     let r = handle_if (env_open_device E tr i) tr in (r, Verbs (OpenDevice lst i r)))"

definition c_close_device :: "nat \<Rightarrow> unit io" where
  "c_close_device ctx = emit (Verbs (CloseDevice ctx))"

definition c_alloc_pd :: "env \<Rightarrow> nat \<Rightarrow> nat option io" where
  "c_alloc_pd E ctx = ext_call (\<lambda>tr.
     let r = handle_if (env_alloc_pd E tr ctx) tr in (r, Verbs (AllocPd ctx r)))"

definition c_dealloc_pd :: "nat \<Rightarrow> unit io" where
  "c_dealloc_pd pd = emit (Verbs (DeallocPd pd))"

definition c_create_cq :: "env \<Rightarrow> nat \<Rightarrow> int \<Rightarrow> nat option io" where
  "c_create_cq E ctx cqe = ext_call (\<lambda>tr.
     let r = handle_if (env_create_cq E tr ctx cqe) tr in (r, Verbs (CreateCq ctx cqe r)))"

definition c_destroy_cq :: "nat \<Rightarrow> unit io" where
  "c_destroy_cq cq = emit (Verbs (DestroyCq cq))"

definition c_create_qp :: "env \<Rightarrow> nat \<Rightarrow> qp_init_attr \<Rightarrow> (nat \<times> u32) option io" where
  "c_create_qp E pd attr = ext_call (\<lambda>tr.
     let r = map_option (Pair (length tr)) (env_create_qp E tr pd attr) in (r, Verbs (CreateQp pd attr r)))"

definition c_destroy_qp :: "nat \<Rightarrow> unit io" where
  "c_destroy_qp qp = emit (Verbs (DestroyQp qp))"

definition c_modify_qp :: "env \<Rightarrow> nat \<Rightarrow> qp_attr \<Rightarrow> qp_mask set \<Rightarrow> int io" where
  "c_modify_qp E qp attr msk = ext_call (\<lambda>tr.
     let r = env_modify_qp E tr qp attr msk in (r, Verbs (ModifyQp qp attr msk r)))"

definition c_query_port :: "env \<Rightarrow> nat \<Rightarrow> u8 \<Rightarrow> int option io" where
  "c_query_port E ctx port = ext_call (\<lambda>tr.
     let r = env_query_port E tr ctx port in (r, Verbs (QueryPort ctx port r)))"

text \<open>A GID is a union of sixteen raw bytes.\<close>

definition c_query_gid :: "env \<Rightarrow> nat \<Rightarrow> u8 \<Rightarrow> int \<Rightarrow> byte list option io" where
  "c_query_gid E ctx port idx = ext_call (\<lambda>tr.
     let r = map_option (\<lambda>raw. take 16 (raw @ replicate 16 0)) (env_query_gid E tr ctx port idx)
     in (r, Verbs (QueryGid ctx port idx r)))"

definition c_reg_mr :: "env \<Rightarrow> nat \<Rightarrow> nat \<Rightarrow> u64 \<Rightarrow> access_flag set \<Rightarrow> (nat \<times> u32) option io" where
  "c_reg_mr E pd buf len acc = ext_call (\<lambda>tr.
     let r = map_option (Pair (length tr)) (env_reg_mr E tr pd buf len acc)
     in (r, Verbs (RegMr pd buf len acc r)))"

definition c_dereg_mr :: "nat \<Rightarrow> unit io" where
  "c_dereg_mr mr = emit (Verbs (DeregMr mr))"

text \<open>
  libcurl. A header list is a handle with its strings; appending to NULL creates it, and a
  failed append returns NULL. Every function accepts a NULL easy handle:
  \<^verbatim>\<open>curl_easy_perform\<close> then returns \<^verbatim>\<open>CURLE_BAD_FUNCTION_ARGUMENT\<close> (43) and
  \<^verbatim>\<open>curl_easy_getinfo\<close> stores nothing.
\<close>

type_synonym slist = "(nat \<times> string list) option"

definition slist_strings :: "slist \<Rightarrow> string list" where
  "slist_strings h = (case h of None \<Rightarrow> [] | Some (_, ss) \<Rightarrow> ss)"

definition c_slist_append :: "env \<Rightarrow> slist \<Rightarrow> string \<Rightarrow> slist io" where
  "c_slist_append E l s = ext_call (\<lambda>tr.
     let r = (if env_slist_append E tr s
              then Some (case l of None \<Rightarrow> (length tr, [s]) | Some (h, ss) \<Rightarrow> (h, ss @ [s]))
              else None)
     in (r, Curl (SlistAppend (map_option fst l) s (map_option fst r))))"

definition c_slist_free_all :: "slist \<Rightarrow> unit io" where
  "c_slist_free_all l = (case l of None \<Rightarrow> ret () | Some (h, _) \<Rightarrow> emit (Curl (SlistFree h)))"

definition c_curl_init :: "env \<Rightarrow> nat option io" where
  "c_curl_init E = ext_call (\<lambda>tr. let r = handle_if (env_curl_init E tr) tr in (r, Curl (CurlInit r)))"

definition bad_handle_reply :: curl_reply where
  "bad_handle_reply = \<lparr>cr_headers = [], cr_chunks = [], cr_code = 43, cr_http = 0\<rparr>"

definition c_perform :: "env \<Rightarrow> nat option \<Rightarrow> curl_opts \<Rightarrow> curl_reply io" where
  "c_perform E c opts = ext_call (\<lambda>tr.
     let r = (case c of None \<Rightarrow> bad_handle_reply | Some h \<Rightarrow> env_perform E tr h opts)
     in (r, Curl (Perform c opts r)))"

definition c_curl_cleanup :: "nat option \<Rightarrow> unit io" where
  "c_curl_cleanup c = (case c of None \<Rightarrow> ret () | Some h \<Rightarrow> emit (Curl (CurlCleanup h)))"

subsection \<open>A sample environment\<close>

text \<open>
  An environment in which every call succeeds: one address, one device, complete writes, a
  clock that stands at 2023-11-14 22:13:20 UTC, and a server that answers 200 with no body. The
  statements about environments are evaluated on it.
\<close>

definition sample_env :: env where
  "sample_env = \<lparr>
     env_getaddrinfo = (\<lambda>tr host port. Some 1), env_socket = (\<lambda>tr a. True),
     env_connect = (\<lambda>tr fd a. True), env_read = (\<lambda>tr fd n. None),
     env_write = (\<lambda>tr fd bs. int (length bs)), env_rand = (\<lambda>tr. 0),
     env_time = (\<lambda>tr. 1700000000), env_pid = 4242, env_malloc = (\<lambda>tr n. True),
     env_mmap = (\<lambda>tr n. Some 4096), env_fopen = (\<lambda>tr path mode. True),
     env_fstat = (\<lambda>tr f. Some 3), env_fseek = (\<lambda>tr f off. True),
     env_fread = (\<lambda>tr f n. replicate (unat n) 0), env_ferror = (\<lambda>tr f. False),
     env_fwrite = (\<lambda>tr f bs. length bs), env_memory = (\<lambda>tr h. []),
     env_device_list = (\<lambda>tr. Some [''rxe0'']), env_open_device = (\<lambda>tr i. True),
     env_alloc_pd = (\<lambda>tr c. True), env_create_cq = (\<lambda>tr c n. True),
     env_create_qp = (\<lambda>tr p a. Some 17), env_modify_qp = (\<lambda>tr q a m. 0),
     env_query_port = (\<lambda>tr c p. Some 5), env_query_gid = (\<lambda>tr c p i. Some (replicate 16 0)),
     env_reg_mr = (\<lambda>tr p b n a. Some 99), env_curl_init = (\<lambda>tr. True),
     env_slist_append = (\<lambda>tr s. True),
     env_perform = (\<lambda>tr c opts. \<lparr>cr_headers = [], cr_chunks = [], cr_code = 0, cr_http = 200\<rparr>),
     env_strerror = (\<lambda>tr. []), env_curl_strerror = (\<lambda>n. []),
     env_sha256 = (\<lambda>bs. replicate 32 0), env_hmac_sha256 = (\<lambda>k bs. replicate 32 0),
     env_crc32 = (\<lambda>bs. 0)\<rparr>"

end
