(* ===== verification/Resources.thy ===== *)
theory Resources
  imports World
begin

text \<open>
  \<open>live\<close> computes the resources a trace has acquired and not released, \<open>safe\<close> says
  that no call of the trace used or released a resource that was not live, that nothing was
  released before what was created from it, and that no undefined behaviour was reached.
  The sources lose two kinds of blocks: the list that libibverbs returns when there is no device, and a header
  list when libcurl cannot append to it. Such a block stays live, and is \<open>stray\<close>: no pointer to it is left.
  \<open>owns tr L\<close> says that the trace is safe and that \<open>L\<close> is what is live besides the strays.
  \<open>moves L m F\<close> is the contract of an operation: started with the resources \<open>L\<close>
  it keeps the trace safe and ends with the resources \<open>F a\<close>, where \<open>a\<close> is its result.
\<close>

subsection \<open>Resources\<close>

datatype rkind = KAddrInfo | KFd | KMem | KMap u64 | KFile | KDevList | KCtx | KPd | KCq | KQp
  | KMr | KCurl | KSlist

datatype resource = Res (kind: rkind) (hid: nat) (parents: "nat list")

fun acquires :: "event \<Rightarrow> resource option" where
  "acquires (Net (GetAddrInfo _ _ (Some (h, _)))) = Some (Res KAddrInfo h [])"
| "acquires (Net (Socket _ _ (Some h))) = Some (Res KFd h [])"
| "acquires (Sys (Malloc _ (Some h))) = Some (Res KMem h [])"
| "acquires (Sys (Realloc None _ (Some h))) = Some (Res KMem h [])"
| "acquires (Sys (Mmap n (Some (h, _)))) = Some (Res (KMap n) h [])"
| "acquires (File (Fopen _ _ (Some h))) = Some (Res KFile h [])"
| "acquires (Verbs (GetDeviceList (Some (h, _)))) = Some (Res KDevList h [])"
| "acquires (Verbs (OpenDevice _ _ (Some h))) = Some (Res KCtx h [])"
| "acquires (Verbs (AllocPd c (Some h))) = Some (Res KPd h [c])"
| "acquires (Verbs (CreateCq c _ (Some h))) = Some (Res KCq h [c])"
| "acquires (Verbs (CreateQp p a (Some (h, _)))) = Some (Res KQp h [p, send_cq a, recv_cq a])"
| "acquires (Verbs (RegMr p b _ _ (Some (h, _)))) = Some (Res KMr h [p, b])"
| "acquires (Curl (CurlInit (Some h))) = Some (Res KCurl h [])"
| "acquires (Curl (SlistAppend None _ (Some h))) = Some (Res KSlist h [])"
| "acquires _ = None"

fun releases :: "event \<Rightarrow> (rkind \<times> nat) option" where
  "releases (Net (FreeAddrInfo h)) = Some (KAddrInfo, h)"
| "releases (Net (Close h)) = Some (KFd, h)"
| "releases (Sys (Free h)) = Some (KMem, h)"
| "releases (Sys (Munmap h n)) = Some (KMap n, h)"
| "releases (File (Fclose h)) = Some (KFile, h)"
| "releases (Verbs (FreeDeviceList h)) = Some (KDevList, h)"
| "releases (Verbs (CloseDevice h)) = Some (KCtx, h)"
| "releases (Verbs (DeallocPd h)) = Some (KPd, h)"
| "releases (Verbs (DestroyCq h)) = Some (KCq, h)"
| "releases (Verbs (DestroyQp h)) = Some (KQp, h)"
| "releases (Verbs (DeregMr h)) = Some (KMr, h)"
| "releases (Curl (SlistFree h)) = Some (KSlist, h)"
| "releases (Curl (CurlCleanup h)) = Some (KCurl, h)"
| "releases _ = None"

text \<open>The handles a call needs to be live, beyond the parents of what it creates.\<close>

fun uses :: "event \<Rightarrow> (rkind \<times> nat) list" where
  "uses (Net (Socket ai _ _)) = [(KAddrInfo, ai)]"
| "uses (Net (Connect fd ai _ _)) = [(KFd, fd), (KAddrInfo, ai)]"
| "uses (Net (Read fd _ _)) = [(KFd, fd)]"
| "uses (Net (Write fd _ _)) = [(KFd, fd)]"
| "uses (Sys (Realloc (Some h) _ _)) = [(KMem, h)]"
| "uses (File (Fstat f _)) = [(KFile, f)]"
| "uses (File (Fseek f _ _)) = [(KFile, f)]"
| "uses (File (Fread f b n _)) = [(KFile, f), (KMap n, b)]"
| "uses (File (Fwrite f b n _ _)) = [(KFile, f), (KMap n, b)]"
| "uses (Sys (Load b n _)) = [(KMap n, b)]"
| "uses (Verbs (OpenDevice l _ _)) = [(KDevList, l)]"
| "uses (Verbs (AllocPd c _)) = [(KCtx, c)]"
| "uses (Verbs (CreateCq c _ _)) = [(KCtx, c)]"
| "uses (Verbs (CreateQp p a _)) = [(KPd, p), (KCq, send_cq a), (KCq, recv_cq a)]"
| "uses (Verbs (ModifyQp q _ _ _)) = [(KQp, q)]"
| "uses (Verbs (QueryPort c _ _)) = [(KCtx, c)]"
| "uses (Verbs (QueryGid c _ _ _)) = [(KCtx, c)]"
| "uses (Verbs (RegMr p b n _ _)) = [(KPd, p), (KMap n, b)]"
| "uses (Curl (SlistAppend (Some h) _ _)) = [(KSlist, h)]"
| "uses (Curl (Perform (Some h) _ _)) = [(KCurl, h)]"
| "uses _ = []"

text \<open>A mapping serves a use of any part of it; every other resource serves its own kind.\<close>

definition covers :: "rkind \<Rightarrow> rkind \<Rightarrow> bool" where
  "covers k k' = (k = k' \<or> (case k of KMap m \<Rightarrow> (case k' of KMap n \<Rightarrow> n \<le> m | _ \<Rightarrow> False) | _ \<Rightarrow> False))"

definition holds :: "rkind \<Rightarrow> nat \<Rightarrow> resource list \<Rightarrow> bool" where
  "holds k h L = (\<exists>r \<in> set L. covers (kind r) k \<and> hid r = h)"

definition holds_exactly :: "rkind \<Rightarrow> nat \<Rightarrow> resource list \<Rightarrow> bool" where
  "holds_exactly k h L = (\<exists>r \<in> set L. kind r = k \<and> hid r = h)"

definition is_undefined :: "event \<Rightarrow> bool" where
  "is_undefined e = (case e of Undefined _ \<Rightarrow> True | _ \<Rightarrow> False)"

fun live :: "trace \<Rightarrow> resource list" where
  "live [] = []"
| "live (e # tr) =
     (case acquires e of
        Some r \<Rightarrow> r # live tr
      | None \<Rightarrow>
          (case releases e of
             Some (k, h) \<Rightarrow> filter (\<lambda>r. hid r \<noteq> h) (live tr)
           | None \<Rightarrow> live tr))"

fun safe :: "trace \<Rightarrow> bool" where
  "safe [] = True"
| "safe (e # tr) =
     (safe tr \<and> \<not> is_undefined e \<and>
      (\<forall>(k, h) \<in> set (uses e). holds k h (live tr)) \<and>
      (case acquires e of
         Some r \<Rightarrow> hid r = length tr \<and> set (parents r) \<subseteq> hid ` set (live tr)
       | None \<Rightarrow>
           (case releases e of
              Some (k, h) \<Rightarrow>
                holds_exactly k h (live tr) \<and> (\<forall>r \<in> set (live tr). h \<notin> set (parents r))
            | None \<Rightarrow> True)))"

subsection \<open>Well-formed resource lists\<close>

fun wf_live :: "resource list \<Rightarrow> bool" where
  "wf_live [] = True"
| "wf_live (r # L) = (wf_live L \<and> hid r \<notin> hid ` set L \<and> set (parents r) \<subseteq> hid ` set L)"

lemma wf_live_filter:
  "wf_live L \<Longrightarrow> \<forall>r \<in> set L. h \<notin> set (parents r) \<Longrightarrow> wf_live (filter (\<lambda>r. hid r \<noteq> h) L)"
proof (induction L)
  case Nil
  then show ?case by simp
next
  case (Cons r L)
  then have "set (parents r) \<subseteq> hid ` set L" "h \<notin> set (parents r)" by auto
  then have "set (parents r) \<subseteq> hid ` set (filter (\<lambda>r. hid r \<noteq> h) L)" by auto
  with Cons show ?case by auto
qed

lemma live_handles: "safe tr \<Longrightarrow> r \<in> set (live tr) \<Longrightarrow> hid r < length tr"
  by (induction tr) (fastforce split: option.splits prod.splits)+

lemma wf_live_live: "safe tr \<Longrightarrow> wf_live (live tr)"
proof (induction tr)
  case Nil
  then show ?case by simp
next
  case (Cons e tr)
  then have IH: "wf_live (live tr)" and lt: "\<And>r. r \<in> set (live tr) \<Longrightarrow> hid r < length tr"
    by (auto dest: live_handles)
  show ?case
    using Cons.prems IH
    by (auto split: option.splits prod.splits intro: wf_live_filter dest: lt)
qed

subsection \<open>Strays and ownership\<close>

fun loses :: "event \<Rightarrow> nat option" where
  "loses (Verbs (GetDeviceList (Some (h, [])))) = Some h"
| "loses (Curl (SlistAppend (Some h) _ None)) = Some h"
| "loses _ = None"

definition stray :: "trace \<Rightarrow> nat \<Rightarrow> bool" where
  "stray tr h \<longleftrightarrow> (\<exists>e \<in> set tr. loses e = Some h)"

lemma stray_simps [simp]: "\<not> stray [] h" "stray (e # tr) h \<longleftrightarrow> loses e = Some h \<or> stray tr h"
  by (auto simp: stray_def)

definition owns :: "trace \<Rightarrow> resource list \<Rightarrow> bool" where
  "owns tr L \<longleftrightarrow> safe tr \<and> wf_live L \<and> filter (\<lambda>r. \<not> stray tr (hid r)) (live tr) = L \<and>
     (\<forall>r \<in> set (live tr). stray tr (hid r) \<longrightarrow> parents r = [])"

lemma owns_Nil [simp]: "owns [] []"
  by (simp add: owns_def)

lemma owns_wf: "owns tr L \<Longrightarrow> wf_live L"
  by (simp add: owns_def)

lemma owns_safe: "owns tr L \<Longrightarrow> safe tr"
  by (simp add: owns_def)

lemma owns_subset: "owns tr L \<Longrightarrow> set L \<subseteq> set (live tr)"
  by (auto simp: owns_def)

lemma owns_live: "owns tr L \<Longrightarrow> r \<in> set (live tr) \<Longrightarrow> r \<in> set L \<or> stray tr (hid r)"
  by (auto simp: owns_def)

lemma owns_fresh: "owns tr L \<Longrightarrow> r \<in> set L \<Longrightarrow> hid r < length tr"
  using owns_safe owns_subset live_handles by blast

lemma stray_handles: "safe tr \<Longrightarrow> stray tr h \<Longrightarrow> h < length tr"
proof (induction tr)
  case Nil
  then show ?case by simp
next
  case (Cons e tr)
  show ?case
  proof (cases "loses e = Some h")
    case True
    then consider "e = Verbs (GetDeviceList (Some (h, [])))" | s where "e = Curl (SlistAppend (Some h) s None)"
      by (cases e rule: loses.cases) auto
    then show ?thesis
    proof cases
      case 1
      with Cons.prems show ?thesis by simp
    next
      case 2
      with Cons.prems have "holds KSlist h (live tr)" "safe tr" by simp_all
      then show ?thesis by (auto simp: holds_def dest: live_handles)
    qed
  next
    case False
    with Cons show ?thesis by auto
  qed
qed

lemma filter_other_handles:
  "h \<notin> hid ` set L \<Longrightarrow> filter (\<lambda>r. hid r \<noteq> h) L = L"
  by (induction L) auto

lemma wf_live_mid:
  "wf_live (A @ r # L) \<Longrightarrow> hid r \<notin> hid ` set A \<and> hid r \<notin> hid ` set L"
  by (induction A) auto

lemma wf_live_parents: "wf_live L \<Longrightarrow> r \<in> set L \<Longrightarrow> set (parents r) \<subseteq> hid ` set L"
  by (induction L) auto

lemma wf_live_suffix: "wf_live (A @ L) \<Longrightarrow> wf_live L"
  by (induction A) auto

subsection \<open>The contract of an operation\<close>

definition moves :: "resource list \<Rightarrow> 'a io \<Rightarrow> ('a \<Rightarrow> resource list) \<Rightarrow> bool" where
  "moves L m F = (\<forall>tr. owns tr L \<longrightarrow> wp m (\<lambda>a tr'. owns tr' (F a)) tr)"

abbreviation keeps :: "resource list \<Rightarrow> 'a io \<Rightarrow> bool" where
  "keeps L m \<equiv> moves L m (\<lambda>_. L)"

named_theorems moves_intros \<open>contracts of the operations\<close>

lemma movesI: "(\<And>tr. owns tr L \<Longrightarrow> wp m (\<lambda>a tr'. owns tr' (F a)) tr) \<Longrightarrow> moves L m F"
  by (simp add: moves_def)

lemma moves_run:
  "moves L m F \<Longrightarrow> owns tr L \<Longrightarrow> run_state m tr = (a, tr') \<Longrightarrow> owns tr' (F a)"
  by (auto simp: moves_def wp_def)

lemma moves_return: "moves (F x) (State_Monad.return x) F"
  by (simp add: moves_def wp_rules)

lemma moves_returnI: "L = F x \<Longrightarrow> moves L (State_Monad.return x) F"
  by (simp add: moves_def wp_rules)

lemma moves_bind:
  assumes "moves L m F" "\<And>a. moves (F a) (f a) G"
  shows "moves L (State_Monad.bind m f) G"
proof (rule movesI)
  fix tr
  assume "owns tr L"
  with assms(1) have "wp m (\<lambda>a tr'. owns tr' (F a)) tr" by (simp add: moves_def)
  then have "wp m (\<lambda>a tr'. wp (f a) (\<lambda>b t. owns t (G b)) tr') tr"
    by (rule wp_mono) (use assms(2) in \<open>simp add: moves_def\<close>)
  then show "wp (State_Monad.bind m f) (\<lambda>a tr'. owns tr' (G a)) tr"
    by (simp add: wp_rules)
qed

text \<open>Well-formedness of the resources in force may be used in the proof of a contract.\<close>

lemma moves_wf: "(wf_live L \<Longrightarrow> moves L m F) \<Longrightarrow> moves L m F"
  by (auto simp: moves_def dest: owns_wf)

lemma moves_bindI:
  assumes "moves L m F" "\<And>a. wf_live (F a) \<Longrightarrow> moves (F a) (f a) G"
  shows "moves L (State_Monad.bind m f) G"
  by (rule moves_bind [OF assms(1)]) (rule moves_wf, rule assms(2))

text \<open>A fact about the result of the first operation that holds from every trace.\<close>

lemma moves_bind_post:
  assumes "moves L m F" "\<And>tr. wp m (\<lambda>a _. P a) tr"
    and "\<And>a. P a \<Longrightarrow> wf_live (F a) \<Longrightarrow> moves (F a) (f a) G"
  shows "moves L (State_Monad.bind m f) G"
proof (rule movesI)
  fix tr
  assume "owns tr L"
  with assms(1) have "wp m (\<lambda>a tr'. owns tr' (F a)) tr" by (simp add: moves_def)
  from wp_conj [OF this assms(2)]
  have "wp m (\<lambda>a tr'. wp (f a) (\<lambda>b t. owns t (G b)) tr') tr"
    by (rule wp_mono) (use assms(3) owns_wf in \<open>auto simp: moves_def\<close>)
  then show "wp (State_Monad.bind m f) (\<lambda>a tr'. owns tr' (G a)) tr"
    by (simp add: wp_rules)
qed

text \<open>A program that starts with nothing and keeps it leaves nothing behind but strays.\<close>

lemma moves_only_strays:
  assumes "keeps [] m"
  shows "wp m (\<lambda>_ t. safe t \<and> (\<forall>r \<in> set (live t). stray t (hid r))) []"
proof -
  have "wp m (\<lambda>_ t. owns t []) []" using assms by (simp add: moves_def)
  then show ?thesis by (rule wp_mono) (auto simp: owns_safe dest: owns_live)
qed

lemma moves_cong: "moves L m F \<Longrightarrow> (\<And>a. F a = G a) \<Longrightarrow> moves L m G"
  by (metis ext)

lemma moves_cong_post:
  assumes "moves L m F" "\<And>tr. wp m (\<lambda>a _. F a = G a) tr"
  shows "moves L m G"
proof (rule movesI)
  fix tr
  assume "owns tr L"
  with assms(1) have "wp m (\<lambda>a tr'. owns tr' (F a)) tr" by (simp add: moves_def)
  from wp_conj [OF this assms(2)] show "wp m (\<lambda>a tr'. owns tr' (G a)) tr"
    by (rule wp_mono) auto
qed

subsection \<open>Contracts of single calls\<close>

lemma holds_live: "owns tr L \<Longrightarrow> holds k h L \<Longrightarrow> holds k h (live tr)"
  unfolding holds_def using owns_subset by blast

lemma uses_live: "owns tr L \<Longrightarrow> \<forall>(k, h) \<in> set us. holds k h L \<Longrightarrow> \<forall>(k, h) \<in> set us. holds k h (live tr)"
  using holds_live by blast

lemma owns_neutral:
  assumes "owns tr L" "acquires e = None" "releases e = None" "\<not> is_undefined e" "loses e = None"
    "\<forall>(k, h) \<in> set (uses e). holds k h L"
  shows "owns (e # tr) L"
  using assms(1-5) uses_live [OF assms(1,6)] by (auto simp: owns_def)

lemma owns_acquire:
  assumes "owns tr L" "acquires e = Some r" "\<not> is_undefined e" "loses e = None" "hid r = length tr"
    "\<forall>(k, h) \<in> set (uses e). holds k h L" "set (parents r) \<subseteq> hid ` set L"
  shows "owns (e # tr) (r # L)"
proof -
  have "\<not> stray tr (length tr)" using stray_handles [OF owns_safe [OF assms(1)]] by blast
  moreover have "hid r \<notin> hid ` set L" using owns_fresh [OF assms(1)] assms(5) by fastforce
  moreover have "set (parents r) \<subseteq> hid ` set (live tr)" using assms(7) owns_subset [OF assms(1)] by blast
  ultimately show ?thesis
    using assms(1-5,7) uses_live [OF assms(1,6)] by (auto simp: owns_def)
qed

lemma owns_release:
  assumes "owns tr L" "acquires e = None" "releases e = Some (k, h)" "\<not> is_undefined e" "loses e = None"
    "uses e = []" "holds_exactly k h L" "\<forall>r \<in> set L. h \<notin> set (parents r)"
  shows "owns (e # tr) (filter (\<lambda>r. hid r \<noteq> h) L)"
proof -
  have "holds_exactly k h (live tr)"
    using assms(7) owns_subset [OF assms(1)] unfolding holds_exactly_def by blast
  moreover have "\<forall>r \<in> set (live tr). h \<notin> set (parents r)"
    using assms(1,8) by (force simp: owns_def)
  moreover have "wf_live (filter (\<lambda>r. hid r \<noteq> h) L)"
    by (rule wf_live_filter [OF owns_wf [OF assms(1)] assms(8)])
  moreover have "filter (\<lambda>r. \<not> stray tr (hid r)) (filter (\<lambda>r. hid r \<noteq> h) (live tr)) = filter (\<lambda>r. hid r \<noteq> h) L"
    using assms(1) by (auto simp: owns_def conj_commute)
  ultimately show ?thesis using assms(1-6) by (auto simp: owns_def)
qed

text \<open>The two calls that make a stray.\<close>

lemma owns_no_device:
  assumes "owns tr L"
  shows "owns (Verbs (GetDeviceList (Some (length tr, []))) # tr) L"
proof -
  have ne: "length tr \<noteq> hid r" if "r \<in> set (live tr)" for r
    using live_handles [OF owns_safe [OF assms] that] by simp
  then have "filter (\<lambda>r. length tr \<noteq> hid r \<and> \<not> stray tr (hid r)) (live tr) = filter (\<lambda>r. \<not> stray tr (hid r)) (live tr)"
    by (intro filter_cong) auto
  with assms ne show ?thesis by (auto simp: owns_def is_undefined_def)
qed

lemma owns_lost_list:
  assumes "owns tr L" "Res KSlist h [] \<in> set L" "\<forall>r \<in> set L. h \<notin> set (parents r)"
  shows "owns (Curl (SlistAppend (Some h) s None) # tr) (filter (\<lambda>r. hid r \<noteq> h) L)"
proof -
  have r: "Res KSlist h [] \<in> set (live tr)" using assms(2) owns_subset [OF assms(1)] by blast
  have unique: "wf_live M \<Longrightarrow> r1 \<in> set M \<Longrightarrow> r2 \<in> set M \<Longrightarrow> hid r1 = hid r2 \<Longrightarrow> r1 = r2" for M r1 r2
    by (induction M) (auto simp: image_iff)
  have "parents r' = []" if "r' \<in> set (live tr)" "hid r' = h" for r'
    using unique [OF wf_live_live [OF owns_safe [OF assms(1)]] that(1) r] that(2) by simp
  moreover have "holds KSlist h (live tr)" using r unfolding holds_def covers_def by force
  moreover have "wf_live (filter (\<lambda>r. hid r \<noteq> h) L)"
    by (rule wf_live_filter [OF owns_wf [OF assms(1)] assms(3)])
  moreover have "filter (\<lambda>r. h \<noteq> hid r \<and> \<not> stray tr (hid r)) (live tr) = filter (\<lambda>r. hid r \<noteq> h) L"
    using assms(1) by (auto simp: owns_def intro: filter_cong)
  ultimately show ?thesis using assms(1) by (auto simp: owns_def is_undefined_def)
qed

lemma wp_ext_call [wp_rules]: "wp (ext_call f) Q tr = Q (fst (f tr)) (snd (f tr) # tr)"
  by (simp add: ext_call_def wp_def split: prod.splits)

text \<open>Releasing a resource that nothing above it in the list depends on.\<close>

lemma moves_release:
  assumes "acquires e = None" "releases e = Some (k, h)" "\<not> is_undefined e" "loses e = None" "uses e = []"
    and "\<forall>r \<in> set A. h \<notin> set (parents r)"
  shows "moves (A @ Res k h ps # L) (emit e) (\<lambda>_. A @ L)"
proof (rule movesI)
  fix tr
  assume o: "owns tr (A @ Res k h ps # L)"
  let ?L = "A @ Res k h ps # L"
  have wf: "wf_live ?L" using o by (rule owns_wf)
  have out: "h \<notin> hid ` set A" "h \<notin> hid ` set L" using wf_live_mid [OF wf] by auto
  have wfL: "wf_live (Res k h ps # L)" using wf by (rule wf_live_suffix)
  then have "\<forall>r \<in> set (Res k h ps # L). h \<notin> set (parents r)"
    using out(2) wf_live_parents [of L] by auto
  with assms(6) have par: "\<forall>r \<in> set ?L. h \<notin> set (parents r)" by auto
  have ex: "holds_exactly k h ?L" by (auto simp: holds_exactly_def)
  have "owns (e # tr) (filter (\<lambda>r. hid r \<noteq> h) ?L)"
    by (rule owns_release [OF o assms(1-5) ex par])
  moreover have "filter (\<lambda>r. hid r \<noteq> h) ?L = A @ L"
    using out by (simp add: filter_other_handles)
  ultimately show "wp (emit e) (\<lambda>a tr'. owns tr' (A @ L)) tr"
    by (simp add: wp_rules)
qed

lemmas moves_release_top = moves_release [where A = "[]", simplified]

lemma moves_neutral:
  assumes "\<And>tr. acquires (snd (f tr)) = None" "\<And>tr. releases (snd (f tr)) = None"
    "\<And>tr. \<not> is_undefined (snd (f tr))" "\<And>tr. loses (snd (f tr)) = None" "\<And>tr. \<forall>(k, h) \<in> set (uses (snd (f tr))). holds k h L"
  shows "keeps L (ext_call f)"
  by (rule movesI) (simp add: wp_rules owns_neutral assms)

lemma is_undefined_simps [simp]:
  "is_undefined (Net n) = False" "is_undefined (Sys s) = False" "is_undefined (File f) = False"
  "is_undefined (Verbs v) = False" "is_undefined (Curl c) = False" "is_undefined (Stderr t) = False"
  "is_undefined (Stdout t) = False" "is_undefined (Undefined t) = True"
  by (simp_all add: is_undefined_def)

lemma holds_Cons [simp]: "holds k h (r # L) \<longleftrightarrow> covers (kind r) k \<and> hid r = h \<or> holds k h L"
  by (auto simp: holds_def)

lemma holds_append [simp]: "holds k h (A @ L) \<longleftrightarrow> holds k h A \<or> holds k h L"
  by (auto simp: holds_def)

lemma covers_refl [simp]: "covers k k"
  by (simp add: covers_def)

lemma holds_hid: "holds k h L \<Longrightarrow> h \<in> hid ` set L"
  by (auto simp: holds_def)


subsection \<open>Releasing a resource anywhere in the list\<close>

fun without :: "nat \<Rightarrow> resource list \<Rightarrow> resource list" where
  "without h [] = []"
| "without h (r # L) = (if hid r = h then without h L else r # without h L)"

definition no_child :: "nat \<Rightarrow> resource list \<Rightarrow> bool" where
  "no_child h L = (\<forall>r \<in> set L. h \<notin> set (parents r))"

lemma without_eq: "without h L = filter (\<lambda>r. hid r \<noteq> h) L"
  by (induction L) auto

lemma without_other [simp]: "h \<notin> hid ` set L \<Longrightarrow> without h L = L"
  by (simp add: without_eq filter_other_handles)

lemma without_append [simp]: "without h (A @ L) = without h A @ without h L"
  by (simp add: without_eq)

lemma no_child_simps [simp]:
  "no_child h []"
  "no_child h (r # L) \<longleftrightarrow> h \<notin> set (parents r) \<and> no_child h L"
  "no_child h (A @ L) \<longleftrightarrow> no_child h A \<and> no_child h L"
  by (auto simp: no_child_def)

lemma no_child_other [simp]: "wf_live L \<Longrightarrow> h \<notin> hid ` set L \<Longrightarrow> no_child h L"
  using wf_live_parents by (fastforce simp: no_child_def)

lemma holds_exactly_simps [simp]:
  "\<not> holds_exactly k h []"
  "holds_exactly k h (r # L) \<longleftrightarrow> kind r = k \<and> hid r = h \<or> holds_exactly k h L"
  "holds_exactly k h (A @ L) \<longleftrightarrow> holds_exactly k h A \<or> holds_exactly k h L"
  by (auto simp: holds_exactly_def)

lemma holds_if_exactly: "holds_exactly k h L \<Longrightarrow> holds k h L"
  unfolding holds_exactly_def holds_def by (metis covers_refl)

lemma moves_release_any:
  assumes "acquires e = None" "releases e = Some (k, h)" "\<not> is_undefined e" "loses e = None" "uses e = []"
    and "holds_exactly k h L" "no_child h L"
  shows "moves L (emit e) (\<lambda>_. without h L)"
  by (rule movesI)
    (use assms in \<open>simp add: wp_rules without_eq owns_release no_child_def\<close>)

subsection \<open>Contracts of the external calls\<close>

abbreviation push :: "('a \<Rightarrow> resource) \<Rightarrow> resource list \<Rightarrow> 'a option \<Rightarrow> resource list" where
  "push r L x \<equiv> (case x of None \<Rightarrow> L | Some y \<Rightarrow> r y # L)"

lemma moves_acquire:
  assumes "\<And>tr. \<not> is_undefined (snd (f tr))" "\<And>tr. loses (snd (f tr)) = None"
    and "\<And>tr. \<forall>(k, h) \<in> set (uses (snd (f tr))). holds k h L"
    and "\<And>tr. fst (f tr) = None \<Longrightarrow> acquires (snd (f tr)) = None \<and> releases (snd (f tr)) = None"
    and "\<And>tr x. fst (f tr) = Some x \<Longrightarrow> acquires (snd (f tr)) = Some (r x) \<and> hid (r x) = length tr \<and>
      set (parents (r x)) \<subseteq> hid ` set L"
  shows "moves L (ext_call f) (push r L)"
proof (rule movesI)
  fix tr
  assume o: "owns tr L"
  show "wp (ext_call f) (\<lambda>a tr'. owns tr' (push r L a)) tr"
  proof (cases "fst (f tr)")
    case None
    with assms o show ?thesis by (simp add: wp_rules owns_neutral)
  next
    case (Some x)
    with assms o show ?thesis by (simp add: wp_rules owns_acquire)
  qed
qed

lemmas call_defs = c_getaddrinfo_def c_socket_def c_connect_def c_read_def c_write_def
  c_srand_def c_rand_byte_def c_time_def c_getpid_def c_malloc_def c_calloc_def c_get_device_list_def
  c_open_device_def c_alloc_pd_def c_create_cq_def c_create_qp_def c_modify_qp_def
  c_query_port_def c_query_gid_def c_reg_mr_def c_realloc_def c_mmap_def c_load_def c_fopen_def
  c_fstat_def c_fseek_def c_fread_def c_fwrite_def c_slist_append_def c_curl_init_def c_perform_def

lemmas release_defs = c_close_def c_freeaddrinfo_def c_free_def c_free_device_list_def
  c_close_device_def c_dealloc_pd_def c_destroy_cq_def c_destroy_qp_def c_dereg_mr_def
  c_munmap_def c_fclose_def

lemma moves_getaddrinfo:
  "moves L (c_getaddrinfo E host port) (push (\<lambda>(h, _). Res KAddrInfo h []) L)"
  unfolding call_defs by (rule moves_acquire) (auto simp: Let_def dest: holds_hid split: if_splits)

lemma moves_socket: "holds KAddrInfo ai L \<Longrightarrow> moves L (c_socket E ai a) (push (\<lambda>h. Res KFd h []) L)"
  unfolding call_defs by (rule moves_acquire) (auto simp: Let_def dest: holds_hid split: if_splits)

lemma moves_malloc: "moves L (c_malloc E n) (push (\<lambda>h. Res KMem h []) L)"
  unfolding call_defs by (rule moves_acquire) (auto simp: Let_def dest: holds_hid split: if_splits)

lemma moves_calloc: "moves L (c_calloc E n m) (push (\<lambda>h. Res KMem h []) L)"
  unfolding call_defs by (rule moves_acquire) (auto simp: Let_def dest: holds_hid split: if_splits)

text \<open>The device list is in hand unless it is empty.\<close>

definition devices_res :: "(nat \<times> string list) option \<Rightarrow> resource list" where
  "devices_res r = (case r of Some (h, _ # _) \<Rightarrow> [Res KDevList h []] | _ \<Rightarrow> [])"

lemma devices_res_simps [simp]:
  "devices_res None = []" "devices_res (Some (h, [])) = []" "devices_res (Some (h, n # ns)) = [Res KDevList h []]"
  by (simp_all add: devices_res_def)

lemma moves_get_device_list: "moves L (c_get_device_list E) (\<lambda>r. devices_res r @ L)"
proof (rule movesI)
  fix tr
  assume o: "owns tr L"
  show "wp (c_get_device_list E) (\<lambda>r tr'. owns tr' (devices_res r @ L)) tr"
  proof (cases "env_device_list E tr")
    case None
    with o show ?thesis by (simp add: c_get_device_list_def Let_def wp_ext_call owns_neutral)
  next
    case (Some names)
    with o show ?thesis
      by (cases names) (simp_all add: c_get_device_list_def Let_def wp_ext_call owns_no_device owns_acquire)
  qed
qed

lemma moves_open_device:
  "holds KDevList l L \<Longrightarrow> moves L (c_open_device E l i) (push (\<lambda>h. Res KCtx h []) L)"
  unfolding call_defs by (rule moves_acquire) (auto simp: Let_def dest: holds_hid split: if_splits)

lemma moves_alloc_pd:
  "holds KCtx c L \<Longrightarrow> moves L (c_alloc_pd E c) (push (\<lambda>h. Res KPd h [c]) L)"
  unfolding call_defs by (rule moves_acquire) (auto simp: Let_def dest: holds_hid split: if_splits)

lemma moves_create_cq:
  "holds KCtx c L \<Longrightarrow> moves L (c_create_cq E c n) (push (\<lambda>h. Res KCq h [c]) L)"
  unfolding call_defs by (rule moves_acquire) (auto simp: Let_def dest: holds_hid split: if_splits)

lemma moves_create_qp:
  "holds KPd p L \<Longrightarrow> holds KCq (send_cq a) L \<Longrightarrow> holds KCq (recv_cq a) L \<Longrightarrow>
   moves L (c_create_qp E p a) (push (\<lambda>(h, _). Res KQp h [p, send_cq a, recv_cq a]) L)"
  unfolding call_defs by (rule moves_acquire) (auto simp: Let_def dest: holds_hid split: if_splits)

lemma moves_reg_mr:
  "holds KPd p L \<Longrightarrow> holds (KMap n) b L \<Longrightarrow>
   moves L (c_reg_mr E p b n acc) (push (\<lambda>(h, _). Res KMr h [p, b]) L)"
  unfolding call_defs by (rule moves_acquire) (auto simp: Let_def dest: holds_hid split: if_splits)

lemma moves_mmap: "moves L (c_mmap E n) (push (\<lambda>(h, _). Res (KMap n) h []) L)"
  unfolding call_defs by (rule moves_acquire) (auto simp: Let_def split: if_splits)

lemma moves_fopen: "moves L (c_fopen E path mode) (push (\<lambda>h. Res KFile h []) L)"
  unfolding call_defs by (rule moves_acquire) (auto simp: Let_def split: if_splits)

lemma moves_curl_init: "moves L (c_curl_init E) (push (\<lambda>h. Res KCurl h []) L)"
  unfolding call_defs by (rule moves_acquire) (auto simp: Let_def split: if_splits)

lemma moves_realloc_NULL: "moves L (c_realloc E None n) (push (\<lambda>h. Res KMem h []) L)"
  unfolding call_defs by (rule moves_acquire) (auto simp: Let_def split: if_splits)

lemma keeps_realloc: "holds KMem h L \<Longrightarrow> keeps L (c_realloc E (Some h) n)"
  by (simp add: call_defs moves_neutral Let_def)

text \<open>A header list that cannot be extended is lost, and NULL takes its place.\<close>

definition slist_res :: "slist \<Rightarrow> resource list" where
  "slist_res h = (case h of None \<Rightarrow> [] | Some (x, _) \<Rightarrow> [Res KSlist x []])"

lemma slist_res_simps [simp]: "slist_res None = []" "slist_res (Some (x, ss)) = [Res KSlist x []]"
  by (simp_all add: slist_res_def)

lemma moves_slist_extend:
  assumes "\<forall>r \<in> set A. parents r = []"
  shows "moves (A @ slist_res (Some x) @ L) (c_slist_append E (Some x) s) (\<lambda>r. A @ slist_res r @ L)"
proof (rule movesI)
  fix tr
  obtain h ss where x: "x = (h, ss)" by (cases x) auto
  let ?L = "A @ Res KSlist h [] # L"
  assume "owns tr (A @ slist_res (Some x) @ L)"
  then have o: "owns tr ?L" by (simp add: x)
  have wf: "wf_live ?L" using o by (rule owns_wf)
  have out: "h \<notin> hid ` set A" "h \<notin> hid ` set L" using wf_live_mid [OF wf] by auto
  have "h \<notin> set (parents r)" if "r \<in> set L" for r
    using wf_live_parents [OF _ that] wf_live_suffix [OF wf] out(2) by auto
  with assms have par: "\<forall>r \<in> set ?L. h \<notin> set (parents r)" by auto
  have "filter (\<lambda>r. hid r \<noteq> h) ?L = A @ L" using out by (simp add: filter_other_handles)
  with owns_lost_list [OF o _ par, of s] have lost: "owns (Curl (SlistAppend (Some h) s None) # tr) (A @ L)" by simp
  have kept: "owns (Curl (SlistAppend (Some h) s (Some h)) # tr) ?L" using o by (intro owns_neutral) simp_all
  show "wp (c_slist_append E (Some x) s) (\<lambda>r tr'. owns tr' (A @ slist_res r @ L)) tr"
    using lost kept by (simp add: x c_slist_append_def Let_def wp_ext_call)
qed

lemma moves_slist_append: "moves (slist_res l @ L) (c_slist_append E l s) (\<lambda>r. slist_res r @ L)"
proof (cases l)
  case None
  have "moves L (c_slist_append E None s) (push (\<lambda>(h, _). Res KSlist h []) L)"
    unfolding call_defs by (rule moves_acquire) (auto simp: Let_def split: if_splits)
  then show ?thesis
    unfolding None slist_res_simps append_Nil by (rule moves_cong) (auto simp: slist_res_def split: option.splits)
next
  case (Some x)
  then show ?thesis using moves_slist_extend [of "[]" x L E s] by simp
qed

lemma keeps_load: "holds (KMap n) b L \<Longrightarrow> keeps L (c_load E b n)"
  by (simp add: call_defs moves_neutral Let_def)

lemma keeps_fstat: "holds KFile f L \<Longrightarrow> keeps L (c_fstat E f)"
  by (simp add: call_defs moves_neutral Let_def)

lemma keeps_fseek: "holds KFile f L \<Longrightarrow> keeps L (c_fseek E f off)"
  by (simp add: call_defs moves_neutral Let_def)

lemma keeps_fread: "holds KFile f L \<Longrightarrow> holds (KMap n) b L \<Longrightarrow> keeps L (c_fread E f b n)"
  by (simp add: call_defs moves_neutral Let_def)

lemma keeps_fwrite: "holds KFile f L \<Longrightarrow> holds (KMap n) b L \<Longrightarrow> keeps L (c_fwrite E f b n)"
  by (simp add: call_defs moves_neutral Let_def)

lemma keeps_perform: "(\<And>h. c = Some h \<Longrightarrow> holds KCurl h L) \<Longrightarrow> keeps L (c_perform E c opts)"
  by (cases c) (simp_all add: call_defs moves_neutral Let_def)

lemma keeps_strerror: "keeps L (c_strerror E)"
  by (simp add: moves_def wp_def c_strerror_def)

lemma keeps_ferror: "keeps L (c_ferror E f)"
  by (simp add: moves_def wp_def c_ferror_def)

lemma keeps_connect: "holds KFd fd L \<Longrightarrow> holds KAddrInfo ai L \<Longrightarrow> keeps L (c_connect E fd ai a)"
  by (simp add: call_defs moves_neutral Let_def)

lemma keeps_read: "holds KFd fd L \<Longrightarrow> keeps L (c_read E fd n)"
  by (simp add: call_defs moves_neutral Let_def)

lemma keeps_write: "holds KFd fd L \<Longrightarrow> keeps L (c_write E fd bs)"
  by (simp add: call_defs moves_neutral Let_def)

lemma keeps_srand: "keeps L (c_srand seed)"
  by (simp add: call_defs moves_neutral Let_def)

lemma keeps_rand: "keeps L (c_rand_byte E)"
  by (simp add: call_defs moves_neutral Let_def)

lemma keeps_time: "keeps L (c_time E)"
  by (simp add: call_defs moves_neutral Let_def)

lemma keeps_getpid: "keeps L (c_getpid E)"
  by (simp add: call_defs moves_neutral Let_def)

lemma keeps_modify_qp: "holds KQp q L \<Longrightarrow> keeps L (c_modify_qp E q a m)"
  by (simp add: call_defs moves_neutral Let_def)

lemma keeps_query_port: "holds KCtx c L \<Longrightarrow> keeps L (c_query_port E c p)"
  by (simp add: call_defs moves_neutral Let_def)

lemma keeps_query_gid: "holds KCtx c L \<Longrightarrow> keeps L (c_query_gid E c p i)"
  by (simp add: call_defs moves_neutral Let_def)

lemma keeps_stderr: "keeps L (emit (Stderr s))"
  by (simp add: moves_neutral)

lemma keeps_stdout: "keeps L (emit (Stdout s))"
  by (simp add: moves_neutral)

lemma moves_close: "holds_exactly KFd h L \<Longrightarrow> no_child h L \<Longrightarrow> moves L (c_close h) (\<lambda>_. without h L)"
  by (simp add: release_defs moves_release_any)

lemma moves_freeaddrinfo:
  "holds_exactly KAddrInfo h L \<Longrightarrow> no_child h L \<Longrightarrow> moves L (c_freeaddrinfo h) (\<lambda>_. without h L)"
  by (simp add: release_defs moves_release_any)

lemma moves_free: "holds_exactly KMem h L \<Longrightarrow> no_child h L \<Longrightarrow> moves L (c_free h) (\<lambda>_. without h L)"
  by (simp add: release_defs moves_release_any)

lemma moves_free_device_list:
  "holds_exactly KDevList h L \<Longrightarrow> no_child h L \<Longrightarrow> moves L (c_free_device_list h) (\<lambda>_. without h L)"
  by (simp add: release_defs moves_release_any)

lemma moves_close_device:
  "holds_exactly KCtx h L \<Longrightarrow> no_child h L \<Longrightarrow> moves L (c_close_device h) (\<lambda>_. without h L)"
  by (simp add: release_defs moves_release_any)

lemma moves_dealloc_pd:
  "holds_exactly KPd h L \<Longrightarrow> no_child h L \<Longrightarrow> moves L (c_dealloc_pd h) (\<lambda>_. without h L)"
  by (simp add: release_defs moves_release_any)

lemma moves_destroy_cq:
  "holds_exactly KCq h L \<Longrightarrow> no_child h L \<Longrightarrow> moves L (c_destroy_cq h) (\<lambda>_. without h L)"
  by (simp add: release_defs moves_release_any)

lemma moves_destroy_qp:
  "holds_exactly KQp h L \<Longrightarrow> no_child h L \<Longrightarrow> moves L (c_destroy_qp h) (\<lambda>_. without h L)"
  by (simp add: release_defs moves_release_any)

lemma moves_dereg_mr:
  "holds_exactly KMr h L \<Longrightarrow> no_child h L \<Longrightarrow> moves L (c_dereg_mr h) (\<lambda>_. without h L)"
  by (simp add: release_defs moves_release_any)

lemma moves_munmap:
  "holds_exactly (KMap n) h L \<Longrightarrow> no_child h L \<Longrightarrow> moves L (c_munmap h n) (\<lambda>_. without h L)"
  by (simp add: release_defs moves_release_any)

lemma moves_fclose:
  "holds_exactly KFile h L \<Longrightarrow> no_child h L \<Longrightarrow> moves L (c_fclose h) (\<lambda>_. without h L)"
  by (simp add: release_defs moves_release_any)

lemma moves_slist_free_all:
  "holds_exactly KSlist (fst l) L \<Longrightarrow> no_child (fst l) L \<Longrightarrow>
   moves L (c_slist_free_all (Some l)) (\<lambda>_. without (fst l) L)"
  by (cases l) (simp add: c_slist_free_all_def moves_release_any)

lemma moves_curl_cleanup:
  "holds_exactly KCurl h L \<Longrightarrow> no_child h L \<Longrightarrow> moves L (c_curl_cleanup (Some h)) (\<lambda>_. without h L)"
  by (simp add: c_curl_cleanup_def moves_release_any)

lemma keeps_NULL: "keeps L (c_slist_free_all None)" "keeps L (c_curl_cleanup None)"
  by (simp_all add: c_slist_free_all_def c_curl_cleanup_def moves_returnI)

lemmas call_contracts = moves_getaddrinfo moves_socket moves_malloc moves_calloc moves_get_device_list
  moves_open_device moves_alloc_pd moves_create_cq moves_create_qp moves_reg_mr keeps_connect
  keeps_read keeps_write keeps_srand keeps_rand keeps_time keeps_getpid keeps_modify_qp
  keeps_query_port keeps_query_gid keeps_stderr keeps_stdout moves_close moves_freeaddrinfo
  moves_free moves_free_device_list moves_close_device moves_dealloc_pd moves_destroy_cq
  moves_destroy_qp moves_dereg_mr moves_mmap moves_fopen moves_curl_init moves_realloc_NULL
  keeps_realloc keeps_load keeps_fstat keeps_fseek keeps_fread
  keeps_fwrite keeps_perform keeps_strerror keeps_ferror moves_munmap moves_fclose
  moves_slist_free_all moves_curl_cleanup keeps_NULL

lemmas [moves_intros] = moves_returnI call_contracts [THEN moves_bindI] call_contracts

subsection \<open>What an operation adds to the trace\<close>

text \<open>\<open>emits P m\<close>: the calls that \<open>m\<close> makes all satisfy \<open>P\<close>.\<close>

definition emits :: "(event \<Rightarrow> bool) \<Rightarrow> 'a io \<Rightarrow> bool" where
  "emits P m = (\<forall>tr. wp m (\<lambda>_ tr'. \<exists>evs. tr' = evs @ tr \<and> list_all P evs) tr)"

named_theorems emits_intros \<open>the calls that the operations make\<close>

lemma emits_return: "emits P (State_Monad.return x)"
  by (simp add: emits_def wp_rules)

lemma emits_bind:
  assumes "emits P m" "\<And>a. emits P (f a)"
  shows "emits P (State_Monad.bind m f)"
  unfolding emits_def
proof
  fix tr
  have "wp m (\<lambda>_ tr'. \<exists>evs. tr' = evs @ tr \<and> list_all P evs) tr"
    using assms(1) by (simp add: emits_def)
  then have "wp m (\<lambda>a. wp (f a) (\<lambda>_ tr'. \<exists>evs. tr' = evs @ tr \<and> list_all P evs)) tr"
  proof (rule wp_mono)
    fix a t
    assume "\<exists>evs. t = evs @ tr \<and> list_all P evs"
    then obtain evs where t: "t = evs @ tr" "list_all P evs" by blast
    have "wp (f a) (\<lambda>_ tr'. \<exists>es. tr' = es @ t \<and> list_all P es) t"
      using assms(2) by (simp add: emits_def)
    then show "wp (f a) (\<lambda>_ tr'. \<exists>evs. tr' = evs @ tr \<and> list_all P evs) t"
      by (rule wp_mono) (use t in \<open>metis append_assoc list_all_append\<close>)
  qed
  then show "wp (State_Monad.bind m f) (\<lambda>_ tr'. \<exists>evs. tr' = evs @ tr \<and> list_all P evs) tr"
    by (simp add: wp_rules)
qed

lemma emits_ext_call: "(\<And>tr. P (snd (f tr))) \<Longrightarrow> emits P (ext_call f)"
  by (simp add: emits_def wp_rules)

lemma emits_run:
  "emits P m \<Longrightarrow> run_state m tr = (a, tr') \<Longrightarrow> \<exists>evs. tr' = evs @ tr \<and> list_all P evs"
  unfolding emits_def by (drule spec [of _ tr], drule wp_run, assumption, assumption)

lemma emits_mono: "emits P m \<Longrightarrow> (\<And>e. P e \<Longrightarrow> Q e) \<Longrightarrow> emits Q m"
  unfolding emits_def
  by (intro allI, drule spec, erule wp_mono) (auto intro: list.pred_mono_strong)

lemma emits_State:
  assumes "\<And>tr. \<exists>evs. snd (f tr) = evs @ tr \<and> list_all P evs"
  shows "emits P (State f)"
  using assms by (simp add: emits_def wp_def case_prod_beta)

text \<open>The calls on the network, the memory and the random number generator.\<close>

fun is_local :: "event \<Rightarrow> bool" where
  "is_local (Net _) = True"
| "is_local (Sys _) = True"
| "is_local (Undefined _) = True"
| "is_local _ = False"

fun is_verbs :: "event \<Rightarrow> bool" where
  "is_verbs (Verbs _) = True"
| "is_verbs _ = False"

lemma local_not_verbs: "is_local e \<Longrightarrow> \<not> is_verbs e"
  by (cases e) simp_all

text \<open>A view of the trace that the calls of an operation do not change.\<close>

lemma wp_unseen:
  assumes "emits (\<lambda>e. \<not> P e) m" "\<And>a t. filter P t = filter P tr \<Longrightarrow> Q a t"
  shows "wp m Q tr"
proof (rule wp_runI)
  fix a t
  assume "run_state m tr = (a, t)"
  with emits_run [OF assms(1)] obtain evs where "t = evs @ tr" "list_all (\<lambda>e. \<not> P e) evs"
    by blast
  then have "filter P t = filter P tr" by (simp add: list_all_iff filter_empty_conv)
  then show "Q a t" by (rule assms(2))
qed

lemmas [emits_intros] = emits_return emits_bind emits_ext_call

end
