(* ===== verification/SigV4.thy ===== *)
theory SigV4
  imports Resources
begin

text \<open>
  What both signing clients use: the calendar functions of the C library, the digests, and the
  specification of an AWS Signature Version 4 authorization, against which the signers of
  \<^verbatim>\<open>s3client.c\<close> and of \<^verbatim>\<open>s3rdmamultipart.c\<close> are proved. The signer locale states
  what the code that builds a request relies on.
\<close>

subsection \<open>Calendar\<close>

record tm =
  tm_year :: int
  tm_mon :: nat
  tm_mday :: nat
  tm_hour :: nat
  tm_min :: nat
  tm_sec :: nat

definition is_leap :: "nat \<Rightarrow> bool" where
  "is_leap y \<longleftrightarrow> y mod 4 = 0 \<and> (y mod 100 \<noteq> 0 \<or> y mod 400 = 0)"

definition year_days :: "nat \<Rightarrow> nat" where
  "year_days y = (if is_leap y then 366 else 365)"

definition month_days :: "nat \<Rightarrow> nat list" where
  "month_days y = [31, if is_leap y then 29 else 28, 31, 30, 31, 30, 31, 31, 30, 31, 30, 31]"

function year_loop :: "nat \<Rightarrow> nat \<Rightarrow> nat \<times> nat" where
  "year_loop y d = (if d < year_days y then (y, d) else year_loop (Suc y) (d - year_days y))"
  by pat_completeness auto
termination
  by (relation "measure snd") (auto simp: year_days_def)

declare year_loop.simps [simp del]

fun month_loop :: "nat list \<Rightarrow> nat \<Rightarrow> nat \<Rightarrow> nat \<times> nat" where
  "month_loop [] m d = (m, d)"
| "month_loop (n # ns) m d = (if d < n then (m, d) else month_loop ns (Suc m) (d - n))"

text \<open>
  \<^verbatim>\<open>gmtime_r\<close>: the calendar repeats every 400 years, of 146097 days; within a cycle the
  years since 1970 and the months of the year are counted off.
\<close>

definition gmtime :: "int \<Rightarrow> tm" where
  "gmtime t =
     (let days = t div 86400; secs = nat (t mod 86400);
          (y, d) = year_loop 1970 (nat (days mod 146097));
          (m, k) = month_loop (month_days y) 1 d
      in \<lparr>tm_year = int y + 400 * (days div 146097), tm_mon = m, tm_mday = Suc k,
          tm_hour = secs div 3600, tm_min = secs mod 3600 div 60, tm_sec = secs mod 60\<rparr>)"

definition pad2 :: "nat \<Rightarrow> string" where
  "pad2 n = [digit_char (n div 10 mod 10), digit_char (n mod 10)]"

text \<open>\<^verbatim>\<open>"%Y%m%d"\<close> and \<^verbatim>\<open>"%Y%m%dT%H%M%SZ"\<close>\<close>

definition date_stamp :: "tm \<Rightarrow> string" where
  "date_stamp tmv = show_int (tm_year tmv) @ pad2 (tm_mon tmv) @ pad2 (tm_mday tmv)"

definition amz_date :: "tm \<Rightarrow> string" where
  "amz_date tmv = show_int (tm_year tmv) @ pad2 (tm_mon tmv) @ pad2 (tm_mday tmv) @ ''T'' @
     pad2 (tm_hour tmv) @ pad2 (tm_min tmv) @ pad2 (tm_sec tmv) @ ''Z''"

text \<open>\<^verbatim>\<open>strftime\<close> leaves the buffer unspecified when the text does not fit.\<close>

definition c_strftime :: "nat \<Rightarrow> string \<Rightarrow> string io" where
  "c_strftime sz s =
     (if length s < sz then ret s else do { emit (Undefined ''strftime buffer''); ret [] })"

subsection \<open>Digests\<close>

text \<open>The digests of OpenSSL are 32 bytes.\<close>

definition sha256 :: "env \<Rightarrow> byte list \<Rightarrow> byte list" where
  "sha256 E bs = take 32 (env_sha256 E bs @ replicate 32 0)"

definition hmac :: "env \<Rightarrow> byte list \<Rightarrow> byte list \<Rightarrow> byte list" where
  "hmac E key bs = take 32 (env_hmac_sha256 E key bs @ replicate 32 0)"

definition hex :: "byte list \<Rightarrow> string" where
  "hex bs = concat (map hex2 bs)"

lemma length_sha256 [simp]: "length (sha256 E bs) = 32"
  by (simp add: sha256_def)

lemma length_hmac [simp]: "length (hmac E k bs) = 32"
  by (simp add: hmac_def)

lemma length_hex [simp]: "length (hex bs) = 2 * length bs"
  by (induction bs) (simp_all add: hex_def)

subsection \<open>Configuration\<close>

record s3_config =
  endpoint :: string
  region :: string
  access_key :: string
  secret_key :: string

subsection \<open>The specification\<close>

definition host_of :: "string \<Rightarrow> string" where
  "host_of ep = takeWhile (\<lambda>c. c \<noteq> CHR ''/'') (case strstr ep ''://'' of Some p \<Rightarrow> drop 3 p | None \<Rightarrow> ep)"

definition object_path :: "string \<Rightarrow> string option \<Rightarrow> string" where
  "object_path bucket key =
     ''/'' @ bucket @ (case key of None \<Rightarrow> [] | Some k \<Rightarrow> if k = [] then [] else ''/'' @ k)"

fun semicolons :: "string list \<Rightarrow> string" where
  "semicolons [] = []"
| "semicolons [k] = k"
| "semicolons (k # ks) = k @ '';'' @ semicolons ks"

definition sigv4_canonical_request ::
  "string \<Rightarrow> string \<Rightarrow> string \<Rightarrow> (string \<times> string) list \<Rightarrow> string \<Rightarrow> string" where
  "sigv4_canonical_request mth uri query hdrs payload =
     mth @ nl @ uri @ nl @ query @ nl @ concat (map (\<lambda>(k, v). k @ '':'' @ v @ nl) hdrs) @ nl @
     semicolons (map fst hdrs) @ nl @ payload"

definition sigv4_scope :: "string \<Rightarrow> string \<Rightarrow> string" where
  "sigv4_scope date reg = date @ ''/'' @ reg @ ''/s3/aws4_request''"

definition sigv4_string_to_sign :: "env \<Rightarrow> string \<Rightarrow> string \<Rightarrow> string \<Rightarrow> string" where
  "sigv4_string_to_sign E amz scope creq =
     ''AWS4-HMAC-SHA256'' @ nl @ amz @ nl @ scope @ nl @ hex (sha256 E (bytes_of creq))"

definition sigv4_key :: "env \<Rightarrow> string \<Rightarrow> string \<Rightarrow> string \<Rightarrow> byte list" where
  "sigv4_key E secret date reg =
     hmac E (hmac E (hmac E (hmac E (bytes_of (''AWS4'' @ secret)) (bytes_of date)) (bytes_of reg))
       (bytes_of ''s3'')) (bytes_of ''aws4_request'')"

definition sigv4_authorization ::
  "env \<Rightarrow> s3_config \<Rightarrow> tm \<Rightarrow> string \<Rightarrow> string \<Rightarrow> string \<Rightarrow> (string \<times> string) list \<Rightarrow> string" where
  "sigv4_authorization E cfg tmv mth uri query hdrs =
     (let scope = sigv4_scope (date_stamp tmv) (region cfg);
          creq = sigv4_canonical_request mth uri query hdrs ''UNSIGNED-PAYLOAD'';
          sts = sigv4_string_to_sign E (amz_date tmv) scope creq;
          sig = hmac E (sigv4_key E (secret_key cfg) (date_stamp tmv) (region cfg)) (bytes_of sts)
      in ''AWS4-HMAC-SHA256 Credential='' @ access_key cfg @ ''/'' @ scope @
         '', SignedHeaders='' @ semicolons (map fst hdrs) @ '', Signature='' @ hex sig)"

text \<open>
  The rest of the specification: the canonical URI and the canonical query that the signature is computed of. Every
  byte but the unreserved characters is percent-encoded, with upper-case digits; the slashes of the path are kept,
  and the parameters of the query are encoded and sorted by name.
\<close>

definition unreserved :: "char \<Rightarrow> bool" where
  "unreserved c \<longleftrightarrow> (let n = (of_char c :: nat) in 48 \<le> n \<and> n \<le> 57 \<or> 65 \<le> n \<and> n \<le> 90 \<or> 97 \<le> n \<and> n \<le> 122) \<or>
     c \<in> {CHR ''-'', CHR ''.'', CHR ''_'', CHR ''~''}"

definition upper_hex :: "nat \<Rightarrow> char" where
  "upper_hex n = char_of (if n < 10 then 48 + n else 55 + n)"

definition percent :: "char \<Rightarrow> string" where
  "percent c = [CHR ''%'', upper_hex (of_char c div 16), upper_hex (of_char c mod 16)]"

definition plain_char :: "bool \<Rightarrow> char \<Rightarrow> bool" where
  "plain_char slash c \<longleftrightarrow> unreserved c \<or> slash \<and> c = CHR ''/''"

definition uri_encode :: "bool \<Rightarrow> string \<Rightarrow> string" where
  "uri_encode slash s = concat (map (\<lambda>c. if plain_char slash c then [c] else percent c) s)"

fun name_le :: "string \<Rightarrow> string \<Rightarrow> bool" where
  "name_le [] bs = True"
| "name_le (a # as) [] = False"
| "name_le (a # as) (b # bs) = ((of_char a :: nat) < of_char b \<or> a = b \<and> name_le as bs)"

fun insert_param :: "string \<times> string \<Rightarrow> (string \<times> string) list \<Rightarrow> (string \<times> string) list" where
  "insert_param x [] = [x]"
| "insert_param x (y # ys) = (if name_le (fst x) (fst y) then x # y # ys else y # insert_param x ys)"

fun ampersands :: "string list \<Rightarrow> string" where
  "ampersands [] = []"
| "ampersands [k] = k"
| "ampersands (k # ks) = k @ ''&'' @ ampersands ks"

definition query_string :: "(string \<times> string) list \<Rightarrow> string" where
  "query_string ps = ampersands (map (\<lambda>(k, v). k @ ''='' @ v) ps)"

definition aws_query :: "(string \<times> string) list \<Rightarrow> string" where
  "aws_query ps =
     query_string (foldr insert_param (map (map_prod (uri_encode False) (uri_encode False)) ps) [])"

text \<open>The authorization that AWS Signature Version 4 specifies for a request with this path and these parameters.\<close>

definition aws_authorization ::
  "env \<Rightarrow> s3_config \<Rightarrow> tm \<Rightarrow> string \<Rightarrow> string \<Rightarrow> (string \<times> string) list \<Rightarrow> (string \<times> string) list \<Rightarrow> string" where
  "aws_authorization E cfg tmv mth path params hdrs =
     sigv4_authorization E cfg tmv mth (uri_encode True path) (aws_query params) hdrs"

subsection \<open>Encoding: lemmas\<close>

text \<open>
  The signers pass the path and the query as they are. That is the specified text exactly for paths that need no
  encoding, and for parameters that need none and are in order.
\<close>

abbreviation plain :: "bool \<Rightarrow> string \<Rightarrow> bool" where
  "plain slash s \<equiv> list_all (plain_char slash) s"

lemma length_uri_encode: "length s \<le> length (uri_encode slash s)"
  by (induction s) (auto simp: uri_encode_def percent_def)

lemma uri_encode_same_iff: "uri_encode slash s = s \<longleftrightarrow> plain slash s"
proof
  show "uri_encode slash s = s" if "plain slash s" using that by (induction s) (simp_all add: uri_encode_def)
  have "length s < length (uri_encode slash s)" if "\<not> plain slash s" using that
  proof (induction s)
    case (Cons c s)
    then show ?case
      using length_uri_encode [of s slash] by (cases "plain_char slash c") (auto simp: uri_encode_def percent_def)
  qed simp
  then show "plain slash s" if "uri_encode slash s = s" using that by fastforce
qed

definition plain_params :: "(string \<times> string) list \<Rightarrow> bool" where
  "plain_params ps \<longleftrightarrow> list_all (\<lambda>(k, v). plain False k \<and> plain False v) ps \<and>
     sorted_wrt (\<lambda>a b. name_le (fst a) (fst b)) ps"

lemma sorted_params: "sorted_wrt (\<lambda>a b. name_le (fst a) (fst b)) ps \<Longrightarrow> foldr insert_param ps [] = ps"
proof (induction ps)
  case (Cons p ps)
  then show ?case by (cases ps) auto
qed simp

lemma aws_query_plain: "plain_params ps \<Longrightarrow> aws_query ps = query_string ps"
proof -
  assume p: "plain_params ps"
  then have "map (map_prod (uri_encode False) (uri_encode False)) ps = ps"
    by (intro map_idI) (auto simp: plain_params_def list_all_iff uri_encode_same_iff)
  with p show ?thesis by (simp add: aws_query_def sorted_params plain_params_def)
qed

lemma aws_authorization_plain:
  "plain True path \<Longrightarrow> plain_params ps \<Longrightarrow>
   aws_authorization E cfg tmv mth path ps hdrs = sigv4_authorization E cfg tmv mth path (query_string ps) hdrs"
  by (simp add: aws_authorization_def uri_encode_same_iff [THEN iffD2] aws_query_plain)

lemma plain_show_int: "0 \<le> k \<Longrightarrow> plain False (show_int k)"
  by (auto simp: show_int_def list_all_iff plain_char_def unreserved_def Let_def is_digit_def dest!: show_nat_digits)

subsection \<open>Calendar: lemmas\<close>

fun days_from :: "nat \<Rightarrow> nat \<Rightarrow> nat" where
  "days_from y 0 = 0"
| "days_from y (Suc n) = year_days y + days_from (Suc y) n"

lemma year_loop_sound:
  "year_loop y d = (y', d') \<Longrightarrow> \<exists>n. y' = y + n \<and> days_from y n + d' = d \<and> d' < year_days y'"
proof (induction y d rule: year_loop.induct)
  case (1 y d)
  show ?case
  proof (cases "d < year_days y")
    case True
    with "1.prems" show ?thesis by (intro exI [of _ 0]) (simp add: year_loop.simps [of y d])
  next
    case False
    with 1 obtain n where "y' = Suc y + n" "days_from (Suc y) n + d' = d - year_days y"
      "d' < year_days y'"
      by (auto simp: year_loop.simps [of y d])
    with False show ?thesis by (intro exI [of _ "Suc n"]) auto
  qed
qed

lemma days_from_ge: "365 * n \<le> days_from y n"
proof (induction n arbitrary: y)
  case 0
  then show ?case by simp
next
  case (Suc n)
  have "365 * n \<le> days_from (Suc y) n" by (rule Suc.IH)
  then show ?case by (simp add: year_days_def)
qed

text \<open>The day of the year is found in a month of the year.\<close>

lemma month_loop_sound:
  "d < sum_list ns \<Longrightarrow> month_loop ns m d = (m', k) \<Longrightarrow>
   \<exists>i < length ns. m' = m + i \<and> sum_list (take i ns) + k = d \<and> k < ns ! i"
proof (induction ns m d rule: month_loop.induct)
  case (1 m d)
  then show ?case by simp
next
  case (2 n ns m d)
  show ?case
  proof (cases "d < n")
    case True
    with 2 show ?thesis by (intro exI [of _ 0]) auto
  next
    case False
    with "2.prems" have "d - n < sum_list ns" "month_loop ns (Suc m) (d - n) = (m', k)" by auto
    with "2.IH" [OF False] obtain i where "i < length ns" "m' = Suc m + i"
      "sum_list (take i ns) + k = d - n" "k < ns ! i" by blast
    with False show ?thesis by (intro exI [of _ "Suc i"]) auto
  qed
qed

lemma sum_month_days: "sum_list (month_days y) = year_days y"
  by (simp add: month_days_def year_days_def)

lemma month_days_le: "i < 12 \<Longrightarrow> month_days y ! i \<le> 31"
  by (auto simp: month_days_def nth_Cons numeral_eq_Suc less_Suc_eq split: nat.split)

lemma hms_sum: "3600 * (s div 3600) + 60 * (s mod 3600 div 60) + s mod 60 = (s :: nat)"
proof -
  have "s mod 60 = s mod 3600 mod 60" by (simp add: mod_mod_cancel)
  moreover have "60 * (s mod 3600 div 60) + s mod 3600 mod 60 = s mod 3600" by simp
  moreover have "3600 * (s div 3600) + s mod 3600 = s" by simp
  ultimately show ?thesis by linarith
qed

text \<open>
  The broken-down time is the time: the years of the cycle, the months of the year, the day of
  the month and the time of day add up to it.
\<close>

lemma gmtime_fields:
  obtains n where "tm_year (gmtime t) = 1970 + int n + 400 * (t div 86400 div 146097)" "n \<le> 400"
    "tm_mon (gmtime t) \<in> {1..12}" "tm_mday (gmtime t) \<in> {1..31}"
    "tm_hour (gmtime t) < 24" "tm_min (gmtime t) < 60" "tm_sec (gmtime t) < 60"
    "t = 86400 * (146097 * (t div 86400 div 146097) + int (days_from 1970 n) +
       int (sum_list (take (tm_mon (gmtime t) - 1) (month_days (1970 + n)))) +
       int (tm_mday (gmtime t)) - 1) +
       3600 * int (tm_hour (gmtime t)) + 60 * int (tm_min (gmtime t)) + int (tm_sec (gmtime t))"
proof -
  let ?days = "t div 86400" and ?secs = "nat (t mod 86400)"
  obtain y d where yd: "year_loop 1970 (nat (?days mod 146097)) = (y, d)" by fastforce
  obtain m k where mk: "month_loop (month_days y) 1 d = (m, k)" by fastforce
  obtain n where n: "y = 1970 + n" "days_from 1970 n + d = nat (?days mod 146097)" "d < year_days y"
    using year_loop_sound [OF yd] by blast
  obtain i where i: "i < length (month_days y)" "m = 1 + i" "sum_list (take i (month_days y)) + k = d"
    "k < month_days y ! i"
    using month_loop_sound [OF _ mk] n(3) by (auto simp: sum_month_days)
  have len: "length (month_days y) = 12" by (simp add: month_days_def)
  have tm: "gmtime t = \<lparr>tm_year = int y + 400 * (?days div 146097), tm_mon = m, tm_mday = Suc k,
    tm_hour = ?secs div 3600, tm_min = ?secs mod 3600 div 60, tm_sec = ?secs mod 60\<rparr>"
    using mk by (simp add: gmtime_def yd Let_def)
  have secs: "?secs < 86400" by simp
  have le: "nat (?days mod 146097) < 146097" by simp
  have nle: "n \<le> 400" using days_from_ge [of n 1970] n(2) le by linarith
  have eq1: "3600 * int (?secs div 3600) + 60 * int (?secs mod 3600 div 60) + int (?secs mod 60) = t mod 86400"
  proof -
    have "3600 * (?secs div 3600) + 60 * (?secs mod 3600 div 60) + ?secs mod 60 = ?secs"
      by (rule hms_sum)
    then have "3600 * int (?secs div 3600) + 60 * int (?secs mod 3600 div 60) + int (?secs mod 60) = int ?secs"
      by linarith
    then show ?thesis by simp
  qed
  have "int (days_from 1970 n + d) = ?days mod 146097" using n(2) by simp
  then have eq2: "146097 * (?days div 146097) + int (days_from 1970 n) + int d = ?days"
    by (metis add.assoc mult_div_mod_eq of_nat_add)
  have eq3: "t = 86400 * ?days + t mod 86400" by simp
  have eq4: "int (sum_list (take i (month_days (1970 + n)))) + int k = int d" using i(3) n(1) by simp
  have kle: "k < 31" using month_days_le [of i y] i(1,4) len by simp
  show ?thesis
  proof (rule that [of n])
    show "tm_year (gmtime t) = 1970 + int n + 400 * (t div 86400 div 146097)" by (simp add: tm n(1))
    show "tm_mon (gmtime t) \<in> {1..12}" using i(1,2) len by (simp add: tm)
    show "tm_mday (gmtime t) \<in> {1..31}" using kle by (simp add: tm)
    show "tm_hour (gmtime t) < 24" using secs by (simp add: tm less_mult_imp_div_less)
    show "tm_min (gmtime t) < 60" by (simp add: tm less_mult_imp_div_less)
    show "t = 86400 * (146097 * (t div 86400 div 146097) + int (days_from 1970 n) +
       int (sum_list (take (tm_mon (gmtime t) - 1) (month_days (1970 + n)))) +
       int (tm_mday (gmtime t)) - 1) +
       3600 * int (tm_hour (gmtime t)) + 60 * int (tm_min (gmtime t)) + int (tm_sec (gmtime t))"
      by (simp add: tm i(2)) (use eq1 eq2 eq3 eq4 in linarith)
  qed (use nle in \<open>simp_all add: tm\<close>)
qed

definition current :: "int \<Rightarrow> bool" where
  "current t \<longleftrightarrow> 0 \<le> t \<and> t < 2 ^ 37"

lemma current_year:
  assumes "current t"
  shows "1970 \<le> tm_year (gmtime t)" "tm_year (gmtime t) < 10000"
proof -
  have "0 \<le> t div 86400 div 146097" "t div 86400 div 146097 \<le> 10"
    using assms zdiv_mono1 [of t "2 ^ 37" "86400 * 146097"]
    by (simp_all add: current_def pos_imp_zdiv_nonneg_iff flip: zdiv_zmult2_eq)
  moreover obtain n where "tm_year (gmtime t) = 1970 + int n + 400 * (t div 86400 div 146097)" "n \<le> 400"
    by (rule gmtime_fields)
  ultimately show "1970 \<le> tm_year (gmtime t)" "tm_year (gmtime t) < 10000" by linarith+
qed

lemma length_dates:
  assumes "current t"
  shows "length (date_stamp (gmtime t)) \<le> 8" "length (amz_date (gmtime t)) \<le> 16"
proof -
  have "length (show_nat (nat (tm_year (gmtime t)))) \<le> 4"
    by (rule length_show_nat) (use current_year [OF assms] in auto)
  then show "length (date_stamp (gmtime t)) \<le> 8" "length (amz_date (gmtime t)) \<le> 16"
    using current_year [OF assms] by (simp_all add: date_stamp_def amz_date_def show_int_def pad2_def)
qed

lemma strftime_dates:
  "current t \<Longrightarrow> c_strftime 64 (amz_date (gmtime t)) = ret (amz_date (gmtime t))"
  "current t \<Longrightarrow> c_strftime 16 (date_stamp (gmtime t)) = ret (date_stamp (gmtime t))"
  using length_dates [of t] by (simp_all add: c_strftime_def)

subsection \<open>The signer interface\<close>

text \<open>The inputs for which no fixed buffer of the signers is too small.\<close>

definition sig_ok :: "s3_config \<Rightarrow> string \<Rightarrow> string \<Rightarrow> string option \<Rightarrow> bool" where
  "sig_ok cfg mth bucket key \<longleftrightarrow>
     length (host_of (endpoint cfg)) < 256 \<and> length (object_path bucket key) < 2048 \<and>
     length (region cfg) \<le> 100 \<and> length (secret_key cfg) \<le> 155 \<and>
     length (access_key cfg) \<le> 1500 \<and> length mth \<le> 16"

definition current_clock :: "env \<Rightarrow> bool" where
  "current_clock E \<longleftrightarrow> (\<forall>tr. current (env_time E tr))"

definition signed_headers :: "s3_config \<Rightarrow> tm \<Rightarrow> (string \<times> string) list" where
  "signed_headers cfg tmv = [(''host'', host_of (endpoint cfg)), (''x-amz-date'', amz_date tmv)]"

abbreviation signed :: "env \<Rightarrow> s3_config \<Rightarrow> string \<Rightarrow> string \<Rightarrow> string option \<Rightarrow> int \<Rightarrow> string \<times> string \<times> string" where
  "signed E cfg mth bucket key t \<equiv> (host_of (endpoint cfg), amz_date (gmtime t),
     sigv4_authorization E cfg (gmtime t) mth (object_path bucket key) [] (signed_headers cfg (gmtime t)))"

lemma length_scope:
  "current t \<Longrightarrow> length (sigv4_scope (date_stamp (gmtime t)) reg) \<le> length reg + 25"
  using length_dates(1) [of t] by (simp add: sigv4_scope_def)

lemma length_authorization:
  assumes "current t"
  shows "length (sigv4_authorization E cfg (gmtime t) mth uri query hdrs)
    \<le> length (access_key cfg) + length (region cfg) + length (semicolons (map fst hdrs)) + 147"
  using length_scope [OF assms, of "region cfg"] by (simp add: sigv4_authorization_def Let_def)

locale signer =
  fixes sign :: "env \<Rightarrow> s3_config \<Rightarrow> string \<Rightarrow> string \<Rightarrow> string option \<Rightarrow> (string \<times> string \<times> string) io"
  assumes sign_refines: "sig_ok cfg mth bucket key \<Longrightarrow> current_clock E \<Longrightarrow>
    run_state (sign E cfg mth bucket key) tr =
      (signed E cfg mth bucket key (env_time E tr), Sys (Time (env_time E tr)) # tr)"
begin

text \<open>Two requests signed in the same second with the same arguments carry the same signature.\<close>

lemma sign_same_second:
  "sig_ok cfg mth bucket key \<Longrightarrow> current_clock E \<Longrightarrow> env_time E tr = env_time E tr' \<Longrightarrow>
   fst (run_state (sign E cfg mth bucket key) tr) = fst (run_state (sign E cfg mth bucket key) tr')"
  by (simp add: sign_refines)

text \<open>The length of the authorization, from which the header buffers are sized.\<close>

lemma sign_length:
  assumes "sig_ok cfg mth bucket key" "current_clock E"
    and "run_state (sign E cfg mth bucket key) tr = ((host, amz, auth), tr')"
  shows "length auth \<le> length (access_key cfg) + length (region cfg) + 162" "length host < 256"
    "length amz \<le> 16"
proof -
  have t: "current (env_time E tr)" using assms(2) by (simp add: current_clock_def)
  show "length auth \<le> length (access_key cfg) + length (region cfg) + 162" "length host < 256"
    "length amz \<le> 16"
    using assms length_authorization [OF t, of E cfg mth "object_path bucket key" "[]"
        "signed_headers cfg (gmtime (env_time E tr))"] length_dates(2) [OF t]
    by (auto simp: sign_refines sig_ok_def signed_headers_def)
qed

end

end
