(* ===== verification/Base64.thy ===== *)
theory Base64
  imports CString
begin

text \<open>
  \<open>base64_encode\<close> of \<^verbatim>\<open>rdmalib.c\<close>, which encodes the nonce of the websocket
  handshake, and a decoder after RFC 4648 that serves as its specification: decoding the
  encoder's output gives the input back, so distinct nonces have distinct keys, and the
  output has exactly four characters for every started group of three bytes.
\<close>

definition b64_tbl :: string where
  "b64_tbl = ''ABCDEFGHIJKLMNOPQRSTUVWXYZabcdefghijklmnopqrstuvwxyz0123456789+/''"

definition b64_char :: "u32 \<Rightarrow> nat \<Rightarrow> char" where
  "b64_char v k = b64_tbl ! unat (drop_bit k v AND 0x3F)"

text \<open>The loop over \<open>i\<close>, three input bytes and four output characters at a time.\<close>

function base64_loop :: "byte list \<Rightarrow> nat \<Rightarrow> string" where
  "base64_loop inp i =
     (if i < length inp then
        let v = push_bit 16 (ucast (inp ! i) :: u32);
            v = (if i + 1 < length inp then v OR push_bit 8 (ucast (inp ! (i + 1))) else v);
            v = (if i + 2 < length inp then v OR ucast (inp ! (i + 2)) else v)
        in [b64_char v 18,
            b64_char v 12,
            if i + 1 < length inp then b64_char v 6 else CHR ''='',
            if i + 2 < length inp then b64_char v 0 else CHR ''=''] @ base64_loop inp (i + 3)
      else [])"
  by pat_completeness auto
termination
  by (relation "measure (\<lambda>(inp, i). length inp - i)") auto

declare base64_loop.simps [simp del]

definition base64_encode :: "byte list \<Rightarrow> string" where
  "base64_encode inp = base64_loop inp 0"

subsection \<open>A decoder after RFC 4648\<close>

definition b64_index :: "char \<Rightarrow> u32 option" where
  "b64_index c = (case filter (\<lambda>k. b64_tbl ! k = c) [0..<64] of [] \<Rightarrow> None | k # _ \<Rightarrow> Some (word_of_nat k))"

definition b64_group :: "u32 \<Rightarrow> u32 \<Rightarrow> u32 \<Rightarrow> u32 \<Rightarrow> u32" where
  "b64_group a b c d = push_bit 18 a OR push_bit 12 b OR push_bit 6 c OR d"

fun base64_decode :: "string \<Rightarrow> byte list option" where
  "base64_decode [] = Some []"
| "base64_decode [a, b, c, d] =
     (case (b64_index a, b64_index b) of
        (Some va, Some vb) \<Rightarrow>
          (if c = CHR ''='' \<and> d = CHR ''=''
           then Some [ucast (drop_bit 16 (b64_group va vb 0 0))]
           else case b64_index c of
                  None \<Rightarrow> None
                | Some vc \<Rightarrow>
                    if d = CHR ''=''
                    then Some [ucast (drop_bit 16 (b64_group va vb vc 0)),
                               ucast (drop_bit 8 (b64_group va vb vc 0))]
                    else case b64_index d of
                           None \<Rightarrow> None
                         | Some vd \<Rightarrow>
                             let g = b64_group va vb vc vd
                             in Some [ucast (drop_bit 16 g), ucast (drop_bit 8 g), ucast g])
      | _ \<Rightarrow> None)"
| "base64_decode (a # b # c # d # s) =
     (case (b64_index a, b64_index b, b64_index c, b64_index d, base64_decode s) of
        (Some va, Some vb, Some vc, Some vd, Some bs) \<Rightarrow>
          let g = b64_group va vb vc vd
          in Some (ucast (drop_bit 16 g) # ucast (drop_bit 8 g) # ucast g # bs)
      | _ \<Rightarrow> None)"
| "base64_decode _ = None"

subsection \<open>The loop as a recursion on the input\<close>

lemma base64_loop_shift:
  "base64_loop (x # y # z # inp) (i + 3) = base64_loop inp i"
proof (induction inp i rule: base64_loop.induct)
  case (1 inp i)
  have n: "(x # y # z # inp) ! (i + 3 + k) = inp ! (i + k)" for k
    by (simp add: numeral_3_eq_3)
  have n0: "(x # y # z # inp) ! (i + 3) = inp ! i" using n [of 0] by simp
  show ?case
  proof (cases "i < length inp")
    case True
    note IH = 1 [OF True refl refl refl]
    show ?thesis
      using True IH n [of 1] n [of 2] n0
      by (simp add: base64_loop.simps [of _ "i + 3"] base64_loop.simps [of inp i] Let_def add.assoc)
  next
    case False
    then show ?thesis
      by (simp add: base64_loop.simps [of _ "i + 3"] base64_loop.simps [of inp i])
  qed
qed

lemma base64_encode_Nil: "base64_encode [] = []"
  by (simp add: base64_encode_def base64_loop.simps)

lemma base64_encode_1:
  "base64_encode [x] =
     (let v = push_bit 16 (ucast x) in [b64_char v 18, b64_char v 12, CHR ''='', CHR ''=''])"
  by (simp add: base64_encode_def base64_loop.simps Let_def)

lemma base64_encode_2:
  "base64_encode [x, y] =
     (let v = push_bit 16 (ucast x) OR push_bit 8 (ucast y)
      in [b64_char v 18, b64_char v 12, b64_char v 6, CHR ''=''])"
  by (simp add: base64_encode_def base64_loop.simps Let_def)

lemma base64_encode_3:
  "base64_encode (x # y # z # inp) =
     (let v = push_bit 16 (ucast x) OR push_bit 8 (ucast y) OR ucast z
      in [b64_char v 18, b64_char v 12, b64_char v 6, b64_char v 0] @ base64_encode inp)"
  using base64_loop_shift [of x y z inp 0]
  by (simp add: base64_encode_def base64_loop.simps [of "x # y # z # inp" 0] Let_def numeral_2_eq_2 or.assoc)

lemmas base64_encode_simps = base64_encode_Nil base64_encode_1 base64_encode_2 base64_encode_3

text \<open>Induction over groups of three bytes.\<close>

fun groups3 :: "'a list \<Rightarrow> nat" where
  "groups3 [] = 0"
| "groups3 [x] = 1"
| "groups3 [x, y] = 1"
| "groups3 (x # y # z # xs) = Suc (groups3 xs)"

lemma groups3_eq: "groups3 xs = (length xs + 2) div 3"
  by (induction xs rule: groups3.induct) auto

lemma length_base64_groups: "length (base64_encode bs) = 4 * groups3 bs"
  by (induction bs rule: groups3.induct) (simp_all add: base64_encode_simps Let_def)

lemma length_base64_encode: "length (base64_encode bs) = 4 * ((length bs + 2) div 3)"
  by (simp add: length_base64_groups groups3_eq)

subsection \<open>Decoding what was encoded\<close>

lemma and_3F: "v AND 0x3F = take_bit 6 v" for v :: u32
  by (simp add: take_bit_eq_mask mask_eq_exp_minus_1)

lemma b64_sextet: "unat (v AND 0x3F :: u32) < 64"
  using take_bit_nat_less_exp [of 6 "unat v"] by (simp add: and_3F unsigned_take_bit_eq)

lemma b64_tbl_ok:
  "list_all (\<lambda>k. filter (\<lambda>j. b64_tbl ! j = b64_tbl ! k) [0..<64] = [k] \<and> b64_tbl ! k \<noteq> CHR ''='') [0..<64]"
  by code_simp

lemma b64_index_tbl:
  assumes "k < 64"
  shows "b64_index (b64_tbl ! k) = Some (word_of_nat k)" "b64_tbl ! k \<noteq> CHR ''=''"
  using assms b64_tbl_ok by (auto simp: list_all_iff b64_index_def)

lemma b64_index_char [simp]: "b64_index (b64_char v k) = Some (drop_bit k v AND 0x3F)"
  using b64_index_tbl(1) [OF b64_sextet, of "drop_bit k v"] by (simp add: b64_char_def)

lemma b64_char_not_pad [simp]: "b64_char v k \<noteq> CHR ''=''"
  using b64_index_tbl(2) [OF b64_sextet, of "drop_bit k v"] by (simp add: b64_char_def)

text \<open>The four sextets of a 24-bit value make it up, and its three bytes are the input's.\<close>

lemma b64_group_sextets:
  "b64_group (drop_bit 18 v AND 0x3F) (drop_bit 12 v AND 0x3F) (drop_bit 6 v AND 0x3F)
     (drop_bit 0 v AND 0x3F) = take_bit 24 v"
proof (rule bit_word_eqI)
  fix n :: nat
  consider "n < 6" | "6 \<le> n" "n < 12" | "12 \<le> n" "n < 18" | "18 \<le> n" by linarith
  then show "bit (b64_group (drop_bit 18 v AND 0x3F) (drop_bit 12 v AND 0x3F)
      (drop_bit 6 v AND 0x3F) (drop_bit 0 v AND 0x3F)) n = bit (take_bit 24 v) n"
    by cases (auto simp: b64_group_def and_3F bit_simps)
qed

lemma b64_bytes:
  fixes x y z :: byte
  defines "v \<equiv> push_bit 16 (ucast x) OR push_bit 8 (ucast y) OR (ucast z :: u32)"
  shows "ucast (drop_bit 16 (take_bit 24 v)) = x" "ucast (drop_bit 8 (take_bit 24 v)) = y"
    "ucast (take_bit 24 v) = z"
  by (rule bit_word_eqI; auto simp: v_def bit_simps dest: bit_imp_le_length)+

lemma b64_sextet_split [simp]:
  "b64_group (drop_bit 18 v AND 0x3F) (drop_bit 12 v AND 0x3F) (drop_bit 6 v AND 0x3F)
     (v AND 0x3F) = take_bit 24 v"
  using b64_group_sextets [of v] by simp

lemma base64_decode_group:
  assumes "base64_decode s = Some bs"
  shows "base64_decode ([b64_char v 18, b64_char v 12, b64_char v 6, b64_char v 0] @ s) =
    Some (ucast (drop_bit 16 (take_bit 24 v)) # ucast (drop_bit 8 (take_bit 24 v))
      # ucast (take_bit 24 v) # bs)"
  using assms by (cases s) (simp_all add: Let_def)

lemma base64_round_trip: "base64_decode (base64_encode bs) = Some bs"
proof (induction bs rule: groups3.induct)
  case 1
  show ?case by (simp add: base64_encode_simps)
next
  case (2 x)
  let ?v = "push_bit 16 (ucast x) :: u32"
  have "drop_bit 6 ?v AND 0x3F = 0" "?v AND 0x3F = 0"
    by (rule bit_word_eqI; auto simp: and_3F bit_simps)+
  then show ?case
    using b64_sextet_split [of ?v] b64_bytes(1) [of x 0 0]
    by (simp add: base64_encode_simps Let_def)
next
  case (3 x y)
  let ?v = "push_bit 16 (ucast x) OR push_bit 8 (ucast y) :: u32"
  have "?v AND 0x3F = 0"
    by (rule bit_word_eqI) (auto simp: and_3F bit_simps)
  then show ?case
    using b64_sextet_split [of ?v] b64_bytes(1,2) [of x y 0]
    by (simp add: base64_encode_simps Let_def)
next
  case (4 x y z bs)
  show ?case
    unfolding base64_encode_3 Let_def base64_decode_group [OF 4] b64_bytes by (rule refl)
qed

text \<open>Encoding as an instance of the codec interface: nothing may follow the text.\<close>

interpretation base64: stream_codec base64_encode
  "\<lambda>s. map_option (\<lambda>bs. (bs, [])) (base64_decode s)" "\<lambda>_. True" "\<lambda>rest. rest = []"
  by unfold_locales (simp_all add: base64_round_trip)

subsection \<open>Properties\<close>


text \<open>
  C37: the encoder is correct for every input: the RFC 4648 decoder gives back the bytes, so no two
  inputs share an encoding, and the output has four characters for every group of three bytes.
\<close>

theorem base64_encode_correct:
  "base64_decode (base64_encode bs) = Some bs \<and> length (base64_encode bs) = 4 * ((length bs + 2) div 3)"
  by (simp add: base64_round_trip length_base64_encode)

end
