(* ===== verification/WebSocket.thy ===== *)
theory WebSocket
  imports Resources Base64
begin

text \<open>
  The websocket client of \<^verbatim>\<open>rdmalib.c\<close>: reading a given number of bytes, parsing the
  URL, the opening handshake, sending and receiving one text frame, and closing. The lemmas
  give the contract of each operation on the descriptor, show that a frame that is sent is
  the RFC 6455 frame of the message, and that a frame the peer sends is received whole,
  however the transport splits it.
\<close>

text \<open>\<^verbatim>\<open>if (err) snprintf(err, errlen, ...)\<close>; \<^term>\<open>None\<close> is a NULL buffer.\<close>

definition set_err :: "nat option \<Rightarrow> string \<Rightarrow> string option" where
  "set_err eb msg = map_option (\<lambda>errlen. snprintf_str errlen msg) eb"

subsection \<open>Reading\<close>

function read_full_loop :: "env \<Rightarrow> nat \<Rightarrow> nat \<Rightarrow> byte list \<Rightarrow> trace \<Rightarrow> byte list option \<times> trace" where
  "read_full_loop E fd n got tr =
     (if length got < n then
        (case run_state (c_read E fd (n - length got)) tr of
           (None, tr') \<Rightarrow> (None, tr')
         | (Some bs, tr') \<Rightarrow>
             if bs = [] then (None, tr') else read_full_loop E fd n (got @ bs) tr')
      else (Some got, tr))"
  by pat_completeness auto
termination
  by (relation "measure (\<lambda>(E, fd, n, got, tr). n - length got)") (auto simp: neq_Nil_conv)

declare read_full_loop.simps [simp del]

definition read_full :: "env \<Rightarrow> nat \<Rightarrow> nat \<Rightarrow> byte list option io" where
  "read_full E fd n = State (read_full_loop E fd n [])"

subsection \<open>The URL\<close>

definition ws_parse_url :: "string \<Rightarrow> nat \<Rightarrow> nat \<Rightarrow> (string \<times> int \<times> string) option" where
  "ws_parse_url url hostlen pathlen =
     (case strstr url ''://'' of
        None \<Rightarrow> None
      | Some q \<Rightarrow>
          let p = drop 3 q;
              slash = strchr p CHR ''/'';
              n = (case slash of Some s \<Rightarrow> length p - length s | None \<Rightarrow> length p)
          in if 300 \<le> n then None
             else
               let hostport = take n p;
                   path = snprintf_str pathlen (case slash of Some s \<Rightarrow> s | None \<Rightarrow> ''/'')
               in case strchr hostport CHR '':'' of
                    Some colon \<Rightarrow>
                      Some (snprintf_str hostlen (take (length hostport - length colon) hostport),
                            atoi (tl colon), path)
                  | None \<Rightarrow> Some (snprintf_str hostlen hostport, 80, path))"

subsection \<open>The opening handshake\<close>

text \<open>The loop over the entries of the address list \<open>ai\<close>.\<close>

fun connect_loop :: "env \<Rightarrow> nat \<Rightarrow> nat list \<Rightarrow> nat option io" where
  "connect_loop E ai [] = ret None"
| "connect_loop E ai (p # ps) = do {
     s \<leftarrow> c_socket E ai p;
     case s of
       None \<Rightarrow> connect_loop E ai ps
     | Some fd \<Rightarrow> do {
         ok \<leftarrow> c_connect E fd ai p;
         if ok then ret (Some fd)
         else do { c_close fd; connect_loop E ai ps }
       }
   }"

fun rand_bytes :: "env \<Rightarrow> nat \<Rightarrow> byte list io" where
  "rand_bytes E 0 = ret []"
| "rand_bytes E (Suc n) = do {
     b \<leftarrow> c_rand_byte E;
     bs \<leftarrow> rand_bytes E n;
     ret (b # bs)
   }"

definition ws_request :: "string \<Rightarrow> string \<Rightarrow> int \<Rightarrow> string \<Rightarrow> string" where
  "ws_request path host port key_b64 =
     ''GET '' @ path @ '' HTTP/1.1'' @ crlf @
     ''Host: '' @ host @ '':'' @ show_int port @ crlf @
     ''Upgrade: websocket'' @ crlf @
     ''Connection: Upgrade'' @ crlf @
     ''Sec-WebSocket-Key: '' @ key_b64 @ crlf @
     ''Sec-WebSocket-Version: 13'' @ crlf @ crlf"

text \<open>
  One byte at a time, until the blank line that ends the response head or until the buffer
  of 2048 bytes holds 2047.
\<close>

function ws_response_loop :: "env \<Rightarrow> nat \<Rightarrow> string \<Rightarrow> trace \<Rightarrow> string option \<times> trace" where
  "ws_response_loop E fd resp tr =
     (if length resp < 2047 then
        (case run_state (c_read E fd 1) tr of
           (Some [c], tr') \<Rightarrow>
             let resp' = resp @ [char_of_byte c]
             in if 4 \<le> length resp' \<and> drop (length resp' - 4) resp' = crlf @ crlf
                then (Some resp', tr')
                else ws_response_loop E fd resp' tr'
         | (_, tr') \<Rightarrow> (None, tr'))
      else (Some resp, tr))"
  by pat_completeness auto
termination
  by (relation "measure (\<lambda>(E, fd, resp, tr). 2047 - length resp)") auto

declare ws_response_loop.simps [simp del]

definition ws_upgrade_ok :: "string \<Rightarrow> bool" where
  "ws_upgrade_ok resp = (\<not> (strstr resp '' 101 '' = None \<and> strstr resp ''101 Switching'' = None))"

definition ws_dial :: "env \<Rightarrow> string \<Rightarrow> nat option \<Rightarrow> nat result io" where
  "ws_dial E url eb =
     (case ws_parse_url url 256 256 of
        None \<Rightarrow> ret (Fail (set_err eb (''invalid websocket url: '' @ url)))
      | Some (host, port, path) \<Rightarrow> do {
          res \<leftarrow> c_getaddrinfo E host (snprintf_str 8 (show_int port));
          case res of
            None \<Rightarrow> ret (Fail (set_err eb (''getaddrinfo('' @ host @ '') failed'')))
          | Some (ai, n) \<Rightarrow> do {
              r \<leftarrow> connect_loop E ai [0..<n];
              c_freeaddrinfo ai;
              case r of
                None \<Rightarrow>
                  ret (Fail (set_err eb (''connect to '' @ host @ '':'' @ show_int port @ '' failed'')))
              | Some fd \<Rightarrow> do {
                  keybytes \<leftarrow> rand_bytes E 16;
                  let (req, n) = snprintf 512 (ws_request path host port (base64_encode keybytes));
                  (if 512 < n then emit (Undefined ''read past req[512]'') else ret ());
                  w \<leftarrow> c_write E fd (take n (bytes_of (req @ [NUL])));
                  if w \<noteq> int n then do {
                    c_close fd;
                    ret (Fail (set_err eb ''failed to send websocket handshake''))
                  } else do {
                    resp \<leftarrow> State (ws_response_loop E fd []);
                    case resp of
                      None \<Rightarrow> do {
                        c_close fd;
                        ret (Fail (set_err eb ''websocket handshake read failed''))
                      }
                    | Some resp \<Rightarrow>
                        if \<not> ws_upgrade_ok (cstring resp) then do {
                          c_close fd;
                          ret (Fail (set_err eb (''websocket handshake rejected: '' @ cstring resp)))
                        } else ret (Ok fd)
                  }
                }
            }
        })"

subsection \<open>Frames\<close>

definition mask_bytes :: "byte list \<Rightarrow> byte list \<Rightarrow> byte list" where
  "mask_bytes key bs = map (\<lambda>i. bs ! i XOR key ! (i mod 4)) [0..<length bs]"

definition ws_send_text :: "env \<Rightarrow> nat \<Rightarrow> string \<Rightarrow> bool io" where
  "ws_send_text E fd msg =
     (let len = length msg in
      if 65536 \<le> len then ret False
      else do {
        let hdr = [0x81 :: byte];
        let hdr = hdr @ (if len < 126 then [0x80 OR word_of_nat len]
                         else [0x80 OR 126,
                               ucast (drop_bit 8 (word_of_nat len :: u64) AND 0xFF),
                               ucast ((word_of_nat len :: u64) AND 0xFF)]);
        msk \<leftarrow> rand_bytes E 4;
        let hdr = hdr @ msk;
        w \<leftarrow> c_write E fd hdr;
        if w \<noteq> int (length hdr) then ret False
        else do {
          m \<leftarrow> c_malloc E len;
          case m of
            None \<Rightarrow> ret False
          | Some h \<Rightarrow> do {
              w \<leftarrow> c_write E fd (mask_bytes msk (bytes_of msg));
              c_free h;
              ret (w = int len)
            }
        }
      })"

text \<open>The 64-bit extended payload length, most significant byte first.\<close>

definition ext_len :: "byte list \<Rightarrow> u64" where
  "ext_len ext = foldl (\<lambda>len b. push_bit 8 len OR ucast b) 0 ext"

text \<open>The part of \<open>ws_recv_text\<close> that reads an extended length.\<close>

definition ws_recv_len :: "env \<Rightarrow> nat \<Rightarrow> u64 \<Rightarrow> u64 option io" where
  "ws_recv_len E fd len =
     (if len = 126 then do {
        ext \<leftarrow> read_full E fd 2;
        ret (map_option (\<lambda>ext. push_bit 8 (ucast (ext ! 0)) OR ucast (ext ! 1)) ext)
      } else if len = 127 then do {
        ext \<leftarrow> read_full E fd 8;
        ret (map_option ext_len ext)
      } else ret (Some len))"

text \<open>The part of \<open>ws_recv_text\<close> after the length: the masking key, the bound, the payload.\<close>

definition ws_recv_payload :: "env \<Rightarrow> nat \<Rightarrow> nat \<Rightarrow> byte \<Rightarrow> bool \<Rightarrow> u64 \<Rightarrow> byte list option io" where
  "ws_recv_payload E fd bufsize opcode masked len = do {
     key \<leftarrow> (if masked then read_full E fd 4 else ret (Some (replicate 4 0)));
     case key of
       None \<Rightarrow> ret None
     | Some key \<Rightarrow>
         if bufsize \<le> unat len then ret None
         else do {
           payload \<leftarrow> (if 0 < len then read_full E fd (unat len) else ret (Some []));
           case payload of
             None \<Rightarrow> ret None
           | Some payload \<Rightarrow> do {
               let buf = (if masked then mask_bytes key payload else payload);
               if opcode = 0x8 then ret None else ret (Some buf)
             }
         }
   }"

definition ws_recv_text :: "env \<Rightarrow> nat \<Rightarrow> nat \<Rightarrow> byte list option io" where
  "ws_recv_text E fd bufsize = do {
     hdr \<leftarrow> read_full E fd 2;
     case hdr of
       None \<Rightarrow> ret None
     | Some hdr \<Rightarrow> do {
         let opcode = hdr ! 0 AND 0x0F;
         let masked = (hdr ! 1 AND 0x80 \<noteq> 0);
         let len7 = (ucast (hdr ! 1 AND 0x7F) :: u64);
         len \<leftarrow> ws_recv_len E fd len7;
         case len of
           None \<Rightarrow> ret None
         | Some len \<Rightarrow> ws_recv_payload E fd bufsize opcode masked len
       }
   }"

definition ws_close :: "env \<Rightarrow> nat \<Rightarrow> unit io" where
  "ws_close E fd = do {
     msk \<leftarrow> rand_bytes E 4;
     _ \<leftarrow> c_write E fd ([0x88, 0x80] @ msk);
     c_close fd
   }"

subsection \<open>Contracts\<close>

lemma read_full_loop_owns:
  "owns tr L \<Longrightarrow> holds KFd fd L \<Longrightarrow> owns (snd (read_full_loop E fd n got tr)) L"
proof (induction E fd n got tr rule: read_full_loop.induct)
  case (1 E fd n got tr)
  obtain r tr' where run: "run_state (c_read E fd (n - length got)) tr = (r, tr')"
    by (cases "run_state (c_read E fd (n - length got)) tr") auto
  have "owns tr' L"
    using moves_run [OF keeps_read [OF "1.prems"(2)] "1.prems"(1) run] .
  with 1 run show ?case
    by (auto simp: read_full_loop.simps [of E fd n got tr] split: option.splits)
qed

lemma keeps_read_full: "holds KFd fd L \<Longrightarrow> keeps L (read_full E fd n)"
  by (simp add: moves_def wp_def read_full_def case_prod_beta read_full_loop_owns)

lemma ws_response_loop_owns:
  "owns tr L \<Longrightarrow> holds KFd fd L \<Longrightarrow> owns (snd (ws_response_loop E fd resp tr)) L"
proof (induction E fd resp tr rule: ws_response_loop.induct)
  case (1 E fd resp tr)
  obtain r tr' where run: "run_state (c_read E fd 1) tr = (r, tr')"
    by (cases "run_state (c_read E fd 1) tr") auto
  have "owns tr' L"
    using moves_run [OF keeps_read [OF "1.prems"(2)] "1.prems"(1) run] .
  with 1 run show ?case
    by (auto simp: ws_response_loop.simps [of E fd resp tr] Let_def split: option.splits list.splits)
qed

lemma keeps_response: "holds KFd fd L \<Longrightarrow> keeps L (State (ws_response_loop E fd resp))"
  by (simp add: moves_def wp_def case_prod_beta ws_response_loop_owns)

lemma moves_connect_loop: "holds KAddrInfo ai L \<Longrightarrow> moves L (connect_loop E ai ps) (push (\<lambda>h. Res KFd h []) L)"
proof (induction ps)
  case Nil
  then show ?case by (simp add: moves_returnI)
next
  case (Cons a as)
  then show ?case
    by (auto intro!: moves_intros split: option.splits)
qed

lemma keeps_rand_bytes: "keeps L (rand_bytes E n)"
  by (induction n) (auto intro!: moves_intros moves_bindI [of L "rand_bytes E _"])

lemma rand_bytes_length: "wp (rand_bytes E n) (\<lambda>bs _. length bs = n) tr"
  by (induction n arbitrary: tr) (simp_all add: wp_rules call_defs)

lemmas ws_helpers = keeps_read_full keeps_response moves_connect_loop

lemmas [moves_intros] = ws_helpers ws_helpers [THEN moves_bindI] keeps_rand_bytes
  moves_bind_post [OF keeps_rand_bytes rand_bytes_length]

lemma keeps_ws_send_text: "holds KFd fd L \<Longrightarrow> keeps L (ws_send_text E fd msg)"
  unfolding ws_send_text_def Let_def
  by (auto intro!: moves_intros split: option.splits)

lemma keeps_ws_recv_text: "holds KFd fd L \<Longrightarrow> keeps L (ws_recv_text E fd n)"
  unfolding ws_recv_text_def ws_recv_len_def ws_recv_payload_def Let_def
  by (auto intro!: moves_intros split: option.splits)

lemma moves_ws_close:
  "holds_exactly KFd fd L \<Longrightarrow> no_child fd L \<Longrightarrow> moves L (ws_close E fd) (\<lambda>_. without fd L)"
  unfolding ws_close_def by (auto intro!: moves_intros holds_if_exactly)

text \<open>
  The length of the handshake request. With a URL of at most 300 characters, as the
  single-object clients pass it, the request fits its buffer of 512 bytes.
\<close>

lemma ws_parse_url_lengths:
  assumes "ws_parse_url url 256 256 = Some (host, port, path)"
  shows "length host < 256" "length path < 256" "length host + length path \<le> length url"
    "- (2 ^ 31) \<le> port \<and> port < 2 ^ 31"
proof -
  from assms obtain q where q: "strstr url ''://'' = Some q"
    by (auto simp: ws_parse_url_def split: option.splits)
  then obtain pre where url: "url = pre @ q" and "prefix ''://'' q"
    using strstr_suffix by blast
  then have len: "length (drop 3 q) + 3 \<le> length url"
    by (auto simp: prefix_def)
  show "length host < 256" "length path < 256" "- (2 ^ 31) \<le> port \<and> port < 2 ^ 31"
    using assms q atoi_range
    by (auto simp: ws_parse_url_def Let_def snprintf_def split: option.splits if_splits)
  show "length host + length path \<le> length url"
  proof (cases "strchr (drop 3 q) CHR ''/''")
    case None
    with assms q len show ?thesis
      by (auto simp: ws_parse_url_def Let_def snprintf_def split: option.splits if_splits)
  next
    case (Some s)
    then obtain hp where "drop 3 q = hp @ s" using strchr_Some by blast
    with Some assms q len show ?thesis
      by (auto simp: ws_parse_url_def Let_def snprintf_def split: option.splits if_splits)
  qed
qed

lemma length_ws_request:
  assumes "- (2 ^ 31) \<le> port" "port < 2 ^ 31" "length key = 24"
  shows "length (ws_request path host port key) \<le> length path + length host + 150"
proof -
  have "length (show_int port) \<le> Suc 10"
    by (rule length_show_int) (use assms in auto)
  then show ?thesis using assms(3) by (simp add: ws_request_def)
qed

abbreviation opened :: "resource list \<Rightarrow> nat result \<Rightarrow> resource list" where
  "opened L r \<equiv> (case r of Ok fd \<Rightarrow> Res KFd fd [] # L | Fail _ \<Rightarrow> L)"

lemma moves_ws_dial:
  assumes "length url \<le> 362"
  shows "moves L (ws_dial E url eb) (opened L)"
proof (cases "ws_parse_url url 256 256")
  case None
  then show ?thesis by (simp add: ws_dial_def moves_returnI)
next
  case (Some r)
  then obtain host port path where r: "r = (host, port, path)" by (cases r) auto
  note lens = ws_parse_url_lengths [OF Some [unfolded r]]
  have fits: "\<not> 512 < length (ws_request path host port (base64_encode key))"
    if "length key = 16" for key
  proof -
    have "length (base64_encode key) = 24" using that by (simp add: length_base64_encode)
    then have "length (ws_request path host port (base64_encode key)) \<le> length path + length host + 150"
      using lens(4) by (intro length_ws_request) auto
    with lens(3) assms show ?thesis by linarith
  qed
  show ?thesis
    unfolding ws_dial_def Some r option.case prod.case
    by (auto intro!: moves_intros simp: snprintf_def fits split: option.splits result.splits)
qed

subsection \<open>The calls that the channel makes\<close>

definition reads_from :: "nat \<Rightarrow> event \<Rightarrow> bool" where
  "reads_from fd e \<longleftrightarrow> (\<exists>n r. e = Net (Read fd n r))"

lemma read_full_loop_reads:
  "\<exists>evs. snd (read_full_loop E fd n got tr) = evs @ tr \<and> list_all (reads_from fd) evs"
proof (induction E fd n got tr rule: read_full_loop.induct)
  case (1 E fd n got tr)
  obtain r tr' where run: "run_state (c_read E fd (n - length got)) tr = (r, tr')"
    by (cases "run_state (c_read E fd (n - length got)) tr") auto
  then obtain e where tr': "tr' = e # tr" "reads_from fd e"
    by (auto simp: c_read_def ext_call_def Let_def reads_from_def)
  show ?case
  proof (cases "length got < n \<and> (\<exists>bs. r = Some bs \<and> bs \<noteq> [])")
    case True
    then obtain bs where "r = Some bs" "bs \<noteq> []" by blast
    with 1 [OF _ run [symmetric]] True obtain evs where
      "snd (read_full_loop E fd n (got @ bs) tr') = evs @ tr'" "list_all (reads_from fd) evs" by blast
    with True run \<open>r = Some bs\<close> tr' show ?thesis
      by (intro exI [of _ "evs @ [e]"]) (simp add: read_full_loop.simps [of E fd n got tr])
  next
    case False
    with run tr' show ?thesis
      by (auto simp: read_full_loop.simps [of E fd n got tr] split: option.splits)
  qed
qed

lemma ws_response_loop_reads:
  "\<exists>evs. snd (ws_response_loop E fd resp tr) = evs @ tr \<and> list_all (reads_from fd) evs"
proof (induction E fd resp tr rule: ws_response_loop.induct)
  case (1 E fd resp tr)
  obtain r tr' where run: "run_state (c_read E fd 1) tr = (r, tr')"
    by (cases "run_state (c_read E fd 1) tr") auto
  then obtain e where tr': "tr' = e # tr" "reads_from fd e"
    by (auto simp: c_read_def ext_call_def Let_def reads_from_def)
  have step: "\<exists>evs. evs' @ tr' = evs @ tr \<and> list_all (reads_from fd) evs" if "list_all (reads_from fd) evs'" for evs'
    using that tr' by (intro exI [of _ "evs' @ [e]"]) simp
  show ?case
    using 1 run tr' step
    by (fastforce simp: ws_response_loop.simps [of E fd resp tr] Let_def split: option.splits list.splits)
qed

lemma emits_reads:
  "emits (reads_from fd) (read_full E fd n)" "emits (reads_from fd) (State (ws_response_loop E fd resp))"
  unfolding read_full_def by (auto intro!: emits_State read_full_loop_reads ws_response_loop_reads)

lemma emits_read_full: "emits is_local (read_full E fd n)"
  by (rule emits_mono [OF emits_reads(1)]) (auto simp: reads_from_def)

lemma emits_response: "emits is_local (State (ws_response_loop E fd resp))"
  by (rule emits_mono [OF emits_reads(2)]) (auto simp: reads_from_def)

lemma emits_rand_bytes: "emits is_local (rand_bytes E n)"
  by (induction n) (auto intro!: emits_intros simp: call_defs Let_def)

lemma emits_connect_loop: "emits is_local (connect_loop E ai ps)"
  by (induction ps)
    (auto intro!: emits_intros simp: call_defs release_defs Let_def split: option.splits)

lemmas [emits_intros] = emits_read_full emits_response emits_rand_bytes emits_connect_loop

lemma emits_ws_dial: "emits is_local (ws_dial E url eb)"
  unfolding ws_dial_def
  by (auto intro!: emits_intros simp: call_defs release_defs Let_def split: option.splits prod.splits)

lemma emits_ws_send_text: "emits is_local (ws_send_text E fd msg)"
  unfolding ws_send_text_def
  by (auto intro!: emits_intros simp: call_defs release_defs Let_def split: option.splits)

lemma emits_ws_recv_text: "emits is_local (ws_recv_text E fd n)"
  unfolding ws_recv_text_def ws_recv_len_def ws_recv_payload_def
  by (auto intro!: emits_intros simp: Let_def split: option.splits)

lemma emits_ws_close: "emits is_local (ws_close E fd)"
  unfolding ws_close_def by (auto intro!: emits_intros simp: call_defs release_defs Let_def)

lemmas [emits_intros] = emits_ws_dial emits_ws_send_text emits_ws_recv_text emits_ws_close

subsection \<open>The transport\<close>

text \<open>The bytes a trace has read from a descriptor, and the bytes it has written to it.\<close>

fun read_count :: "nat \<Rightarrow> event \<Rightarrow> nat" where
  "read_count fd (Net (Read f n (Some bs))) = (if f = fd then length bs else 0)"
| "read_count fd _ = 0"

definition consumed :: "nat \<Rightarrow> trace \<Rightarrow> nat" where
  "consumed fd tr = sum_list (map (read_count fd) tr)"

fun write_bytes :: "nat \<Rightarrow> event \<Rightarrow> byte list" where
  "write_bytes fd (Net (Write f bs r)) = (if f = fd then take (nat r) bs else [])"
| "write_bytes fd _ = []"

fun written :: "nat \<Rightarrow> trace \<Rightarrow> byte list" where
  "written fd [] = []"
| "written fd (e # tr) = written fd tr @ write_bytes fd e"

text \<open>
  A stream socket on which the peer has sent \<open>s\<close>: as long as bytes of \<open>s\<close> are left, a
  read returns the next ones, at least one and at most as many as asked for.
\<close>

definition delivers :: "env \<Rightarrow> nat \<Rightarrow> byte list \<Rightarrow> bool" where
  "delivers E fd s = (\<forall>tr n. 0 < n \<and> consumed fd tr < length s \<longrightarrow>
     (\<exists>k. 0 < k \<and> k \<le> n \<and> env_read E tr fd n = Some (take k (drop (consumed fd tr) s))))"

lemma consumed_Cons [simp]: "consumed fd (e # tr) = read_count fd e + consumed fd tr"
  by (simp add: consumed_def)

lemma c_read_delivers:
  assumes "delivers E fd s" "0 < n" "consumed fd tr < length s"
  shows "\<exists>k tr'. 0 < k \<and> k \<le> n \<and> consumed fd tr + k \<le> length s \<and>
    run_state (c_read E fd n) tr = (Some (take k (drop (consumed fd tr) s)), tr') \<and>
    consumed fd tr' = consumed fd tr + k"
proof -
  let ?d = "drop (consumed fd tr) s"
  obtain k where k: "0 < k" "k \<le> n" "env_read E tr fd n = Some (take k ?d)"
    using assms unfolding delivers_def by blast
  let ?k = "min k (length ?d)"
  have "take k ?d = take ?k ?d" by (simp add: min_def)
  then have "env_read E tr fd n = Some (take ?k ?d)" using k(3) by metis
  moreover have "0 < ?k" "?k \<le> n" "consumed fd tr + ?k \<le> length s" using k assms by auto
  ultimately show ?thesis
    by (intro exI [of _ ?k] exI [of _ "Net (Read fd n (Some (take ?k ?d))) # tr"])
      (simp add: c_read_def ext_call_def Let_def)
qed

lemma read_full_loop_delivers:
  assumes "delivers E fd s" "length got \<le> n" "consumed fd tr + (n - length got) \<le> length s"
  shows "\<exists>tr'. read_full_loop E fd n got tr =
      (Some (got @ take (n - length got) (drop (consumed fd tr) s)), tr') \<and>
    consumed fd tr' = consumed fd tr + (n - length got)"
  using assms
proof (induction E fd n got tr rule: read_full_loop.induct)
  case (1 E fd n got tr)
  show ?case
  proof (cases "length got < n")
    case True
    let ?m = "n - length got" and ?c = "consumed fd tr"
    from True "1.prems" have "0 < ?m" "?c < length s" by auto
    from c_read_delivers [OF "1.prems"(1) this]
    obtain k tr1 where k: "0 < k" "k \<le> ?m" "?c + k \<le> length s"
      and run: "run_state (c_read E fd ?m) tr = (Some (take k (drop ?c s)), tr1)"
      and c1: "consumed fd tr1 = ?c + k" by blast
    let ?bs = "take k (drop ?c s)"
    have lb: "length ?bs = k" and ne: "?bs \<noteq> []" using k by auto
    have "\<exists>tr'. read_full_loop E fd n (got @ ?bs) tr1 =
        (Some ((got @ ?bs) @ take (n - length (got @ ?bs)) (drop (consumed fd tr1) s)), tr') \<and>
      consumed fd tr' = consumed fd tr1 + (n - length (got @ ?bs))"
      by (rule "1.IH" [OF True run [symmetric] refl ne "1.prems"(1)])
        (use k "1.prems"(3) True c1 lb in auto)
    moreover have "?bs @ take (n - length (got @ ?bs)) (drop (consumed fd tr1) s) = take ?m (drop ?c s)"
      using take_drop_split [OF k(2), of "drop ?c s"] lb c1 by (simp add: add.commute)
    ultimately show ?thesis
      using True run ne k(2) c1 lb by (auto simp: read_full_loop.simps [of E fd n got tr])
  next
    case False
    with "1.prems"(2) show ?thesis by (simp add: read_full_loop.simps [of E fd n got tr])
  qed
qed

text \<open>However the stream is split into segments, \<open>read_full\<close> returns its next n bytes.\<close>

lemma read_full_wp:
  assumes "delivers E fd s" "consumed fd tr + n \<le> length s"
    and "\<And>tr'. consumed fd tr' = consumed fd tr + n \<Longrightarrow>
      Q (Some (take n (drop (consumed fd tr) s))) tr'"
  shows "wp (read_full E fd n) Q tr"
  using read_full_loop_delivers [OF assms(1), of "[]" n tr] assms(2,3)
  by (auto simp: wp_def read_full_def)

subsection \<open>RFC 6455 frames\<close>

fun be_bytes :: "nat \<Rightarrow> nat \<Rightarrow> byte list" where
  "be_bytes 0 n = []"
| "be_bytes (Suc k) n = be_bytes k (n div 256) @ [word_of_nat (n mod 256)]"

definition len_field :: "bool \<Rightarrow> nat \<Rightarrow> byte list" where
  "len_field msk n =
     (let b = (if msk then 0x80 else 0 :: byte)
      in if n < 126 then [b OR word_of_nat n]
         else if n < 65536 then (b OR 126) # be_bytes 2 n
         else (b OR 127) # be_bytes 8 n)"

definition ws_frame :: "byte \<Rightarrow> byte list option \<Rightarrow> byte list \<Rightarrow> byte list" where
  "ws_frame opcode key payload =
     (0x80 OR opcode) # len_field (key \<noteq> None) (length payload) @
     (case key of None \<Rightarrow> payload | Some k \<Rightarrow> k @ mask_bytes k payload)"

lemma length_mask_bytes [simp]: "length (mask_bytes k bs) = length bs"
  by (simp add: mask_bytes_def)

lemma mask_bytes_involution [simp]: "mask_bytes k (mask_bytes k bs) = bs"
  by (rule nth_equalityI) (simp_all add: mask_bytes_def xor.assoc)

lemma length_be_bytes [simp]: "length (be_bytes k n) = k"
  by (induction k arbitrary: n) simp_all

lemma word_of_nat_byte_or:
  assumes "r < 256"
  shows "push_bit 8 (word_of_nat m) OR word_of_nat r = (word_of_nat (256 * m + r) :: u64)"
proof -
  have high: "\<not> bit r n" if "8 \<le> n" for n
  proof -
    have "(2::nat) ^ 8 \<le> 2 ^ n" using that by (intro power_increasing) auto
    with assms show ?thesis by (simp add: bit_iff_odd)
  qed
  have "push_bit 8 (word_of_nat m :: u64) AND word_of_nat r = 0"
    by (rule bit_word_eqI) (auto simp: bit_simps high)
  then have "push_bit 8 (word_of_nat m) OR word_of_nat r = push_bit 8 (word_of_nat m :: u64) + word_of_nat r"
    by (simp add: disjunctive_add_eq_or)
  moreover have "push_bit 8 (word_of_nat m :: u64) = word_of_nat (256 * m)"
    by (simp add: push_bit_eq_mult)
  ultimately show ?thesis by simp
qed

lemma ext_len_be_bytes: "k \<le> 8 \<Longrightarrow> n < 256 ^ k \<Longrightarrow> ext_len (be_bytes k n) = word_of_nat n"
proof (induction k arbitrary: n)
  case 0
  then show ?case by (simp add: ext_len_def)
next
  case (Suc k)
  have "n div 256 < 256 ^ k" using Suc.prems(2) by (simp add: less_mult_imp_div_less mult.commute)
  then have IH: "ext_len (be_bytes k (n div 256)) = word_of_nat (n div 256)"
    using Suc by simp
  have "ext_len (be_bytes (Suc k) n)
      = push_bit 8 (word_of_nat (n div 256)) OR ucast (word_of_nat (n mod 256) :: byte)"
    using IH by (simp add: ext_len_def)
  also have "ucast (word_of_nat (n mod 256) :: byte) = (word_of_nat (n mod 256) :: u64)"
    by (simp add: unsigned_of_nat take_bit_nat_eq_self)
  also have "push_bit 8 (word_of_nat (n div 256)) OR word_of_nat (n mod 256)
      = (word_of_nat (256 * (n div 256) + n mod 256) :: u64)"
    by (rule word_of_nat_byte_or) simp
  finally show ?case by simp
qed

lemma len_byte_table:
  "list_all (\<lambda>n. (word_of_nat n :: byte) AND 0x80 = 0 \<and> (word_of_nat n :: byte) AND 0x7F = word_of_nat n
     \<and> (0x80 OR word_of_nat n :: byte) AND 0x80 \<noteq> 0
     \<and> (0x80 OR word_of_nat n :: byte) AND 0x7F = word_of_nat n) [0..<128]"
  by code_simp

lemma len_byte:
  assumes "n < 128"
  shows "((if msk then 0x80 else 0) OR word_of_nat n :: byte) AND 0x80 \<noteq> 0 \<longleftrightarrow> msk"
    "((if msk then 0x80 else 0) OR word_of_nat n :: byte) AND 0x7F = word_of_nat n"
  using assms len_byte_table by (auto simp: list_all_iff)

lemma opcode_table:
  "list_all (\<lambda>n. (0x80 OR word_of_nat n :: byte) AND 0x0F = word_of_nat n) [0..<16]"
  by code_simp

lemma opcode_byte:
  assumes "unat op < 16"
  shows "(0x80 OR op :: byte) AND 0x0F = op"
  using opcode_table assms by (auto simp: list_all_iff dest: bspec [of _ _ "unat op"])

lemma be_bytes_2:
  assumes "n < 65536"
  shows "be_bytes 2 n = [ucast (drop_bit 8 (word_of_nat n :: u64) AND 0xFF),
    ucast ((word_of_nat n :: u64) AND 0xFF)]"
proof -
  have m: "w AND 0xFF = take_bit 8 w" for w :: u64
    by (simp add: take_bit_eq_mask mask_eq_exp_minus_1)
  have "ucast (drop_bit 8 (word_of_nat n :: u64) AND 0xFF) = (word_of_nat (n div 256) :: byte)"
    "ucast ((word_of_nat n :: u64) AND 0xFF) = (word_of_nat (n mod 256) :: byte)"
    using assms
    by (simp_all add: m word_unat_eq_iff unsigned_ucast_eq unsigned_take_bit_eq unsigned_of_nat
        take_bit_nat_eq_self drop_bit_eq_div unat_div_distrib take_bit_nat_def)
  then show ?thesis
    using assms by (simp add: numeral_2_eq_2 less_mult_imp_div_less)
qed

subsection \<open>Sending\<close>

lemma written_append_write:
  "written fd (Net (Write fd bs (int (length bs))) # tr) = written fd tr @ bs"
  by simp

lemma rand_bytes_written:
  "wp (rand_bytes E n) (\<lambda>bs tr'. length bs = n \<and> written fd tr' = written fd tr) tr"
proof (induction n arbitrary: tr)
  case 0
  then show ?case by (simp add: wp_rules)
next
  case (Suc n)
  show ?case
    using wp_mono [OF Suc, of "Sys (Rand (env_rand E tr)) # tr"]
    by (simp add: wp_rules call_defs Let_def)
qed

lemma ws_send_tail:
  assumes "n = length bs"
  shows "wp (do {
        w \<leftarrow> c_write E fd hdr;
        if w \<noteq> int (length hdr) then ret False
        else do {
          m \<leftarrow> c_malloc E n;
          case m of
            None \<Rightarrow> ret False
          | Some h \<Rightarrow> do { w \<leftarrow> c_write E fd bs; c_free h; ret (w = int n) }
        }
      }) (\<lambda>ok tr'. ok \<longrightarrow> written fd tr' = written fd tr @ hdr @ bs) tr"
  using assms by (auto simp: wp_rules call_defs release_defs Let_def)

lemma client_frame:
  assumes "length bs < 65536"
  shows "([0x81] @ (if length bs < 126 then [0x80 OR word_of_nat (length bs)]
           else [0x80 OR 126, ucast (drop_bit 8 (word_of_nat (length bs) :: u64) AND 0xFF),
                 ucast ((word_of_nat (length bs) :: u64) AND 0xFF)])) @ key @ mask_bytes key bs
    = ws_frame 1 (Some key) bs"
  using assms by (simp add: ws_frame_def len_field_def be_bytes_2)

text \<open>
  Whatever the network and the allocator do: when \<open>ws_send_text\<close> reports success, what it
  wrote is one complete masked text frame of the message.
\<close>

lemma ws_send_text_frame:
  "wp (ws_send_text E fd msg)
     (\<lambda>ok tr'. ok \<longrightarrow> (\<exists>key. length key = 4 \<and>
        written fd tr' = written fd tr @ ws_frame 1 (Some key) (bytes_of msg))) tr"
proof (cases "65536 \<le> length msg")
  case True
  then show ?thesis by (simp add: ws_send_text_def wp_rules)
next
  case False
  then have len: "length (bytes_of msg) < 65536" by simp
  have n: "length msg = length (mask_bytes key (bytes_of msg))" for key by simp
  from False have nb: "(65536 \<le> length msg) = False" by simp
  show ?thesis
    unfolding ws_send_text_def Let_def nb if_False wp_bind [of "rand_bytes E 4"]
    apply (rule wp_mono [OF rand_bytes_written [where fd = fd]])
    apply (rule wp_mono [OF ws_send_tail [OF n]])
    subgoal for key t ok t'
      using client_frame [OF len, of key] by auto
    done
qed

subsection \<open>Receiving\<close>

text \<open>A result always fits the caller's buffer, with room for the terminating NUL.\<close>

lemma read_full_loop_length:
  "length got \<le> n \<Longrightarrow> read_full_loop E fd n got tr = (Some bs, tr') \<Longrightarrow> length bs = n"
proof (induction E fd n got tr rule: read_full_loop.induct)
  case (1 E fd n got tr)
  show ?case
  proof (cases "length got < n")
    case False
    with 1(2,3) show ?thesis by (simp add: read_full_loop.simps [of E fd n got tr])
  next
    case True
    then obtain xs tr1 where r: "run_state (c_read E fd (n - length got)) tr = (Some xs, tr1)" "xs \<noteq> []"
      and rec: "read_full_loop E fd n (got @ xs) tr1 = (Some bs, tr')"
      using 1(3) by (auto simp: read_full_loop.simps [of E fd n got tr] split: prod.splits option.splits if_splits)
    from r(1) have "length xs \<le> n - length got"
      by (auto simp: c_read_def ext_call_def Let_def)
    with True have "length (got @ xs) \<le> n" by simp
    from 1(1) [OF True r(1) [symmetric] refl r(2) this rec] show ?thesis .
  qed
qed

lemma read_full_length: "wp (read_full E fd n) (\<lambda>r _. \<forall>bs. r = Some bs \<longrightarrow> length bs = n) tr"
  using read_full_loop_length [of "[]" n E fd tr]
  by (auto simp: wp_def read_full_def split: prod.splits)

lemma read_full_chunk:
  assumes "delivers E fd (pre @ bs @ rest)" "consumed fd tr = length pre" "n = length bs"
    and "\<And>tr'. consumed fd tr' = length pre + length bs \<Longrightarrow> Q (Some bs) tr'"
  shows "wp (read_full E fd n) Q tr"
  by (rule read_full_wp [OF assms(1)]) (use assms(2-4) in auto)

text \<open>The payload itself, after the masking key.\<close>

lemma ws_recv_body:
  assumes "delivers E fd (pre @ body @ rest)" "consumed fd tr = length pre"
    and "n = word_of_nat (length body)" "length body < 2 ^ 64"
    and "\<And>tr'. consumed fd tr' = length pre + length body \<Longrightarrow> Q (Some body) tr'"
  shows "wp (if 0 < (n :: u64) then read_full E fd (unat n) else ret (Some [])) Q tr"
proof (cases "body = []")
  case True
  with assms(2,3,5) show ?thesis by (simp add: wp_rules)
next
  case False
  have u: "unat n = length body"
    using assms(3,4) by (simp add: unsigned_of_nat take_bit_nat_eq_self)
  with False have "0 < n" by (simp add: word_greater_zero_iff)
      (metis length_0_conv unat_0)
  with u show ?thesis
    by (simp) (rule read_full_chunk [OF assms(1,2)], use assms(5) in auto)
qed

lemma ws_recv_payload_frame:
  assumes "delivers E fd (pre @ (case key of None \<Rightarrow> payload | Some k \<Rightarrow> k @ mask_bytes k payload) @ rest)"
    and "consumed fd tr = length pre"
    and "length payload < bufsize" "length payload < 2 ^ 64" "opcode \<noteq> 8"
    and "\<And>k. key = Some k \<Longrightarrow> length k = 4"
  shows "wp (ws_recv_payload E fd bufsize opcode (key \<noteq> None) (word_of_nat (length payload)))
    (\<lambda>r tr'. r = Some payload \<and> consumed fd tr' = length pre +
       length (case key of None \<Rightarrow> payload | Some k \<Rightarrow> k @ mask_bytes k payload)) tr"
proof -
  have u: "unat (word_of_nat (length payload) :: u64) = length payload"
    using assms(4) by (simp add: unsigned_of_nat take_bit_nat_eq_self)
  show ?thesis
  proof (cases key)
    case None
    with assms u show ?thesis
      unfolding ws_recv_payload_def
      by (simp add: wp_bind wp_return ws_recv_body [where rest = rest])
  next
    case (Some k)
    then have k: "length k = 4" using assms(6) by simp
    have d: "delivers E fd (pre @ k @ mask_bytes k payload @ rest)"
      "delivers E fd ((pre @ k) @ mask_bytes k payload @ rest)"
      using assms(1) Some by simp_all
    have t: "(key \<noteq> None) = True" "(opcode = 8) = False"
      "(bufsize \<le> unat (word_of_nat (length payload) :: u64)) = False"
      using Some assms(3,5) u by simp_all
    show ?thesis
      unfolding ws_recv_payload_def Let_def t if_True if_False wp_bind
      apply (rule read_full_chunk [OF d(1) assms(2)])
       apply (simp add: k)
      apply (simp only: option.case wp_bind)
      apply (rule ws_recv_body [OF d(2)])
         apply (use assms(4) Some in \<open>simp_all add: wp_rules\<close>)
      done
  qed
qed

text \<open>The two bytes of a frame that every reader starts with, and the extended length.\<close>

lemma ucast_len7:
  assumes "n < 128"
  shows "(ucast (word_of_nat n :: byte) :: u64) = word_of_nat n"
  using assms by (simp add: unsigned_of_nat take_bit_nat_eq_self)

lemma word_of_nat_126: "n < 126 \<Longrightarrow> (word_of_nat n :: u64) \<noteq> 126 \<and> (word_of_nat n :: u64) \<noteq> 127"
  by (auto simp: word_unat_eq_iff unsigned_of_nat take_bit_nat_eq_self)

lemma ext_len_2: "push_bit 8 (ucast (be_bytes 2 n ! 0)) OR ucast (be_bytes 2 n ! 1) = ext_len (be_bytes 2 n)"
  by (simp add: ext_len_def numeral_2_eq_2)

text \<open>The seven-bit length of the second byte, and what follows it for longer payloads.\<close>

definition len7_of :: "nat \<Rightarrow> nat" where
  "len7_of n = (if n < 126 then n else if n < 65536 then 126 else 127)"

definition ext_of :: "nat \<Rightarrow> byte list" where
  "ext_of n = (if n < 126 then [] else if n < 65536 then be_bytes 2 n else be_bytes 8 n)"

lemma len_field_split:
  "len_field msk n = ((if msk then 0x80 else 0) OR word_of_nat (len7_of n)) # ext_of n"
  by (simp add: len_field_def len7_of_def ext_of_def Let_def)

lemma len7_of_less: "len7_of n < 128"
  by (simp add: len7_of_def)

lemma ws_recv_len_ok:
  assumes "delivers E fd (pre @ ext_of n @ rest)" "consumed fd tr = length pre" "n < 2 ^ 64"
    and "\<And>tr'. consumed fd tr' = length pre + length (ext_of n) \<Longrightarrow> Q (Some (word_of_nat n)) tr'"
  shows "wp (ws_recv_len E fd (word_of_nat (len7_of n))) Q tr"
proof -
  consider "n < 126" | "126 \<le> n" "n < 65536" | "65536 \<le> n" by linarith
  then show ?thesis
  proof cases
    case 1
    then show ?thesis
      using assms(2,4) word_of_nat_126 [OF 1]
      by (simp add: ws_recv_len_def len7_of_def ext_of_def wp_rules)
  next
    case 2
    then have x: "ext_of n = be_bytes 2 n" and l: "len7_of n = 126"
      by (simp_all add: ext_of_def len7_of_def)
    have e: "push_bit 8 (ucast (be_bytes 2 n ! 0)) OR ucast (be_bytes 2 n ! 1) = (word_of_nat n :: u64)"
      unfolding ext_len_2 using 2 by (simp add: ext_len_be_bytes)
    show ?thesis
      using assms(4) e
      by (simp add: ws_recv_len_def l wp_bind)
        (rule read_full_chunk [OF assms(1,2)], simp_all add: x wp_rules)
  next
    case 3
    then have x: "ext_of n = be_bytes 8 n" and l: "len7_of n = 127"
      by (simp_all add: ext_of_def len7_of_def)
    have e: "ext_len (be_bytes 8 n) = word_of_nat n"
      by (rule ext_len_be_bytes) (use assms(3) in simp_all)
    show ?thesis
      using assms(4) e
      by (simp add: ws_recv_len_def l wp_bind)
        (rule read_full_chunk [OF assms(1,2)], simp_all add: x wp_rules)
  qed
qed

text \<open>
  A frame the peer sends is received whole: the result is its payload, unmasked, and exactly
  the frame's bytes have been taken from the stream.
\<close>

lemma ws_recv_text_frame:
  assumes d: "delivers E fd (pre @ ws_frame op key payload @ rest)"
    and c: "consumed fd tr = length pre"
    and fits: "length payload < bufsize" "length payload < 2 ^ 64"
    and op: "unat op < 16" "op \<noteq> 8"
    and key: "\<And>k. key = Some k \<Longrightarrow> length k = 4"
  shows "wp (ws_recv_text E fd bufsize)
    (\<lambda>r tr'. r = Some payload \<and> consumed fd tr' = length pre + length (ws_frame op key payload)) tr"
proof -
  let ?n = "length payload"
  define msk where "msk = (key \<noteq> None)"
  define body where "body = (case key of None \<Rightarrow> payload | Some k \<Rightarrow> k @ mask_bytes k payload)"
  let ?h = "[0x80 OR op, (if msk then 0x80 else 0) OR word_of_nat (len7_of ?n)]"
  have f: "ws_frame op key payload = ?h @ ext_of ?n @ body"
    by (simp add: ws_frame_def len_field_split msk_def body_def)
  have d1: "delivers E fd (pre @ ?h @ ext_of ?n @ body @ rest)"
    and d2: "delivers E fd ((pre @ ?h) @ ext_of ?n @ body @ rest)"
    and d3: "delivers E fd ((pre @ ?h @ ext_of ?n) @ body @ rest)"
    using d by (simp_all add: f)
  have recv: "wp (ws_recv_payload E fd bufsize op msk (word_of_nat ?n))
      (\<lambda>r tr'. r = Some payload \<and> consumed fd tr' = length pre + length (ws_frame op key payload)) t"
    if "consumed fd t = length (pre @ ?h @ ext_of ?n)" for t
    unfolding msk_def
    by (rule wp_mono [OF ws_recv_payload_frame [OF d3 [unfolded body_def] that fits op(2) key]])
      (simp_all add: f body_def)
  note hdr = opcode_byte [OF op(1)] len_byte [OF len7_of_less] ucast_len7 [OF len7_of_less]
  show ?thesis
    unfolding ws_recv_text_def Let_def wp_bind
    apply (rule read_full_chunk [OF d1 c])
     apply simp
    apply (simp only: option.case nth_Cons_0 nth_Cons_Suc One_nat_def hdr wp_bind)
    apply (rule ws_recv_len_ok [OF d2])
      apply (use fits(2) recv in simp_all)
    done
qed

subsection \<open>The channel interface\<close>

text \<open>
  What the protocol layer relies on: a message that was sent with success is on the wire as
  one unit, and a unit on the wire is received as that message, whatever surrounds it.
\<close>

locale message_channel =
  fixes send :: "env \<Rightarrow> nat \<Rightarrow> string \<Rightarrow> bool io"
    and recv :: "env \<Rightarrow> nat \<Rightarrow> nat \<Rightarrow> byte list option io"
    and wire :: "byte list \<Rightarrow> string \<Rightarrow> byte list"
    and good_key :: "byte list \<Rightarrow> bool"
  assumes send_wire: "wp (send E fd msg)
      (\<lambda>ok tr'. ok \<longrightarrow> (\<exists>key. good_key key \<and> written fd tr' = written fd tr @ wire key msg)) tr"
    and recv_wire: "delivers E fd (pre @ wire key msg @ rest) \<Longrightarrow> consumed fd tr = length pre \<Longrightarrow>
      good_key key \<Longrightarrow> length msg < bufsize \<Longrightarrow> length msg < 2 ^ 64 \<Longrightarrow>
      wp (recv E fd bufsize)
        (\<lambda>r tr'. r = Some (bytes_of msg) \<and> consumed fd tr' = length pre + length (wire key msg)) tr"
    and send_keeps: "holds KFd fd L \<Longrightarrow> keeps L (send E fd msg)"
    and recv_keeps: "holds KFd fd L \<Longrightarrow> keeps L (recv E fd bufsize)"
begin

lemma round_trip:
  assumes "run_state (send E fd msg) tr = (True, tr1)"
    and "delivers E' fd' (pre @ drop (length (written fd tr)) (written fd tr1) @ rest)"
    and "consumed fd' tr2 = length pre" "length msg < bufsize" "length msg < 2 ^ 64"
  shows "wp (recv E' fd' bufsize) (\<lambda>r _. r = Some (bytes_of msg)) tr2"
proof -
  from wp_run [OF send_wire assms(1)]
  obtain key where key: "good_key key" "written fd tr1 = written fd tr @ wire key msg" by auto
  then have "drop (length (written fd tr)) (written fd tr1) = wire key msg" by simp
  with assms(2) have "delivers E' fd' (pre @ wire key msg @ rest)" by simp
  from recv_wire [OF this assms(3) key(1) assms(4,5)] show ?thesis
    by (rule wp_mono) simp
qed

end

interpretation ws: message_channel ws_send_text ws_recv_text
  "\<lambda>key msg. ws_frame 1 (Some key) (bytes_of msg)" "\<lambda>key. length key = 4"
proof unfold_locales
  fix E fd msg tr
  show "wp (ws_send_text E fd msg)
      (\<lambda>ok tr'. ok \<longrightarrow> (\<exists>key. length key = 4 \<and>
         written fd tr' = written fd tr @ ws_frame 1 (Some key) (bytes_of msg))) tr"
    by (rule ws_send_text_frame)
next
  fix E fd pre key rest tr bufsize and msg :: string
  assume "delivers E fd (pre @ ws_frame 1 (Some key) (bytes_of msg) @ rest)"
    "consumed fd tr = length pre" "length key = 4" "length msg < bufsize" "length msg < 2 ^ 64"
  then show "wp (ws_recv_text E fd bufsize)
      (\<lambda>r tr'. r = Some (bytes_of msg) \<and>
         consumed fd tr' = length pre + length (ws_frame 1 (Some key) (bytes_of msg))) tr"
    by (intro ws_recv_text_frame) auto
qed (auto intro: keeps_ws_send_text keeps_ws_recv_text)

subsection \<open>Properties\<close>

text \<open>
  C8: a frame that \<^verbatim>\<open>ws_send_text\<close> sends with success, delivered to a peer in pieces of any
  size, is received by \<^verbatim>\<open>ws_recv_text\<close> as exactly the message, whatever was read before and
  whatever follows, when the message fits the receiver's buffer.
\<close>

theorem ws_send_recv_round_trip:
  assumes "run_state (ws_send_text E fd msg) tr = (True, tr1)"
    and "delivers E' fd' (pre @ drop (length (written fd tr)) (written fd tr1) @ rest)"
    and "consumed fd' tr2 = length pre" "length msg < bufsize" "length msg < 2 ^ 64"
  shows "wp (ws_recv_text E' fd' bufsize) (\<lambda>r _. r = Some (bytes_of msg)) tr2"
  by (rule ws.round_trip [OF assms])

text \<open>The frame of a sample message, and a peer that delivers it whole.\<close>

definition sample_frame :: "byte list" where
  "sample_frame = [0x81, 0x82, 0, 0, 0, 0, 0x68, 0x69]"

definition sample_peer :: env where
  "sample_peer = sample_env\<lparr>env_read := (\<lambda>tr fd n. Some (take n (drop (consumed fd tr) sample_frame)))\<rparr>"

lemma sample_peer_delivers: "delivers sample_peer 3 sample_frame"
  unfolding delivers_def by (auto simp: sample_peer_def intro!: exI)

lemma sample_rand:
  "run_state (rand_bytes sample_env 4) tr = ([0, 0, 0, 0], replicate 4 (Sys (Rand 0)) @ tr)"
  by (simp add: eval_nat_numeral c_rand_byte_def ext_call_def sample_env_def Let_def)

lemma sample_mask: "mask_bytes [0, 0, 0, 0] (bytes_of ''hi'') = [0x68, 0x69]"
  by code_simp

lemma sample_send:
  "\<exists>tr1. run_state (ws_send_text sample_env 3 ''hi'') [] = (True, tr1) \<and> written 3 tr1 = sample_frame"
  by (simp add: ws_send_text_def sample_rand sample_mask Let_def call_defs c_free_def ext_call_def)
    (simp add: sample_env_def sample_frame_def eval_nat_numeral)

theorem ws_send_recv_round_trip_witness:
  "wp (ws_recv_text sample_peer 3 1024) (\<lambda>r _. r = Some (bytes_of ''hi'')) []"
proof -
  obtain tr1 where "run_state (ws_send_text sample_env 3 ''hi'') [] = (True, tr1)"
    "written 3 tr1 = sample_frame"
    using sample_send by blast
  with sample_peer_delivers show ?thesis
    using ws_send_recv_round_trip [of sample_env 3 "''hi''" "[]" tr1 sample_peer 3 "[]" "[]" "[]" 1024]
    by (simp add: consumed_def)
qed

lemma read_full_yields: "yields (\<lambda>r. \<forall>bs. r = Some bs \<longrightarrow> length bs = n) (read_full E fd n)"
  by (simp add: yields_def read_full_length)

lemma ws_recv_text_fits:
  "yields (\<lambda>r. \<forall>bs. r = Some bs \<longrightarrow> length bs < bufsize) (ws_recv_text E fd bufsize)"
proof -
  let ?post = "\<lambda>r. \<forall>bs. r = Some bs \<longrightarrow> length bs < bufsize"
  have body: "yields (\<lambda>r. \<forall>bs. r = Some bs \<longrightarrow> length bs = unat len)
      (if 0 < len then read_full E fd (unat len) else ret (Some []))" for len :: u64
    by (auto intro!: read_full_yields yields_returnI simp: word_gt_0)
  have rest: "yields ?post (do {
      payload \<leftarrow> (if 0 < len then read_full E fd (unat len) else ret (Some []));
      case payload of
        None \<Rightarrow> ret None
      | Some payload \<Rightarrow>
          if opcode = 0x8 then ret None else ret (Some (if masked then mask_bytes key payload else payload)) })"
    if "\<not> bufsize \<le> unat len" for len :: u64 and opcode :: byte and masked key
    by (rule yields_bind_post [OF body]) (use that in \<open>auto intro!: yields_returnI split: option.split\<close>)
  have "yields ?post (ws_recv_payload E fd bufsize opcode masked len)" for opcode masked len
    unfolding ws_recv_payload_def Let_def
    apply (rule yields_bindI)
    subgoal for key
      by (cases key; cases "bufsize \<le> unat len")
        (simp_all only: option.case if_True if_False rest yields_returnI simp_thms option.distinct)
    done
  then show ?thesis
    unfolding ws_recv_text_def Let_def
    by (auto intro!: yields_bindI yields_returnI split: option.split)
qed

text \<open>
  C29: whatever the peer sends, a message that \<^verbatim>\<open>ws_recv_text\<close> returns fits the caller's buffer
  with room for the terminating NUL.
\<close>

theorem ws_recv_text_bounded:
  "wp (ws_recv_text E fd bufsize) (\<lambda>r _. case r of None \<Rightarrow> True | Some bs \<Rightarrow> length bs < bufsize) tr"
  by (rule wp_mono [OF yields_wp [OF ws_recv_text_fits]]) (auto split: option.split)

text \<open>
  C28: for a URL of at most 362 characters, \<^verbatim>\<open>ws_dial\<close> reaches no undefined behaviour and leaves
  exactly one open descriptor when it succeeds and none when it fails, whatever the resolver and
  the peer answer.
\<close>

theorem ws_dial_contract:
  assumes "length url \<le> 362"
  shows "moves L (ws_dial E url eb) (\<lambda>r. (case r of Ok fd \<Rightarrow> [Res KFd fd []] | Fail _ \<Rightarrow> []) @ L)"
  using moves_ws_dial [OF assms, of L E eb] by (rule moves_cong) (simp split: result.split)

theorem ws_dial_contract_witness:
  "length ''ws://127.0.0.1:8901/rdma-ctrl'' \<le> 362 \<and>
   moves [] (ws_dial sample_env ''ws://127.0.0.1:8901/rdma-ctrl'' None)
     (\<lambda>r. (case r of Ok fd \<Rightarrow> [Res KFd fd []] | Fail _ \<Rightarrow> []) @ [])"
  by (rule conjI) (simp, rule ws_dial_contract, simp)

end
