(* ===== verification/S3Client.thy ===== *)
theory S3Client
  imports SigV4 WebSocket
begin

text \<open>
  The S3 client of \<^verbatim>\<open>s3client.c\<close>: signing a request for an object, setting up the curl
  handle, and the HEAD, GET and PUT requests of the single-object clients. The lemmas show that
  the signer computes the specified authorization, that the header list of a request is complete,
  and that every request gives back the handles it made.
\<close>

subsection \<open>Digests and keys\<close>

definition sha256_hex :: "env \<Rightarrow> byte list \<Rightarrow> string" where
  "sha256_hex E data = concat (map hex2 (sha256 E data))"

definition hmac_sha256 :: "env \<Rightarrow> byte list \<Rightarrow> byte list \<Rightarrow> byte list" where
  "hmac_sha256 E key data = hmac E key data"

definition derive_signing_key :: "env \<Rightarrow> string \<Rightarrow> string \<Rightarrow> string \<Rightarrow> byte list" where
  "derive_signing_key E secret date reg =
     (let kSecret = snprintf_str 160 (''AWS4'' @ secret);
          kDate = hmac_sha256 E (bytes_of kSecret) (bytes_of date);
          kRegion = hmac_sha256 E kDate (bytes_of reg);
          kService = hmac_sha256 E kRegion (bytes_of ''s3'')
      in hmac_sha256 E kService (bytes_of ''aws4_request''))"

subsection \<open>The host\<close>

definition host_from_endpoint :: "string \<Rightarrow> nat \<Rightarrow> string" where
  "host_from_endpoint ep hostlen =
     (let p = (case strstr ep ''://'' of Some p \<Rightarrow> drop 3 p | None \<Rightarrow> ep);
          n = (case strchr p CHR ''/'' of Some slash \<Rightarrow> length p - length slash | None \<Rightarrow> length p);
          n = (if hostlen \<le> n then hostlen - 1 else n)
      in take n p)"

subsection \<open>Canonical headers\<close>

type_synonym header_kv = "string \<times> string"

fun strcmp_le :: "string \<Rightarrow> string \<Rightarrow> bool" where
  "strcmp_le [] bs = True"
| "strcmp_le (a # as) [] = False"
| "strcmp_le (a # as) (b # bs) =
     ((of_char a :: nat) < of_char b \<or> a = b \<and> strcmp_le as bs)"

definition cmp_header :: "header_kv \<Rightarrow> header_kv \<Rightarrow> bool" where
  "cmp_header a b = strcmp_le (fst a) (fst b)"

text \<open>\<^verbatim>\<open>qsort\<close> with this comparison; no two headers of a request have the same name.\<close>

fun insert_header :: "header_kv \<Rightarrow> header_kv list \<Rightarrow> header_kv list" where
  "insert_header x [] = [x]"
| "insert_header x (y # ys) = (if cmp_header x y then x # y # ys else y # insert_header x ys)"

definition qsort_headers :: "header_kv list \<Rightarrow> header_kv list" where
  "qsort_headers hs = foldr insert_header hs []"

definition to_lower_inplace :: "string \<Rightarrow> string" where
  "to_lower_inplace s = map lower_char s"

fun header_loop ::
  "nat \<Rightarrow> header_kv list \<Rightarrow> string \<times> nat \<Rightarrow> string \<times> nat \<Rightarrow> (string \<times> string) option" where
  "header_loop i [] out sh = Some (fst out, fst sh)"
| "header_loop i ((k, v) # hs) out sh =
     (let keybuf = to_lower_inplace (take 127 k)
      in case snprintf_at 4096 out (keybuf @ '':'' @ v @ nl) of
           None \<Rightarrow> None
         | Some out' \<Rightarrow>
             (case snprintf_at 512 sh ((if i = 0 then [] else '';'') @ keybuf) of
                None \<Rightarrow> None
              | Some sh' \<Rightarrow> header_loop (Suc i) hs out' sh'))"

definition build_canonical_headers :: "header_kv list \<Rightarrow> (string \<times> string) option" where
  "build_canonical_headers hs = header_loop 0 (qsort_headers hs) ([], 0) ([], 0)"

subsection \<open>Signing\<close>

definition canonical_uri :: "string \<Rightarrow> string option \<Rightarrow> string" where
  "canonical_uri bucket key =
     (case key of
        None \<Rightarrow> snprintf_str 2048 (''/'' @ bucket)
      | Some k \<Rightarrow>
          if k = [] then snprintf_str 2048 (''/'' @ bucket)
          else snprintf_str 2048 (''/'' @ bucket @ ''/'' @ k))"

text \<open>Hashing \<open>len\<close> bytes of a buffer of \<open>cap\<close> bytes that holds the string.\<close>

definition c_hashed :: "nat \<Rightarrow> string \<times> nat \<Rightarrow> byte list io" where
  "c_hashed cap b = do {
     (if cap < snd b then emit (Undefined ''read past the end of a buffer'') else ret ());
     ret (take (snd b) (bytes_of (fst b @ [NUL])))
   }"

definition sign_request ::
  "env \<Rightarrow> s3_config \<Rightarrow> string \<Rightarrow> string \<Rightarrow> string option \<Rightarrow> nat \<Rightarrow> nat \<Rightarrow> nat \<Rightarrow> nat \<Rightarrow>
   (string \<times> string \<times> string \<times> string) io" where
  "sign_request E cfg mth bucket key hostlen amzdate_len hashlen authlen = do {
     let host = host_from_endpoint (endpoint cfg) hostlen;
     now \<leftarrow> c_time E;
     let tmv = gmtime now;
     amzdate \<leftarrow> c_strftime amzdate_len (amz_date tmv);
     datestamp \<leftarrow> c_strftime 16 (date_stamp tmv);
     let payload_hash = take (hashlen - 1) ''UNSIGNED-PAYLOAD'';
     let uri = canonical_uri bucket key;
     case build_canonical_headers [(''Host'', host), (''x-amz-date'', amzdate)] of
       None \<Rightarrow> do { emit (Undefined ''write past canonical_headers''); ret (host, amzdate, payload_hash, []) }
     | Some (canonical_headers, signed_hdrs) \<Rightarrow> do {
         creq \<leftarrow> c_hashed 8192 (snprintf 8192
           (mth @ nl @ uri @ nl @ nl @ canonical_headers @ nl @ signed_hdrs @ nl @ payload_hash));
         let creq_hash = sha256_hex E creq;
         let scope = snprintf_str 128 (datestamp @ ''/'' @ region cfg @ ''/s3/aws4_request'');
         sts \<leftarrow> c_hashed 4096 (snprintf 4096
           (''AWS4-HMAC-SHA256'' @ nl @ amzdate @ nl @ scope @ nl @ creq_hash));
         let signing_key = derive_signing_key E (secret_key cfg) datestamp (region cfg);
         let sighex = concat (map hex2 (hmac_sha256 E signing_key sts));
         ret (host, amzdate, payload_hash, snprintf_str authlen
           (''AWS4-HMAC-SHA256 Credential='' @ access_key cfg @ ''/'' @ scope @
            '', SignedHeaders='' @ signed_hdrs @ '', Signature='' @ sighex))
       }
   }"

subsection \<open>Requests\<close>

text \<open>The callbacks: what the body is passed to, the header lines, the empty body.\<close>

definition discard :: "byte list \<Rightarrow> nat" where
  "discard chunk = length chunk"

definition header_cb :: "string \<Rightarrow> int \<Rightarrow> int" where
  "header_cb b len =
     (if 15 < length b \<and> strncasecmp_eq b ''Content-Length:'' 15 then atoll (drop 15 b) else len)"

text \<open>
  libcurl passes a header line with its length and without a terminating NUL. \<^verbatim>\<open>atoll\<close> stops at the first character
  after the digits; when the line has none, it reads past the end of the line.
\<close>

definition number_ends :: "string \<Rightarrow> bool" where
  "number_ends s \<longleftrightarrow>
     (let t = dropWhile is_space s;
          u = (if t \<noteq> [] \<and> (hd t = CHR ''-'' \<or> hd t = CHR ''+'') then tl t else t)
      in dropWhile is_digit u \<noteq> [])"

definition complete_line :: "string \<Rightarrow> bool" where
  "complete_line b \<longleftrightarrow> (15 < length b \<and> strncasecmp_eq b ''Content-Length:'' 15 \<longrightarrow> number_ends (drop 15 b))"

fun read_headers :: "string list \<Rightarrow> unit io" where
  "read_headers [] = ret ()"
| "read_headers (b # bs) = do {
     (if complete_line b then ret () else emit (Undefined ''read past the end of a header line''));
     read_headers bs
   }"

definition empty_read :: "nat \<Rightarrow> nat \<Rightarrow> byte list" where
  "empty_read s n = []"

definition base_opts :: "string \<Rightarrow> slist \<Rightarrow> write_callback \<Rightarrow> curl_opts" where
  "base_opts url h cb = \<lparr>co_url = url, co_headers = slist_strings h, co_write = cb,
     co_header_cb = False, co_nobody = False, co_httpget = False, co_ignore_content_length = False,
     co_upload = False, co_infilesize = None, co_empty_read = False, co_customrequest = None,
     co_postfields = None, co_postfieldsize = None\<rparr>"

definition make_curl ::
  "env \<Rightarrow> s3_config \<Rightarrow> string \<Rightarrow> string option \<Rightarrow> string \<Rightarrow> (nat option \<times> curl_opts \<times> slist) io" where
  "make_curl E cfg bucket key mth = do {
     (host, amzdate, payload, auth) \<leftarrow> sign_request E cfg mth bucket key 256 64 64 2048;
     let url = snprintf_str 2048 (case key of
         None \<Rightarrow> endpoint cfg @ ''/'' @ bucket
       | Some k \<Rightarrow> if k = [] then endpoint cfg @ ''/'' @ bucket
                  else endpoint cfg @ ''/'' @ bucket @ ''/'' @ k);
     h \<leftarrow> c_slist_append E None (snprintf_str 512 (''Host: '' @ host));
     h \<leftarrow> c_slist_append E h (snprintf_str 512 (''x-amz-date: '' @ amzdate));
     h \<leftarrow> c_slist_append E h (snprintf_str 512 (''Authorization: '' @ auth));
     h \<leftarrow> c_slist_append E h ''Accept:'';
     c \<leftarrow> c_curl_init E;
     ret (c, base_opts url h Write_Discard, h)
   }"

definition failed_msg :: "env \<Rightarrow> string \<Rightarrow> curl_reply \<Rightarrow> string" where
  "failed_msg E mth r = mth @ '' failed: curl='' @ env_curl_strerror E (cr_code r) @
     '' http='' @ show_int (cr_http r)"

definition s3_head_object ::
  "env \<Rightarrow> s3_config \<Rightarrow> string \<Rightarrow> string option \<Rightarrow> nat \<Rightarrow> int result io" where
  "s3_head_object E cfg bucket key errlen = do {
     (c, opts, h) \<leftarrow> make_curl E cfg bucket key ''HEAD'';
     r \<leftarrow> c_perform E c (opts\<lparr>co_nobody := True, co_header_cb := True\<rparr>);
     read_headers (cr_headers r);
     let len = fold header_cb (cr_headers r) (- 1);
     let result = (if cr_code r \<noteq> 0 \<or> cr_http r \<noteq> 200
       then Fail (Some (snprintf_str errlen (failed_msg E ''HEAD'' r))) else Ok len);
     c_slist_free_all h;
     c_curl_cleanup c;
     ret result
   }"

text \<open>\<^verbatim>\<open>if (hn && hv)\<close>: the extra header of a request.\<close>

definition append_extra :: "env \<Rightarrow> (string \<times> string) option \<Rightarrow> curl_opts \<Rightarrow> slist \<Rightarrow> (curl_opts \<times> slist) io" where
  "append_extra E extra opts h =
     (case extra of
        None \<Rightarrow> ret (opts, h)
      | Some (hn, hv) \<Rightarrow> do {
          h \<leftarrow> c_slist_append E h (snprintf_str 512 (hn @ '': '' @ hv));
          ret (opts\<lparr>co_headers := slist_strings h\<rparr>, h)
        })"

definition s3_get_object ::
  "env \<Rightarrow> s3_config \<Rightarrow> string \<Rightarrow> string option \<Rightarrow> (string \<times> string) option \<Rightarrow> nat \<Rightarrow> unit result io" where
  "s3_get_object E cfg bucket key extra errlen = do {
     (c, opts, h) \<leftarrow> make_curl E cfg bucket key ''GET'';
     (opts, h) \<leftarrow> append_extra E extra (opts\<lparr>co_httpget := True, co_ignore_content_length := True\<rparr>) h;
     r \<leftarrow> c_perform E c opts;
     let result = (if cr_code r = 0 \<and> cr_http r = 200 then Ok ()
       else Fail (Some (snprintf_str errlen (failed_msg E ''GET'' r))));
     c_slist_free_all h;
     c_curl_cleanup c;
     ret result
   }"

definition s3_put_object ::
  "env \<Rightarrow> s3_config \<Rightarrow> string \<Rightarrow> string option \<Rightarrow> (string \<times> string) option \<Rightarrow> nat \<Rightarrow> unit result io" where
  "s3_put_object E cfg bucket key extra errlen = do {
     (c, opts, h) \<leftarrow> make_curl E cfg bucket key ''PUT'';
     (opts, h) \<leftarrow> append_extra E extra opts h;
     r \<leftarrow> c_perform E c (opts\<lparr>co_upload := True, co_infilesize := Some 0, co_empty_read := True\<rparr>);
     let result = (if cr_code r = 0 \<and> (cr_http r = 200 \<or> cr_http r = 201) then Ok ()
       else Fail (Some (snprintf_str errlen (failed_msg E ''PUT'' r))));
     c_slist_free_all h;
     c_curl_cleanup c;
     ret result
   }"

subsection \<open>The signer computes the specified authorization\<close>

lemma strchr_takeWhile:
  "(case strchr p x of Some slash \<Rightarrow> length p - length slash | None \<Rightarrow> length p)
     = length (takeWhile (\<lambda>c. c \<noteq> x) p)"
proof (cases "strchr p x")
  case None
  then have "takeWhile (\<lambda>c. c \<noteq> x) p = p"
    using strchr_None [of p x] by (auto simp: takeWhile_eq_all_conv)
  then show ?thesis by (simp only: None option.case)
next
  case (Some slash)
  then obtain pre where "p = pre @ slash" "x \<notin> set pre" "hd slash = x" "slash \<noteq> []"
    using strchr_Some by blast
  with Some show ?thesis by (cases slash) (auto simp: takeWhile_append)
qed

lemma host_from_endpoint_ok:
  "length (host_of ep) < hostlen \<Longrightarrow> host_from_endpoint ep hostlen = host_of ep"
  by (simp add: host_from_endpoint_def host_of_def Let_def strchr_takeWhile takeWhile_eq_take [symmetric])

lemma length_host_from_endpoint: "0 < hostlen \<Longrightarrow> length (host_from_endpoint ep hostlen) < hostlen"
  by (auto simp: host_from_endpoint_def Let_def)

lemma qsort_host_date: "qsort_headers [(''Host'', h), (''x-amz-date'', d)] = [(''Host'', h), (''x-amz-date'', d)]"
  by (simp add: qsort_headers_def cmp_header_def)

lemma lower_names: "to_lower_inplace ''Host'' = ''host''" "to_lower_inplace ''x-amz-date'' = ''x-amz-date''"
  by code_simp+

lemma build_canonical_headers_ok:
  assumes "length h < 2000" "length d < 2000"
  shows "build_canonical_headers [(''Host'', h), (''x-amz-date'', d)] =
    Some (''host:'' @ h @ nl @ ''x-amz-date:'' @ d @ nl, ''host;x-amz-date'')"
  using assms
  by (simp add: build_canonical_headers_def qsort_host_date lower_names snprintf_at_def Let_def)

lemma canonical_uri_ok: "length (object_path bucket key) < 2048 \<Longrightarrow> canonical_uri bucket key = object_path bucket key"
  by (auto simp: canonical_uri_def object_path_def snprintf_fits split: option.splits if_splits)

lemma derive_signing_key_ok:
  "length secret \<le> 155 \<Longrightarrow> derive_signing_key E secret date reg = sigv4_key E secret date reg"
  by (simp add: derive_signing_key_def sigv4_key_def hmac_sha256_def Let_def snprintf_fits)

lemma c_hashed_fits: "length s < cap \<Longrightarrow> c_hashed cap (snprintf cap s) = ret (bytes_of s)"
  by (simp add: c_hashed_def snprintf_fits bytes_of_def)

text \<open>The fixed buffers of \<^verbatim>\<open>make_curl\<close>: 256, 64, 64 and 2048 bytes.\<close>

definition sign_plain ::
  "env \<Rightarrow> s3_config \<Rightarrow> string \<Rightarrow> string \<Rightarrow> string option \<Rightarrow> (string \<times> string \<times> string) io" where
  "sign_plain E cfg mth bucket key = do {
     (host, amzdate, payload, auth) \<leftarrow> sign_request E cfg mth bucket key 256 64 64 2048;
     ret (host, amzdate, auth)
   }"

lemma run_time: "run_state (c_time E) tr = (env_time E tr, Sys (Time (env_time E tr)) # tr)"
  by (simp add: c_time_def ext_call_def Let_def)

text \<open>
  The second half of a signer, for any query and any list of headers whose names are short: no buffer truncates its
  text, and the authorization is that of the specification.
\<close>

lemma signing_steps:
  assumes ok: "sig_ok cfg mth bucket key" and t: "current t" and names: "length (semicolons (map fst hdrs)) \<le> 30"
    and len: "length (sigv4_canonical_request mth uri q hdrs ''UNSIGNED-PAYLOAD'') < 8192"
  defines "amz \<equiv> amz_date (gmtime t)" and "date \<equiv> date_stamp (gmtime t)"
    and "creq \<equiv> sigv4_canonical_request mth uri q hdrs ''UNSIGNED-PAYLOAD''"
  defines "scope \<equiv> sigv4_scope date (region cfg)"
  shows "c_hashed 8192 (snprintf 8192 creq) = ret (bytes_of creq)"
    and "snprintf_str 128 (date @ ''/'' @ region cfg @ ''/s3/aws4_request'') = scope"
    and "c_hashed 4096 (snprintf 4096 (''AWS4-HMAC-SHA256'' @ nl @ amz @ nl @ scope @ nl @ sha256_hex E (bytes_of creq))) =
      ret (bytes_of (sigv4_string_to_sign E amz scope creq))"
    and "derive_signing_key E (secret_key cfg) date (region cfg) = sigv4_key E (secret_key cfg) date (region cfg)"
    and "snprintf_str 2048 (''AWS4-HMAC-SHA256 Credential='' @ access_key cfg @ ''/'' @ scope @
      '', SignedHeaders='' @ semicolons (map fst hdrs) @ '', Signature='' @
      concat (map hex2 (hmac_sha256 E (sigv4_key E (secret_key cfg) date (region cfg)) (bytes_of (sigv4_string_to_sign E amz scope creq))))) =
      sigv4_authorization E cfg (gmtime t) mth uri q hdrs"
proof -
  note lens = length_dates [OF t] length_scope [OF t, of "region cfg"]
  show "c_hashed 8192 (snprintf 8192 creq) = ret (bytes_of creq)"
    using c_hashed_fits [OF len] by (simp add: creq_def)
  show "snprintf_str 128 (date @ ''/'' @ region cfg @ ''/s3/aws4_request'') = scope"
    using ok lens(1) by (simp add: snprintf_fits sigv4_scope_def sig_ok_def scope_def date_def)
  have sts: "''AWS4-HMAC-SHA256'' @ nl @ amz @ nl @ scope @ nl @ sha256_hex E (bytes_of creq) = sigv4_string_to_sign E amz scope creq"
    by (simp add: sigv4_string_to_sign_def sha256_hex_def hex_def)
  have "length (sigv4_string_to_sign E amz scope creq) < 4096"
    using ok lens by (simp add: sigv4_string_to_sign_def sig_ok_def amz_def scope_def date_def)
  then show "c_hashed 4096 (snprintf 4096 (''AWS4-HMAC-SHA256'' @ nl @ amz @ nl @ scope @ nl @ sha256_hex E (bytes_of creq))) =
      ret (bytes_of (sigv4_string_to_sign E amz scope creq))"
    unfolding sts by (rule c_hashed_fits)
  show "derive_signing_key E (secret_key cfg) date (region cfg) = sigv4_key E (secret_key cfg) date (region cfg)"
    using ok by (simp add: sig_ok_def derive_signing_key_ok)
  show "snprintf_str 2048 (''AWS4-HMAC-SHA256 Credential='' @ access_key cfg @ ''/'' @ scope @
      '', SignedHeaders='' @ semicolons (map fst hdrs) @ '', Signature='' @
      concat (map hex2 (hmac_sha256 E (sigv4_key E (secret_key cfg) date (region cfg)) (bytes_of (sigv4_string_to_sign E amz scope creq))))) =
      sigv4_authorization E cfg (gmtime t) mth uri q hdrs"
    using ok lens names unfolding amz_def date_def creq_def scope_def
    by (subst snprintf_fits) (simp_all add: sigv4_authorization_def Let_def hmac_sha256_def sig_ok_def flip: hex_def)
qed

lemma sign_request_refines:
  assumes ok: "sig_ok cfg mth bucket key" and clock: "current_clock E"
  shows "run_state (sign_request E cfg mth bucket key 256 64 64 2048) tr =
    ((host_of (endpoint cfg), amz_date (gmtime (env_time E tr)), ''UNSIGNED-PAYLOAD'',
      sigv4_authorization E cfg (gmtime (env_time E tr)) mth (object_path bucket key) []
        (signed_headers cfg (gmtime (env_time E tr)))), Sys (Time (env_time E tr)) # tr)"
proof -
  let ?t = "env_time E tr"
  let ?host = "host_of (endpoint cfg)" and ?amz = "amz_date (gmtime ?t)"
  let ?uri = "object_path bucket key"
  let ?creq = "sigv4_canonical_request mth ?uri [] (signed_headers cfg (gmtime ?t)) ''UNSIGNED-PAYLOAD''"
  have t: "current ?t" using clock by (simp add: current_clock_def)
  note lens = length_dates [OF t] length_scope [OF t, of "region cfg"]
  have host: "host_from_endpoint (endpoint cfg) 256 = ?host" "length ?host < 256"
    using ok by (simp_all add: sig_ok_def host_from_endpoint_ok)
  have uri: "canonical_uri bucket key = ?uri" "length ?uri < 2048"
    using ok by (simp_all add: sig_ok_def canonical_uri_ok)
  have hdrs: "build_canonical_headers [(''Host'', ?host), (''x-amz-date'', ?amz)] =
      Some (''host:'' @ ?host @ nl @ ''x-amz-date:'' @ ?amz @ nl, ''host;x-amz-date'')"
    using host lens by (intro build_canonical_headers_ok) auto
  have names: "''host;x-amz-date'' = semicolons (map fst (signed_headers cfg (gmtime ?t)))"
    "length (semicolons (map fst (signed_headers cfg (gmtime ?t)))) \<le> 30"
    by (simp_all add: signed_headers_def)
  have creq: "mth @ nl @ ?uri @ nl @ nl @ (''host:'' @ ?host @ nl @ ''x-amz-date:'' @ ?amz @ nl) @ nl @
      ''host;x-amz-date'' @ nl @ ''UNSIGNED-PAYLOAD'' = ?creq"
    by (simp add: sigv4_canonical_request_def signed_headers_def)
  have "length ?creq < 8192"
    using ok host uri lens by (simp add: sigv4_canonical_request_def signed_headers_def sig_ok_def)
  note steps = signing_steps [OF ok t names(2) this]
  have payload: "take (64 - 1) ''UNSIGNED-PAYLOAD'' = ''UNSIGNED-PAYLOAD''" by simp
  have "wp (sign_request E cfg mth bucket key 256 64 64 2048) (\<lambda>r t'. (r, t') =
      ((?host, ?amz, ''UNSIGNED-PAYLOAD'', sigv4_authorization E cfg (gmtime ?t) mth ?uri []
        (signed_headers cfg (gmtime ?t))), Sys (Time ?t) # tr)) tr"
    by (simp only: sign_request_def Let_def wp_rules c_time_def fst_conv snd_conv host(1)
        strftime_dates [OF t] payload uri(1) hdrs option.case prod.case creq [unfolded names(1)] names(1) steps)
  then show ?thesis by (simp add: wp_def split: prod.splits)
qed

interpretation plain: signer sign_plain
  by unfold_locales (simp add: sign_plain_def sign_request_refines)

subsection \<open>Contracts\<close>

lemma time_current: "current_clock E \<Longrightarrow> wp (c_time E) (\<lambda>t _. current t) tr"
  by (simp add: current_clock_def c_time_def Let_def wp_rules)

text \<open>No buffer of the signer is overrun, whatever the lengths of its arguments.\<close>

lemma keeps_sign_request:
  assumes "current_clock E" "length mth \<le> 16"
  shows "keeps L (sign_request E cfg mth bucket key 256 64 64 2048)"
proof -
  have host: "length (host_from_endpoint (endpoint cfg) 256) < 256"
    by (rule length_host_from_endpoint) simp
  have uri: "length (canonical_uri bucket key) < 2048"
    by (auto simp: canonical_uri_def snprintf_def split: option.split)
  have main: "keeps L (case build_canonical_headers [(''Host'', host_from_endpoint (endpoint cfg) 256),
        (''x-amz-date'', amz)] of
       None \<Rightarrow> n
     | Some (canonical_headers, signed_hdrs) \<Rightarrow> do {
         creq \<leftarrow> c_hashed 8192 (snprintf 8192 (mth @ nl @ canonical_uri bucket key @ nl @ nl @
           canonical_headers @ nl @ signed_hdrs @ nl @ take (64 - 1) ''UNSIGNED-PAYLOAD''));
         sts \<leftarrow> c_hashed 4096 (snprintf 4096 (''AWS4-HMAC-SHA256'' @ nl @ amz @ nl @
           snprintf_str 128 scope @ nl @ sha256_hex E creq));
         ret (f signed_hdrs creq sts)
       })" if "length amz \<le> 16" for amz n scope f
  proof -
    have "length (snprintf_str 128 scope) < 128" by (rule snprintf_length) simp
    then show ?thesis
      using that host uri assms(2)
      by (auto simp: build_canonical_headers_ok c_hashed_fits sha256_hex_def hex_def [symmetric]
          intro!: moves_returnI)
  qed
  show ?thesis
    unfolding sign_request_def Let_def
    by (rule moves_bind_post [OF keeps_time time_current [OF assms(1)]])
      (simp add: strftime_dates main [simplified] length_dates)
qed

text \<open>The resources of a request: the handle, if there is one, and the header list.\<close>

definition curl_res :: "nat option \<Rightarrow> resource list" where
  "curl_res c = (case c of None \<Rightarrow> [] | Some x \<Rightarrow> [Res KCurl x []])"

lemma curl_res_parents: "\<forall>r \<in> set (curl_res c). parents r = []"
  by (auto simp: curl_res_def split: option.splits)

lemmas res_defs = slist_res_def curl_res_def

lemma moves_slist_first: "moves L (c_slist_append E None s) (\<lambda>r. slist_res r @ L)"
  using moves_slist_append [of None L E s] by simp

abbreviation request_res :: "nat option \<times> curl_opts \<times> slist \<Rightarrow> resource list" where
  "request_res q \<equiv> curl_res (fst q) @ slist_res (snd (snd q))"

lemma moves_make_curl:
  assumes "current_clock E" "length mth \<le> 16"
  shows "moves L (make_curl E cfg bucket key mth) (\<lambda>q. request_res q @ L)"
proof -
  have init: "moves M (c_curl_init E) (\<lambda>c. curl_res c @ M)" for M
    by (rule moves_cong [OF moves_curl_init]) (auto simp: res_defs split: option.splits)
  show ?thesis
    unfolding make_curl_def Let_def
    by (auto intro!: moves_bind [OF keeps_sign_request [OF assms]] moves_bind [OF moves_slist_append]
        moves_bind [OF moves_slist_first] moves_bind [OF init] moves_returnI)
qed

text \<open>A new header list, made because the first one was lost, lies above the handle.\<close>

definition extra_res :: "slist \<Rightarrow> nat option \<Rightarrow> slist \<Rightarrow> resource list" where
  "extra_res h0 c h = (if h0 = None then slist_res h @ curl_res c else curl_res c @ slist_res h)"

lemma moves_end_request:
  "moves (extra_res h0 c h @ L) (do { c_slist_free_all h; c_curl_cleanup c; ret x }) (\<lambda>_. L)"
  by (rule moves_wf, cases h; cases c; cases h0) (auto simp: res_defs extra_res_def intro!: moves_intros)

lemma moves_end_plain:
  "moves (curl_res c @ slist_res h @ L) (do { c_slist_free_all h; c_curl_cleanup c; ret x }) (\<lambda>_. L)"
  using moves_end_request [of "Some undefined" c h L x] by (simp add: extra_res_def)

lemma keeps_perform_request: "keeps (curl_res c @ L) (c_perform E c opts)"
  by (rule keeps_perform) (auto simp: res_defs)

lemma keeps_perform_extra: "keeps (extra_res h0 c h @ L) (c_perform E c opts)"
  by (rule keeps_perform) (auto simp: res_defs extra_res_def)

lemma moves_append_extra:
  "moves (curl_res c @ slist_res h @ L) (append_extra E extra opts h) (\<lambda>q. extra_res h c (snd q) @ L)"
proof (cases h)
  case None
  have "moves (curl_res c @ L) (do {
      h \<leftarrow> c_slist_append E None s; ret (opts\<lparr>co_headers := slist_strings h\<rparr>, h) }) (\<lambda>q. slist_res (snd q) @ curl_res c @ L)" for s
    by (rule moves_bind [OF moves_slist_first]) (simp add: moves_returnI)
  with None show ?thesis
    by (auto simp: append_extra_def extra_res_def intro!: moves_returnI split: option.split)
next
  case (Some x)
  have "moves (curl_res c @ slist_res (Some x) @ L) (do {
      h \<leftarrow> c_slist_append E (Some x) s; ret (opts\<lparr>co_headers := slist_strings h\<rparr>, h) }) (\<lambda>q. curl_res c @ slist_res (snd q) @ L)" for s
    by (rule moves_bind [OF moves_slist_extend [OF curl_res_parents]]) (simp add: moves_returnI)
  with Some show ?thesis
    by (auto simp: append_extra_def extra_res_def intro!: moves_returnI split: option.split)
qed

text \<open>
  libcurl passes complete header lines: after a number there is at least the end of the line.
\<close>

definition complete_headers :: "env \<Rightarrow> bool" where
  "complete_headers E \<longleftrightarrow> (\<forall>tr c opts. list_all complete_line (cr_headers (env_perform E tr c opts)))"

lemma keeps_read_headers: "list_all complete_line hs \<Longrightarrow> keeps L (read_headers hs)"
  by (induction hs) (auto intro!: moves_returnI)

lemma emits_read_headers: "(\<And>w. P (Undefined w)) \<Longrightarrow> emits P (read_headers hs)"
  by (induction hs) (auto intro!: emits_return emits_bind emits_ext_call)

lemma perform_lines:
  "complete_headers E \<Longrightarrow> wp (c_perform E c opts) (\<lambda>r _. list_all complete_line (cr_headers r)) tr"
  by (auto simp: complete_headers_def c_perform_def bad_handle_reply_def wp_rules Let_def split: option.split)

lemma keeps_s3_requests:
  assumes "current_clock E"
  shows "complete_headers E \<Longrightarrow> keeps L (s3_head_object E cfg bucket key errlen)"
    "keeps L (s3_get_object E cfg bucket key extra errlen)"
    "keeps L (s3_put_object E cfg bucket key extra errlen)"
proof -
  have start: "moves L (make_curl E cfg bucket key mth) (\<lambda>q. request_res q @ L)" if "length mth \<le> 16" for mth
    by (rule moves_make_curl [OF assms that])
  note rest = moves_bind [OF keeps_perform_extra] moves_end_request moves_bind [OF moves_append_extra]
  show "keeps L (s3_head_object E cfg bucket key errlen)" if "complete_headers E"
    unfolding s3_head_object_def Let_def
    by (rule moves_bind [OF start])
      (auto intro!: moves_bind_post [OF keeps_perform_request perform_lines [OF that]]
        moves_bind [OF keeps_read_headers] moves_end_plain)
  show "keeps L (s3_get_object E cfg bucket key extra errlen)"
    unfolding s3_get_object_def Let_def by (rule moves_bind [OF start]) (auto intro!: rest)
  show "keeps L (s3_put_object E cfg bucket key extra errlen)"
    unfolding s3_put_object_def Let_def by (rule moves_bind [OF start]) (auto intro!: rest)
qed

subsection \<open>The requests that are made\<close>

fun request_of :: "event \<Rightarrow> (curl_opts \<times> curl_reply) list" where
  "request_of (Curl (Perform _ opts r)) = [(opts, r)]"
| "request_of _ = []"

definition requests :: "trace \<Rightarrow> (curl_opts \<times> curl_reply) list" where
  "requests tr = concat (map request_of tr)"

lemma requests_Cons [simp]: "requests (e # tr) = request_of e @ requests tr"
  by (simp add: requests_def)

definition headers_alloc :: "env \<Rightarrow> bool" where
  "headers_alloc E \<longleftrightarrow> (\<forall>tr s. env_slist_append E tr s)"

text \<open>The signature is computed of the path and the query as they are given.\<close>

definition signed_lines :: "env \<Rightarrow> s3_config \<Rightarrow> string \<Rightarrow> string \<Rightarrow> string option \<Rightarrow> int \<Rightarrow> string list" where
  "signed_lines E cfg mth bucket key t =
     [''Host: '' @ host_of (endpoint cfg), ''x-amz-date: '' @ amz_date (gmtime t),
      ''Authorization: '' @ sigv4_authorization E cfg (gmtime t) mth (object_path bucket key) []
        (signed_headers cfg (gmtime t)), ''Accept:'']"

text \<open>The arguments for which no header and no URL is cut off.\<close>

definition request_ok :: "s3_config \<Rightarrow> string \<Rightarrow> string \<Rightarrow> string option \<Rightarrow> bool" where
  "request_ok cfg mth bucket key \<longleftrightarrow> sig_ok cfg mth bucket key \<and>
     length (access_key cfg) + length (region cfg) \<le> 330 \<and>
     length (endpoint cfg @ object_path bucket key) < 2048"

lemma wp_slist_append:
  assumes "headers_alloc E"
    and "\<And>h t'. requests t' = requests t \<Longrightarrow> Q (Some (h, slist_strings l @ [s])) t'"
  shows "wp (c_slist_append E l s) Q t"
  using assms by (auto simp: headers_alloc_def c_slist_append_def Let_def wp_rules slist_strings_def
      split: option.split)

lemma wp_curl_init: "(\<And>c t'. requests t' = requests t \<Longrightarrow> Q c t') \<Longrightarrow> wp (c_curl_init E) Q t"
  by (simp add: c_curl_init_def Let_def wp_rules)

lemma slist_strings_Some [simp]: "slist_strings (Some (h, ss)) = ss" "slist_strings None = []"
  by (simp_all add: slist_strings_def)

lemma wp_make_curl:
  assumes ok: "request_ok cfg mth bucket key" and env: "current_clock E" "headers_alloc E"
    and Q: "\<And>c h s t'. requests t' = requests t \<Longrightarrow> Q (c, base_opts (endpoint cfg @ object_path bucket key)
      (Some (h, signed_lines E cfg mth bucket key s)) Write_Discard,
      Some (h, signed_lines E cfg mth bucket key s)) t'"
  shows "wp (make_curl E cfg bucket key mth) Q t"
proof -
  let ?s = "env_time E t"
  let ?auth = "sigv4_authorization E cfg (gmtime ?s) mth (object_path bucket key) [] (signed_headers cfg (gmtime ?s))"
  have s: "current ?s" using env by (simp add: current_clock_def)
  have sig: "sig_ok cfg mth bucket key" using ok by (simp add: request_ok_def)
  have auth: "length (''Authorization: '' @ ?auth) < 512"
    using length_authorization [OF s, of E cfg mth "object_path bucket key" "[]"
        "signed_headers cfg (gmtime ?s)"] ok
    by (simp add: signed_headers_def request_ok_def)
  have lines: "snprintf_str 512 (''Host: '' @ host_of (endpoint cfg)) = ''Host: '' @ host_of (endpoint cfg)"
    "snprintf_str 512 (''x-amz-date: '' @ amz_date (gmtime ?s)) = ''x-amz-date: '' @ amz_date (gmtime ?s)"
    "snprintf_str 512 (''Authorization: '' @ ?auth) = ''Authorization: '' @ ?auth"
    using sig length_dates [OF s] auth by (simp_all add: snprintf_fits sig_ok_def)
  have url: "snprintf_str 2048 (case key of
      None \<Rightarrow> endpoint cfg @ ''/'' @ bucket
    | Some k \<Rightarrow> if k = [] then endpoint cfg @ ''/'' @ bucket else endpoint cfg @ ''/'' @ bucket @ ''/'' @ k)
      = endpoint cfg @ object_path bucket key"
    using ok by (auto simp: request_ok_def object_path_def snprintf_fits split: option.splits if_splits)
  have sign: "wp (sign_request E cfg mth bucket key 256 64 64 2048) P t =
      P (host_of (endpoint cfg), amz_date (gmtime ?s), ''UNSIGNED-PAYLOAD'', ?auth) (Sys (Time ?s) # t)" for P
    by (simp add: wp_def sign_request_refines [OF sig env(1)])
  show ?thesis
    unfolding make_curl_def Let_def wp_bind sign prod.case url lines
    by (rule wp_slist_append [OF env(2)])+
      (auto intro!: wp_slist_append [OF env(2)] wp_curl_init Q [where s = ?s, unfolded signed_lines_def, simplified]
        simp: wp_bind wp_return)
qed

lemma wp_end_request:
  "(\<And>t'. requests t' = requests t \<Longrightarrow> Q x t') \<Longrightarrow>
   wp (do { c_slist_free_all h; c_curl_cleanup c; ret x }) Q t"
  by (simp add: wp_rules c_slist_free_all_def c_curl_cleanup_def split: option.split prod.split)

lemma wp_perform:
  "(\<And>r t'. requests t' = (opts, r) # requests t \<Longrightarrow> Q r t') \<Longrightarrow> wp (c_perform E c opts) Q t"
  by (simp add: c_perform_def Let_def wp_rules)

lemma wp_read_headers: "(\<And>t'. requests t' = requests t \<Longrightarrow> Q () t') \<Longrightarrow> wp (read_headers hs) Q t"
proof (induction hs arbitrary: t)
  case (Cons b bs)
  then show ?case by (auto simp: wp_rules)
qed (simp add: wp_rules)

text \<open>The post-condition of a request: one request was made, with these lines and options.\<close>

definition requested ::
  "env \<Rightarrow> s3_config \<Rightarrow> string \<Rightarrow> string \<Rightarrow> string option \<Rightarrow> string list \<Rightarrow> (curl_opts \<Rightarrow> curl_opts) \<Rightarrow>
   trace \<Rightarrow> curl_reply \<Rightarrow> trace \<Rightarrow> bool" where
  "requested E cfg mth bucket key extra f t r t' \<longleftrightarrow> (\<exists>h s. requests t' =
     (f (base_opts (endpoint cfg @ object_path bucket key)
        (Some (h, signed_lines E cfg mth bucket key s @ extra)) Write_Discard), r) # requests t)"

lemma wp_s3_head_object:
  assumes "request_ok cfg ''HEAD'' bucket key" "current_clock E" "headers_alloc E"
  shows "wp (s3_head_object E cfg bucket key errlen) (\<lambda>res t'. \<exists>r.
    requested E cfg ''HEAD'' bucket key [] (\<lambda>opts. opts\<lparr>co_nobody := True, co_header_cb := True\<rparr>) t r t' \<and>
    res = (if cr_code r = 0 \<and> cr_http r = 200 then Ok (fold header_cb (cr_headers r) (- 1))
           else Fail (Some (snprintf_str errlen (failed_msg E ''HEAD'' r))))) t"
  unfolding s3_head_object_def Let_def wp_bind [of "make_curl _ _ _ _ _"]
  apply (rule wp_make_curl [OF assms])
  apply (simp only: prod.case wp_bind [of "c_perform _ _ _"] wp_bind [of "read_headers _"])
  apply (rule wp_perform, rule wp_read_headers, rule wp_end_request)
  apply (auto simp: requested_def)
  done

lemma wp_append_extra:
  assumes "headers_alloc E" "length hn + length hv < 510"
    and "\<And>h' t'. requests t' = requests t \<Longrightarrow>
      Q (opts\<lparr>co_headers := ss @ [hn @ '': '' @ hv]\<rparr>, Some (h', ss @ [hn @ '': '' @ hv])) t'"
  shows "wp (append_extra E (Some (hn, hv)) opts (Some (h, ss))) Q t"
proof -
  have "snprintf_str 512 (hn @ '': '' @ hv) = hn @ '': '' @ hv"
    using assms(2) by (simp add: snprintf_fits)
  then show ?thesis
    unfolding append_extra_def option.case prod.case wp_bind
    by (intro wp_slist_append [OF assms(1)]) (simp only: wp_return slist_strings_Some assms(3))
qed

lemma base_opts_headers: "base_opts url (Some (h, ss)) cb\<lparr>co_headers := ss'\<rparr> = base_opts url (Some (h, ss')) cb"
  by (simp add: base_opts_def)

lemma wp_s3_get_object:
  assumes "request_ok cfg ''GET'' bucket key" "current_clock E" "headers_alloc E"
    and "length hn + length hv < 510"
  shows "wp (s3_get_object E cfg bucket key (Some (hn, hv)) errlen) (\<lambda>res t'. \<exists>r.
    requested E cfg ''GET'' bucket key [hn @ '': '' @ hv]
      (\<lambda>opts. opts\<lparr>co_httpget := True, co_ignore_content_length := True\<rparr>) t r t' \<and>
    res = (if cr_code r = 0 \<and> cr_http r = 200 then Ok ()
           else Fail (Some (snprintf_str errlen (failed_msg E ''GET'' r))))) t"
  unfolding s3_get_object_def Let_def wp_bind [of "make_curl _ _ _ _ _"]
  apply (rule wp_make_curl [OF assms(1-3)])
  apply (simp only: prod.case wp_bind [of "append_extra _ _ _ _"])
  apply (rule wp_append_extra [OF assms(3,4)])
  apply (simp only: prod.case wp_bind [of "c_perform _ _ _"])
  apply (rule wp_perform, rule wp_end_request)
  apply (auto simp: requested_def base_opts_def intro!: exI)
  done

lemma wp_s3_put_object:
  assumes "request_ok cfg ''PUT'' bucket key" "current_clock E" "headers_alloc E"
    and "length hn + length hv < 510"
  shows "wp (s3_put_object E cfg bucket key (Some (hn, hv)) errlen) (\<lambda>res t'. \<exists>r.
    requested E cfg ''PUT'' bucket key [hn @ '': '' @ hv]
      (\<lambda>opts. opts\<lparr>co_upload := True, co_infilesize := Some 0, co_empty_read := True\<rparr>) t r t' \<and>
    res = (if cr_code r = 0 \<and> (cr_http r = 200 \<or> cr_http r = 201) then Ok ()
           else Fail (Some (snprintf_str errlen (failed_msg E ''PUT'' r))))) t"
  unfolding s3_put_object_def Let_def wp_bind [of "make_curl _ _ _ _ _"]
  apply (rule wp_make_curl [OF assms(1-3)])
  apply (simp only: prod.case wp_bind [of "append_extra _ _ _ _"])
  apply (rule wp_append_extra [OF assms(3,4)])
  apply (simp only: prod.case wp_bind [of "c_perform _ _ _"])
  apply (rule wp_perform, rule wp_end_request)
  apply (auto simp: requested_def base_opts_def intro!: exI)
  done

subsection \<open>Properties\<close>


definition sample_cfg :: s3_config where
  "sample_cfg = \<lparr>endpoint = ''http://127.0.0.1:8901'', region = ''us-east-1'', access_key = ''admin-ak'',
     secret_key = ''admin-sk''\<rparr>"

lemma sample_clock: "current_clock sample_env" "headers_alloc sample_env"
  by (simp_all add: current_clock_def current_def headers_alloc_def sample_env_def)

lemma sample_host: "host_of ''http://127.0.0.1:8901'' = ''127.0.0.1:8901''"
  by code_simp

lemma sample_request_ok: "length mth \<le> 16 \<Longrightarrow> request_ok sample_cfg mth ''bucket'' (Some ''key'')"
  by (simp add: request_ok_def sig_ok_def sample_cfg_def sample_host object_path_def)

text \<open>
  C9: the signer of \<^verbatim>\<open>s3client.c\<close> refines AWS Signature Version 4 for every path that needs no percent-encoding: with
  arguments within its buffers it returns the host, the date and exactly the authorization header that is specified
  for the current second, and its only effect is one reading of the clock. A path with other characters is signed
  without the encoding that the specification asks for.
\<close>

theorem sign_request_is_sigv4:
  assumes "sig_ok cfg mth bucket key" "current_clock E" "plain True (object_path bucket key)"
  shows "run_state (sign_request E cfg mth bucket key 256 64 64 2048) tr =
    ((host_of (endpoint cfg), amz_date (gmtime (env_time E tr)), ''UNSIGNED-PAYLOAD'',
      aws_authorization E cfg (gmtime (env_time E tr)) mth (object_path bucket key) []
        (signed_headers cfg (gmtime (env_time E tr)))), Sys (Time (env_time E tr)) # tr)"
  using sign_request_refines [OF assms(1,2)] aws_authorization_plain [OF assms(3), of "[]"]
  by (simp add: plain_params_def query_string_def)

lemma sample_path: "plain True (object_path ''bucket'' (Some ''key''))"
  by code_simp

theorem sign_request_is_sigv4_witness:
  "sig_ok sample_cfg ''GET'' ''bucket'' (Some ''key'') \<and> plain True (object_path ''bucket'' (Some ''key'')) \<and>
   run_state (sign_request sample_env sample_cfg ''GET'' ''bucket'' (Some ''key'') 256 64 64 2048) [] =
    ((host_of (endpoint sample_cfg), amz_date (gmtime (env_time sample_env [])), ''UNSIGNED-PAYLOAD'',
      aws_authorization sample_env sample_cfg (gmtime (env_time sample_env [])) ''GET'' (object_path ''bucket'' (Some ''key'')) []
        (signed_headers sample_cfg (gmtime (env_time sample_env [])))), [Sys (Time (env_time sample_env []))])"
proof -
  have "sig_ok sample_cfg ''GET'' ''bucket'' (Some ''key'')"
    using sample_request_ok [of "''GET''"] by (simp add: request_ok_def)
  with sign_request_is_sigv4 [OF this sample_clock(1) sample_path, of "[]"] sample_path show ?thesis by blast
qed

text \<open>
  The other paths: the canonical URI that the signer takes differs from the specified one exactly when a character of
  the path needs encoding.
\<close>

lemma unencoded_uri_differs:
  "length (object_path bucket key) < 2048 \<Longrightarrow>
   canonical_uri bucket key = uri_encode True (object_path bucket key) \<longleftrightarrow> plain True (object_path bucket key)"
  using uri_encode_same_iff [of True "object_path bucket key"] by (auto simp: canonical_uri_ok)

text \<open>
  C31: \<^verbatim>\<open>s3_put_object\<close> makes exactly one request: an upload of length zero to the object's URL with the
  signed headers and the caller's RDMA request id, and it succeeds exactly when libcurl reports no
  error and the status is 200 or 201.
\<close>

theorem s3_put_object_request:
  assumes "request_ok cfg ''PUT'' bucket key" "current_clock E" "headers_alloc E"
    and "length hn + length hv < 510"
  shows "wp (s3_put_object E cfg bucket key (Some (hn, hv)) errlen) (\<lambda>res t'. \<exists>r.
    requested E cfg ''PUT'' bucket key [hn @ '': '' @ hv]
      (\<lambda>opts. opts\<lparr>co_upload := True, co_infilesize := Some 0, co_empty_read := True\<rparr>) t r t' \<and>
    res = (if cr_code r = 0 \<and> (cr_http r = 200 \<or> cr_http r = 201) then Ok ()
           else Fail (Some (snprintf_str errlen (failed_msg E ''PUT'' r))))) t"
  by (rule wp_s3_put_object [OF assms])

theorem s3_put_object_request_witness:
  "wp (s3_put_object sample_env sample_cfg ''bucket'' (Some ''key'') (Some (''X-RDMA-Request-ID'', ''rdma-1'')) 256)
    (\<lambda>res t'. \<exists>r. requested sample_env sample_cfg ''PUT'' ''bucket'' (Some ''key'')
        [''X-RDMA-Request-ID'' @ '': '' @ ''rdma-1'']
        (\<lambda>opts. opts\<lparr>co_upload := True, co_infilesize := Some 0, co_empty_read := True\<rparr>) [] r t' \<and>
      res = (if cr_code r = 0 \<and> (cr_http r = 200 \<or> cr_http r = 201) then Ok ()
             else Fail (Some (snprintf_str 256 (failed_msg sample_env ''PUT'' r))))) []"
  by (rule s3_put_object_request [OF sample_request_ok sample_clock]) simp_all

text \<open>
  C32: \<^verbatim>\<open>s3_head_object\<close> makes exactly one signed request without a body, and on status 200 returns the
  size that the header callback has found, -1 when there was none.
\<close>

theorem s3_head_object_request:
  assumes "request_ok cfg ''HEAD'' bucket key" "current_clock E" "headers_alloc E"
  shows "wp (s3_head_object E cfg bucket key errlen) (\<lambda>res t'. \<exists>r.
    requested E cfg ''HEAD'' bucket key [] (\<lambda>opts. opts\<lparr>co_nobody := True, co_header_cb := True\<rparr>) t r t' \<and>
    res = (if cr_code r = 0 \<and> cr_http r = 200 then Ok (fold header_cb (cr_headers r) (- 1))
           else Fail (Some (snprintf_str errlen (failed_msg E ''HEAD'' r))))) t"
  by (rule wp_s3_head_object [OF assms])

theorem s3_head_object_request_witness:
  "wp (s3_head_object sample_env sample_cfg ''bucket'' (Some ''key'') 256) (\<lambda>res t'. \<exists>r.
    requested sample_env sample_cfg ''HEAD'' ''bucket'' (Some ''key'') []
      (\<lambda>opts. opts\<lparr>co_nobody := True, co_header_cb := True\<rparr>) [] r t' \<and>
    res = (if cr_code r = 0 \<and> cr_http r = 200 then Ok (fold header_cb (cr_headers r) (- 1))
           else Fail (Some (snprintf_str 256 (failed_msg sample_env ''HEAD'' r))))) []"
  by (rule s3_head_object_request [OF sample_request_ok sample_clock]) simp

end
