(* ===== verification/MpRequest.thy ===== *)
theory MpRequest
  imports S3Client
begin

text \<open>
  The request layer of \<^verbatim>\<open>s3rdmamultipart.c\<close>, which has its own copy of the signer: signing
  with a query and a content length, collecting the response body in a growing buffer, and one
  signed request with its method's options. The signer refines the same specification as the
  one of \<^verbatim>\<open>s3client.c\<close>; the buffer refines the concatenation of the chunks it is given.
\<close>

subsection \<open>Signing\<close>

definition mp_sha256_hex :: "env \<Rightarrow> byte list \<Rightarrow> string" where
  "mp_sha256_hex E data = concat (map hex2 (sha256 E data))"

definition mp_hmac_sha256 :: "env \<Rightarrow> byte list \<Rightarrow> byte list \<Rightarrow> byte list" where
  "mp_hmac_sha256 E key data = hmac E key data"

definition mp_derive_signing_key :: "env \<Rightarrow> string \<Rightarrow> string \<Rightarrow> string \<Rightarrow> byte list" where
  "mp_derive_signing_key E secret date reg =
     (let k_secret = snprintf_str 160 (''AWS4'' @ secret);
          k_date = mp_hmac_sha256 E (bytes_of k_secret) (bytes_of date);
          k_region = mp_hmac_sha256 E k_date (bytes_of reg);
          k_service = mp_hmac_sha256 E k_region (bytes_of ''s3'')
      in mp_hmac_sha256 E k_service (bytes_of ''aws4_request''))"

definition mp_host_from_endpoint :: "string \<Rightarrow> nat \<Rightarrow> string" where
  "mp_host_from_endpoint ep hostlen =
     (let p = (case strstr ep ''://'' of Some p \<Rightarrow> drop 3 p | None \<Rightarrow> ep);
          n = (case strchr p CHR ''/'' of Some slash \<Rightarrow> length p - length slash | None \<Rightarrow> length p);
          n = (if hostlen \<le> n then hostlen - 1 else n)
      in take n p)"

text \<open>The canonical and the signed headers, with the content length when there is a body.\<close>

definition mp_headers :: "int \<Rightarrow> string \<Rightarrow> string \<Rightarrow> string \<times> string" where
  "mp_headers content_length host amzdate =
     (if 0 \<le> content_length then
        (snprintf_str 4096 (''content-length:'' @ show_int content_length @ nl @ ''host:'' @ host @ nl @
           ''x-amz-date:'' @ amzdate @ nl), ''content-length;host;x-amz-date'')
      else (snprintf_str 4096 (''host:'' @ host @ nl @ ''x-amz-date:'' @ amzdate @ nl), ''host;x-amz-date''))"

definition mp_sign_request ::
  "env \<Rightarrow> s3_config \<Rightarrow> string \<Rightarrow> string \<Rightarrow> string option \<Rightarrow> string option \<Rightarrow> int \<Rightarrow> nat \<Rightarrow> nat \<Rightarrow> nat \<Rightarrow>
   (string \<times> string \<times> string) io" where
  "mp_sign_request E cfg mth bucket key canonical_query content_length hostlen amzdate_len authlen = do {
     let host = mp_host_from_endpoint (endpoint cfg) hostlen;
     now \<leftarrow> c_time E;
     let tmv = gmtime now;
     amzdate \<leftarrow> c_strftime amzdate_len (amz_date tmv);
     datestamp \<leftarrow> c_strftime 16 (date_stamp tmv);
     let uri = (case key of
         None \<Rightarrow> snprintf_str 2048 (''/'' @ bucket)
       | Some k \<Rightarrow> if k = [] then snprintf_str 2048 (''/'' @ bucket)
                  else snprintf_str 2048 (''/'' @ bucket @ ''/'' @ k));
     let (canonical_headers, signed_hdrs) = mp_headers content_length host amzdate;
     creq \<leftarrow> c_hashed 8192 (snprintf 8192 (mth @ nl @ uri @ nl @
       (case canonical_query of None \<Rightarrow> [] | Some q \<Rightarrow> q) @ nl @ canonical_headers @ nl @ signed_hdrs @
       nl @ ''UNSIGNED-PAYLOAD''));
     let creq_hash = mp_sha256_hex E creq;
     let scope = snprintf_str 128 (datestamp @ ''/'' @ region cfg @ ''/s3/aws4_request'');
     sts \<leftarrow> c_hashed 4096 (snprintf 4096
       (''AWS4-HMAC-SHA256'' @ nl @ amzdate @ nl @ scope @ nl @ creq_hash));
     let signing_key = mp_derive_signing_key E (secret_key cfg) datestamp (region cfg);
     let sighex = concat (map hex2 (mp_hmac_sha256 E signing_key sts));
     ret (host, amzdate, snprintf_str authlen
       (''AWS4-HMAC-SHA256 Credential='' @ access_key cfg @ ''/'' @ scope @
        '', SignedHeaders='' @ signed_hdrs @ '', Signature='' @ sighex))
   }"

subsection \<open>The response buffer\<close>

text \<open>
  \<^verbatim>\<open>response_buf_t\<close>: the block, the bytes written so far, of number \<^verbatim>\<open>len\<close>, and the
  capacity. The sums and the doublings are exact as long as the new capacity is a \<^verbatim>\<open>size_t\<close>, since it bounds all of
  them; when it is not, the arithmetic wraps around, and the model says so instead of following it further.
\<close>

record response_buf =
  rb_data :: "nat option"
  rb_bytes :: "byte list"
  rb_cap :: nat

definition response_zero :: response_buf where
  "response_zero = \<lparr>rb_data = None, rb_bytes = [], rb_cap = 0\<rparr>"

text \<open>\<^verbatim>\<open>while (new_cap < need) new_cap *= 2;\<close> from a positive capacity.\<close>

function grow :: "nat \<Rightarrow> nat \<Rightarrow> nat" where
  "grow new_cap need = (if 0 < new_cap \<and> new_cap < need then grow (new_cap * 2) need else new_cap)"
  by pat_completeness auto
termination
  by (relation "measure (\<lambda>(new_cap, need). need - new_cap)") auto

declare grow.simps [simp del]

definition write_response :: "env \<Rightarrow> response_buf \<Rightarrow> byte list \<Rightarrow> (nat \<times> response_buf) io" where
  "write_response E buf chunk =
     (let n = length chunk; len = length (rb_bytes buf) in
      if rb_cap buf < len + n + 1 then do {
        let new_cap = grow (if rb_cap buf \<noteq> 0 then rb_cap buf * 2 else 4096) (len + n + 1);
        (if 2 ^ 64 \<le> new_cap then emit (Undefined ''size_t wraps: response buffer'') else ret ());
        p \<leftarrow> c_realloc E (rb_data buf) new_cap;
        case p of
          None \<Rightarrow> ret (0, buf)
        | Some h \<Rightarrow> ret (n, \<lparr>rb_data = Some h, rb_bytes = rb_bytes buf @ chunk, rb_cap = new_cap\<rparr>)
      } else ret (n, buf\<lparr>rb_bytes := rb_bytes buf @ chunk\<rparr>))"

text \<open>
  libcurl passes the body to the callback chunk by chunk, and aborts the transfer with
  \<^verbatim>\<open>CURLE_WRITE_ERROR\<close> (23) when the callback does not return the length of its chunk. The result
  is the number of chunks that the callback has accepted.
\<close>

fun deliver_chunks :: "env \<Rightarrow> response_buf \<Rightarrow> byte list list \<Rightarrow> (nat \<times> response_buf) io" where
  "deliver_chunks E buf [] = ret (0, buf)"
| "deliver_chunks E buf (c # cs) = do {
     (k, buf) \<leftarrow> write_response E buf c;
     if k \<noteq> length c then ret (0, buf)
     else do {
       (accepted, buf) \<leftarrow> deliver_chunks E buf cs;
       ret (Suc accepted, buf)
     }
   }"

definition response_text :: "response_buf \<Rightarrow> string" where
  "response_text buf = (case rb_data buf of None \<Rightarrow> [] | Some _ \<Rightarrow> cstring (chars_of (rb_bytes buf)))"

definition mp_empty_read :: "nat \<Rightarrow> nat \<Rightarrow> byte list" where
  "mp_empty_read s n = []"

subsection \<open>One request\<close>

definition mp_url :: "s3_config \<Rightarrow> string \<Rightarrow> string option \<Rightarrow> string option \<Rightarrow> string" where
  "mp_url cfg bucket key query =
     (let url = snprintf_str 4096 (case key of
            None \<Rightarrow> endpoint cfg @ ''/'' @ bucket
          | Some k \<Rightarrow> if k = [] then endpoint cfg @ ''/'' @ bucket
                     else endpoint cfg @ ''/'' @ bucket @ ''/'' @ k)
      in case query of
           None \<Rightarrow> url
         | Some q \<Rightarrow> if q = [] then url else url @ snprintf_str (4096 - length url) (''?'' @ q))"

definition method_opts :: "string \<Rightarrow> string option \<Rightarrow> curl_opts \<Rightarrow> curl_opts" where
  "method_opts mth body opts =
     (if mth = ''GET'' then opts\<lparr>co_httpget := True\<rparr>
      else if mth = ''POST'' then
        opts\<lparr>co_customrequest := Some ''POST'',
             co_postfields := Some (case body of None \<Rightarrow> [] | Some b \<Rightarrow> b),
             co_postfieldsize := Some (case body of None \<Rightarrow> 0 | Some b \<Rightarrow> int (length b))\<rparr>
      else if mth = ''PUT'' then
        opts\<lparr>co_upload := True, co_infilesize := Some 0, co_empty_read := True\<rparr>
      else if mth = ''DELETE'' then opts\<lparr>co_customrequest := Some ''DELETE''\<rparr>
      else opts)"

definition append_optional :: "env \<Rightarrow> slist \<Rightarrow> (string \<times> string) option \<Rightarrow> slist io" where
  "append_optional E h extra =
     (case extra of
        None \<Rightarrow> ret h
      | Some (name, v) \<Rightarrow> c_slist_append E h (snprintf_str 2300 (name @ '': '' @ v)))"

text \<open>
  \<open>body\<close> is the body with its length, absent for NULL. The result is the status of the
  request, the HTTP status for \<^verbatim>\<open>*http_out\<close> and the response buffer.
\<close>

definition s3_request ::
  "env \<Rightarrow> s3_config \<Rightarrow> string \<Rightarrow> string \<Rightarrow> string option \<Rightarrow> string option \<Rightarrow> string option \<Rightarrow>
   string option \<Rightarrow> (string \<times> string) option \<Rightarrow> response_buf \<Rightarrow> nat \<Rightarrow>
   (unit result \<times> int \<times> response_buf) io" where
  "s3_request E cfg mth bucket key query canonical_query body extra response errlen = do {
     (host, amzdate, auth) \<leftarrow> mp_sign_request E cfg mth bucket key canonical_query
       (case body of None \<Rightarrow> - 1 | Some b \<Rightarrow> int (length b)) 256 64 2048;
     let url = mp_url cfg bucket key query;
     h \<leftarrow> c_slist_append E None (snprintf_str 2300 (''Host: '' @ host));
     h \<leftarrow> c_slist_append E h (snprintf_str 2300 (''x-amz-date: '' @ amzdate));
     h \<leftarrow> c_slist_append E h (snprintf_str 2300 (''Authorization: '' @ auth));
     h \<leftarrow> c_slist_append E h ''Accept:'';
     h \<leftarrow> c_slist_append E h ''Content-Type:'';
     h \<leftarrow> append_optional E h extra;
     c \<leftarrow> c_curl_init E;
     case c of
       None \<Rightarrow> do {
         c_slist_free_all h;
         ret (Fail (Some (snprintf_str errlen ''curl_easy_init failed'')), 0, response)
       }
     | Some curl \<Rightarrow> do {
         r \<leftarrow> c_perform E (Some curl) (method_opts mth body (base_opts url h Write_Response));
         (accepted, response) \<leftarrow> deliver_chunks E response (cr_chunks r);
         let rc = (if accepted = length (cr_chunks r) then cr_code r else 23);
         let http = cr_http r;
         let result = (if rc \<noteq> 0 \<or> http < 200 \<or> 300 \<le> http
           then Fail (Some (snprintf_str errlen (mth @ '' failed: curl='' @ env_curl_strerror E rc @
             '' http='' @ show_int http @ '' body='' @ response_text response)))
           else Ok ());
         c_slist_free_all h;
         c_curl_cleanup (Some curl);
         ret (result, http, response)
       }
   }"

subsection \<open>The signer computes the specified authorization\<close>

lemma mp_host_from_endpoint_eq: "mp_host_from_endpoint ep n = host_from_endpoint ep n"
  by (simp add: mp_host_from_endpoint_def host_from_endpoint_def)

lemma mp_derive_signing_key_eq: "mp_derive_signing_key E secret date reg = derive_signing_key E secret date reg"
  by (simp add: mp_derive_signing_key_def derive_signing_key_def mp_hmac_sha256_def hmac_sha256_def)

lemma mp_hashes_eq: "mp_sha256_hex = sha256_hex" "mp_hmac_sha256 = hmac_sha256"
  by (intro ext; simp add: mp_sha256_hex_def sha256_hex_def mp_hmac_sha256_def hmac_sha256_def)+

definition mp_signed_headers :: "int \<Rightarrow> s3_config \<Rightarrow> tm \<Rightarrow> (string \<times> string) list" where
  "mp_signed_headers cl cfg tmv =
     (if 0 \<le> cl then [(''content-length'', show_int cl)] else []) @ signed_headers cfg tmv"

definition query_text :: "string option \<Rightarrow> string" where
  "query_text q = (case q of None \<Rightarrow> [] | Some s \<Rightarrow> s)"

lemma length_show_len: "\<bar>cl\<bar> < 2 ^ 63 \<Longrightarrow> length (show_int cl) \<le> 20"
  using length_show_int [of cl 19] by simp

lemma mp_headers_ok:
  assumes "length host < 256" "length amz \<le> 16" "\<bar>cl\<bar> < 2 ^ 63"
  shows "mp_headers cl host amz =
    (concat (map (\<lambda>(k, v). k @ '':'' @ v @ nl)
       ((if 0 \<le> cl then [(''content-length'', show_int cl)] else []) @
         [(''host'', host), (''x-amz-date'', amz)])),
     semicolons ((if 0 \<le> cl then [''content-length''] else []) @ [''host'', ''x-amz-date'']))"
  using assms length_show_len [OF assms(3)]
  by (simp add: mp_headers_def snprintf_def)

lemma mp_sign_request_refines:
  assumes ok: "sig_ok cfg mth bucket key" and clock: "current_clock E"
    and q: "length (query_text query) \<le> 1100" and cl: "\<bar>cl\<bar> < 2 ^ 63"
  shows "run_state (mp_sign_request E cfg mth bucket key query cl 256 64 2048) tr =
    ((host_of (endpoint cfg), amz_date (gmtime (env_time E tr)),
      sigv4_authorization E cfg (gmtime (env_time E tr)) mth (object_path bucket key) (query_text query)
        (mp_signed_headers cl cfg (gmtime (env_time E tr)))), Sys (Time (env_time E tr)) # tr)"
proof -
  let ?t = "env_time E tr"
  let ?host = "host_of (endpoint cfg)" and ?amz = "amz_date (gmtime ?t)"
  let ?uri = "object_path bucket key"
  let ?hdrs = "mp_signed_headers cl cfg (gmtime ?t)"
  let ?creq = "sigv4_canonical_request mth ?uri (query_text query) ?hdrs ''UNSIGNED-PAYLOAD''"
  have t: "current ?t" using clock by (simp add: current_clock_def)
  note lens = length_dates [OF t] length_scope [OF t, of "region cfg"] length_show_len [OF cl]
  have host: "mp_host_from_endpoint (endpoint cfg) 256 = ?host" "length ?host < 256"
    using ok by (simp_all add: sig_ok_def host_from_endpoint_ok mp_host_from_endpoint_eq)
  have uri: "canonical_uri bucket key = ?uri" "length ?uri < 2048"
    using ok by (simp_all add: sig_ok_def canonical_uri_ok)
  have names: "semicolons ((if 0 \<le> cl then [''content-length''] else []) @ [''host'', ''x-amz-date'']) =
      semicolons (map fst ?hdrs)"
    by (simp add: mp_signed_headers_def signed_headers_def)
  have hdrs: "mp_headers cl ?host ?amz =
      (concat (map (\<lambda>(k, v). k @ '':'' @ v @ nl) ?hdrs), semicolons (map fst ?hdrs))"
    using mp_headers_ok [OF host(2) lens(2) cl] names
    by (simp add: mp_signed_headers_def signed_headers_def)
  have nlen: "length (semicolons (map fst ?hdrs)) \<le> 30"
    by (simp add: mp_signed_headers_def signed_headers_def)
  have creq: "mth @ nl @ ?uri @ nl @ query_text query @ nl @ concat (map (\<lambda>(k, v). k @ '':'' @ v @ nl) ?hdrs) @
      nl @ semicolons (map fst ?hdrs) @ nl @ ''UNSIGNED-PAYLOAD'' = ?creq"
    by (simp add: sigv4_canonical_request_def)
  have "length (concat (map (\<lambda>(k, v). k @ '':'' @ v @ nl) ?hdrs)) \<le> 400"
    using host lens by (simp add: mp_signed_headers_def signed_headers_def)
  then have "length ?creq < 8192"
    using ok uri q nlen by (simp add: sigv4_canonical_request_def sig_ok_def)
  note steps = signing_steps [OF ok t nlen this]
  have "wp (mp_sign_request E cfg mth bucket key query cl 256 64 2048) (\<lambda>r t'. (r, t') =
      ((?host, ?amz, sigv4_authorization E cfg (gmtime ?t) mth ?uri (query_text query) ?hdrs),
        Sys (Time ?t) # tr)) tr"
    by (simp only: mp_sign_request_def Let_def wp_rules c_time_def fst_conv snd_conv host(1)
        strftime_dates [OF t] uri(1) [unfolded canonical_uri_def] hdrs prod.case
        query_text_def [symmetric] creq mp_hashes_eq mp_derive_signing_key_eq steps)
  then show ?thesis by (simp add: wp_def split: prod.splits)
qed

definition mp_sign_plain ::
  "env \<Rightarrow> s3_config \<Rightarrow> string \<Rightarrow> string \<Rightarrow> string option \<Rightarrow> (string \<times> string \<times> string) io" where
  "mp_sign_plain E cfg mth bucket key = mp_sign_request E cfg mth bucket key None (- 1) 256 64 2048"

interpretation multi: signer mp_sign_plain
  by unfold_locales
    (simp add: mp_sign_plain_def mp_sign_request_refines query_text_def mp_signed_headers_def)

subsection \<open>The buffer refines a list of bytes\<close>

lemma grow_ge: "0 < c \<Longrightarrow> need \<le> grow c need \<and> c \<le> grow c need"
proof (induction c need rule: grow.induct)
  case (1 c need)
  then show ?case by (subst (1 2) grow.simps) auto
qed

text \<open>Doubling stops at the first capacity that suffices.\<close>

lemma grow_less: "0 < c \<Longrightarrow> grow c need < max (Suc c) (2 * need)"
proof (induction c need rule: grow.induct)
  case (1 c need)
  show ?case
  proof (cases "c < need")
    case True
    with 1 have "grow (c * 2) need < max (Suc (c * 2)) (2 * need)" by simp
    with True "1.prems" show ?thesis by (subst grow.simps) auto
  next
    case False
    then show ?thesis by (subst grow.simps) simp
  qed
qed

text \<open>A block is allocated as soon as there are bytes, and has room for the terminating NUL.\<close>

definition rb_inv :: "response_buf \<Rightarrow> bool" where
  "rb_inv buf \<longleftrightarrow> (case rb_data buf of
     None \<Rightarrow> rb_bytes buf = [] \<and> rb_cap buf = 0
   | Some _ \<Rightarrow> length (rb_bytes buf) < rb_cap buf)"

lemma rb_inv_zero [simp]: "rb_inv response_zero"
  by (simp add: rb_inv_def response_zero_def)

text \<open>
  The interface of a sink that libcurl writes to: an accepted chunk is appended to what the
  sink holds, a chunk that is not accepted leaves it as it was.
\<close>

locale chunk_sink =
  fixes accept :: "env \<Rightarrow> 'b \<Rightarrow> byte list \<Rightarrow> (nat \<times> 'b) io"
    and contents :: "'b \<Rightarrow> byte list"
    and invar :: "'b \<Rightarrow> bool"
  assumes accept_law: "invar b \<Longrightarrow> yields (\<lambda>(k, b'). invar b' \<and>
      (k = length c \<and> contents b' = contents b @ c \<or> k = 0 \<and> b' = b)) (accept E b c)"
begin

lemma accept_appends:
  assumes "invar b" "run_state (accept E b c) tr = ((length c, b'), tr')" "c \<noteq> []"
  shows "invar b' \<and> contents b' = contents b @ c"
  using yields_run [OF accept_law [OF assms(1)] assms(2)] assms(3) by auto

lemma accept_prefix:
  assumes "invar b" "run_state (accept E b c) tr = ((k, b'), tr')"
  shows "invar b' \<and> prefix (contents b) (contents b')"
  using yields_run [OF accept_law [OF assms(1)] assms(2)] by auto

end

lemma write_response_law:
  assumes "rb_inv buf"
  shows "yields (\<lambda>(k, buf'). rb_inv buf' \<and>
    (k = length c \<and> rb_bytes buf' = rb_bytes buf @ c \<or> k = 0 \<and> buf' = buf)) (write_response E buf c)"
proof -
  have "length (rb_bytes buf) + length c < grow (if rb_cap buf \<noteq> 0 then rb_cap buf * 2 else 4096)
      (length (rb_bytes buf) + length c + 1)"
    using grow_ge [of "if rb_cap buf \<noteq> 0 then rb_cap buf * 2 else 4096" "length (rb_bytes buf) + length c + 1"]
    by auto
  then show ?thesis
    using assms unfolding write_response_def Let_def
    by (auto intro!: yields_bindI yields_returnI simp: rb_inv_def split: option.splits)
qed

interpretation response: chunk_sink write_response rb_bytes rb_inv
  by unfold_locales (rule write_response_law)

text \<open>
  Delivering a body: the buffer holds the chunks that were accepted, and only a failed allocation makes it refuse one.
\<close>

abbreviation realloc_failed :: "trace \<Rightarrow> bool" where
  "realloc_failed tr \<equiv> (\<exists>p n tr'. tr = Sys (Realloc p n None) # tr')"

lemma write_response_refuses:
  "wp (write_response E buf c) (\<lambda>(k, buf') t. k \<noteq> length c \<longrightarrow> realloc_failed t) tr"
  unfolding write_response_def Let_def by (auto simp: wp_rules c_realloc_def Let_def split: option.split)

lemma wp_deliver_chunks_law:
  "rb_inv buf \<Longrightarrow> wp (deliver_chunks E buf cs) (\<lambda>(k, buf') t. rb_inv buf' \<and> k \<le> length cs \<and>
     rb_bytes buf' = rb_bytes buf @ concat (take k cs) \<and> (k < length cs \<longrightarrow> realloc_failed t)) tr"
proof (induction cs arbitrary: buf tr)
  case Nil
  then show ?case by (simp add: wp_rules)
next
  case (Cons c cs)
  have w: "wp (write_response E buf c) (\<lambda>r t. rb_inv (snd r) \<and> (fst r = length c \<and> rb_bytes (snd r) = rb_bytes buf @ c \<or>
      fst r = 0 \<and> snd r = buf) \<and> (fst r \<noteq> length c \<longrightarrow> realloc_failed t)) t0" for t0
    by (rule wp_mono [OF wp_conj [OF yields_wp [OF write_response_law [OF Cons.prems, of c]] write_response_refuses]]) auto
  have rest: "wp (do { (a, buf) \<leftarrow> deliver_chunks E b cs; ret (Suc a, buf) }) (\<lambda>(k, buf') t. rb_inv buf' \<and>
      k \<le> length (c # cs) \<and> rb_bytes buf' = rb_bytes buf @ concat (take k (c # cs)) \<and>
      (k < length (c # cs) \<longrightarrow> realloc_failed t)) t" if "rb_inv b" "rb_bytes b = rb_bytes buf @ c" for b t
    unfolding wp_bind by (rule wp_mono [OF Cons.IH [OF that(1)]]) (auto simp: wp_rules that(2))
  show ?case
    unfolding deliver_chunks.simps wp_bind [of "write_response _ _ _"]
  proof (rule wp_mono [OF w])
    fix r :: "nat \<times> response_buf" and t
    obtain k b where r: "r = (k, b)" by (cases r)
    assume "rb_inv (snd r) \<and> (fst r = length c \<and> rb_bytes (snd r) = rb_bytes buf @ c \<or> fst r = 0 \<and> snd r = buf) \<and>
      (fst r \<noteq> length c \<longrightarrow> realloc_failed t)"
    then have b: "rb_inv b" "k = length c \<and> rb_bytes b = rb_bytes buf @ c \<or> k = 0 \<and> b = buf"
      "k \<noteq> length c \<Longrightarrow> realloc_failed t" by (simp_all add: r)
    show "wp (case r of (k, buf) \<Rightarrow> if k \<noteq> length c then ret (0, buf)
        else do { (a, buf) \<leftarrow> deliver_chunks E buf cs; ret (Suc a, buf) }) (\<lambda>(k, buf') t. rb_inv buf' \<and>
      k \<le> length (c # cs) \<and> rb_bytes buf' = rb_bytes buf @ concat (take k (c # cs)) \<and>
      (k < length (c # cs) \<longrightarrow> realloc_failed t)) t"
    proof (cases "k = length c")
      case True
      then have "rb_bytes b = rb_bytes buf @ c" using b(2) by auto
      from rest [OF b(1) this] show ?thesis by (simp add: r True)
    next
      case False
      with b show ?thesis by (simp add: r wp_rules)
    qed
  qed
qed

lemma deliver_chunks_law:
  assumes "rb_inv buf"
  shows "yields (\<lambda>(k, buf'). rb_inv buf' \<and> k \<le> length cs \<and> rb_bytes buf' = rb_bytes buf @ concat (take k cs))
    (deliver_chunks E buf cs)"
  unfolding yields_def by (intro allI wp_mono [OF wp_deliver_chunks_law [OF assms]]) auto

text \<open>No sum and no capacity wraps around for a body of less than 2 to the 63rd bytes.\<close>

lemma capacity_fits:
  assumes "cap < len + n + 1" "len + n < 2 ^ 63"
  shows "\<not> 2 ^ 64 \<le> grow (if cap \<noteq> 0 then cap * 2 else 4096) (len + n + 1)"
  using grow_less [of "if cap \<noteq> 0 then cap * 2 else 4096" "len + n + 1"] assms by (auto split: if_splits)

lemma write_response_length:
  "yields (\<lambda>(k, b). k = length c \<longrightarrow> length (rb_bytes b) \<le> length (rb_bytes buf) + length c) (write_response E buf c)"
  unfolding write_response_def Let_def by (auto intro!: yields_bindI yields_returnI split: option.splits)

subsection \<open>Contracts\<close>

definition rb_res :: "response_buf \<Rightarrow> resource list" where
  "rb_res buf = (case rb_data buf of None \<Rightarrow> [] | Some h \<Rightarrow> [Res KMem h []])"

lemma rb_res_zero [simp]: "rb_res response_zero = []"
  by (simp add: rb_res_def response_zero_def)

lemma realloc_same: "wp (c_realloc E (Some h) n) (\<lambda>r _. \<forall>h'. r = Some h' \<longrightarrow> h' = h) tr"
  by (simp add: c_realloc_def Let_def wp_rules)

lemma moves_write_response:
  assumes "length (rb_bytes buf) + length c < 2 ^ 63"
  shows "moves (rb_res buf @ L) (write_response E buf c) (\<lambda>r. rb_res (snd r) @ L)"
proof (cases "rb_cap buf < length (rb_bytes buf) + length c + 1")
  case False
  then show ?thesis by (simp add: write_response_def rb_res_def moves_returnI)
next
  case True
  note fits = capacity_fits [OF True assms]
  have first: "moves L (c_realloc E None n) (push (\<lambda>h. Res KMem h []) L)" for n by (rule moves_realloc_NULL)
  have "keeps (Res KMem h [] # L) (c_realloc E (Some h) n)" for h n
    by (rule keeps_realloc) simp
  note again = moves_bind_post [OF this realloc_same]
  show ?thesis
    unfolding write_response_def Let_def
    by (simp only: True if_True fits if_False bind_left_identity, cases "rb_data buf")
      (auto simp: rb_res_def intro!: moves_bind [OF first] again moves_returnI split: option.split)
qed

lemma moves_deliver_chunks:
  "length (rb_bytes buf) + length (concat cs) < 2 ^ 63 \<Longrightarrow>
   moves (rb_res buf @ L) (deliver_chunks E buf cs) (\<lambda>r. rb_res (snd r) @ L)"
proof (induction cs arbitrary: buf)
  case (Cons c cs)
  from Cons.prems have c: "length (rb_bytes buf) + length c < 2 ^ 63" by simp
  show ?case
    unfolding deliver_chunks.simps
  proof (rule moves_bind_post [OF moves_write_response [OF c] yields_wp [OF write_response_length]])
    fix r :: "nat \<times> response_buf"
    assume r: "case r of (k, b) \<Rightarrow> k = length c \<longrightarrow> length (rb_bytes b) \<le> length (rb_bytes buf) + length c"
    show "moves (rb_res (snd r) @ L) (case r of (k, buf) \<Rightarrow> if k \<noteq> length c then ret (0, buf)
        else do { (accepted, buf) \<leftarrow> deliver_chunks E buf cs; ret (Suc accepted, buf) }) (\<lambda>r. rb_res (snd r) @ L)"
      using r Cons.prems by (auto intro!: moves_bind [OF Cons.IH] moves_returnI split: prod.split)
  qed
qed (simp add: moves_returnI)

definition small_bodies :: "env \<Rightarrow> bool" where
  "small_bodies E \<longleftrightarrow> (\<forall>tr c opts. length (concat (cr_chunks (env_perform E tr c opts))) < 2 ^ 63)"

lemma perform_small:
  "small_bodies E \<Longrightarrow> wp (c_perform E c opts) (\<lambda>r _. length (concat (cr_chunks r)) < 2 ^ 63) tr"
  by (auto simp: small_bodies_def c_perform_def bad_handle_reply_def wp_rules Let_def split: option.split)

text \<open>The buffers of the signer are never overrun.\<close>

lemma keeps_mp_sign_request:
  assumes "current_clock E" "length mth \<le> 16" "length (query_text query) \<le> 1100"
  shows "keeps L (mp_sign_request E cfg mth bucket key query cl 256 64 2048)"
proof -
  have host: "length (mp_host_from_endpoint (endpoint cfg) 256) < 256"
    unfolding mp_host_from_endpoint_eq by (rule length_host_from_endpoint) simp
  have uri: "length (canonical_uri bucket key) < 2048"
    by (auto simp: canonical_uri_def snprintf_def split: option.split)
  have hdr: "length (fst (mp_headers cl h a)) < 4096" "length (snd (mp_headers cl h a)) \<le> 30" for h a
    by (auto simp: mp_headers_def snprintf_def)
  have main: "keeps L (do {
      creq \<leftarrow> c_hashed 8192 (snprintf 8192 (mth @ nl @ canonical_uri bucket key @ nl @ query_text query @ nl @
        ch @ nl @ sh @ nl @ ''UNSIGNED-PAYLOAD''));
      sts \<leftarrow> c_hashed 4096 (snprintf 4096 (''AWS4-HMAC-SHA256'' @ nl @ amz @ nl @ snprintf_str 128 scope @ nl @
        mp_sha256_hex E creq));
      ret (f creq sts) })" if "length amz \<le> 16" "mp_headers cl h a = (ch, sh)" for amz scope f h a ch sh
  proof -
    have "length (snprintf_str 128 scope) < 128" by (rule snprintf_length) simp
    then show ?thesis
      using that uri assms(2,3) hdr [of h a]
      by (auto simp: c_hashed_fits mp_sha256_hex_def hex_def [symmetric] intro!: moves_returnI)
  qed
  show ?thesis
    unfolding mp_sign_request_def Let_def canonical_uri_def [symmetric] query_text_def [symmetric]
    by (rule moves_bind_post [OF keeps_time time_current [OF assms(1)]])
      (auto simp: strftime_dates length_dates intro!: main [simplified] split: prod.split)
qed

lemma moves_append_optional: "moves (slist_res h @ L) (append_optional E h extra) (\<lambda>r. slist_res r @ L)"
  unfolding append_optional_def by (auto intro!: moves_returnI moves_slist_append split: option.split)

lemma moves_free_headers:
  "moves (A @ slist_res h @ L) (c_slist_free_all h) (\<lambda>_. A @ L)" if "\<forall>r \<in> set A. parents r = []"
proof (cases h)
  case None
  then show ?thesis by (simp add: slist_res_def keeps_NULL)
next
  case (Some l)
  then show ?thesis
    using that by (cases l) (auto simp: slist_res_def c_slist_free_all_def intro!: moves_release)
qed

lemma moves_cleanup_handle:
  "moves (A @ Res KCurl c [] # L) (c_curl_cleanup (Some c)) (\<lambda>_. A @ L)" if "\<forall>r \<in> set A. parents r = []"
  using that by (auto simp: c_curl_cleanup_def intro!: moves_release)

lemma rb_res_parents: "\<forall>r \<in> set (rb_res buf). parents r = []"
  by (auto simp: rb_res_def split: option.splits)

lemma moves_end_s3_request:
  "moves (rb_res buf @ Res KCurl c [] # slist_res h @ L)
     (do { c_slist_free_all h; c_curl_cleanup (Some c); ret (result, http :: int, buf) })
     (\<lambda>r. rb_res (snd (snd r)) @ L)"
proof -
  have "\<forall>r \<in> set (rb_res buf @ [Res KCurl c []]). parents r = []"
    using rb_res_parents by auto
  from moves_free_headers [OF this, of h L]
  have free: "moves (rb_res buf @ Res KCurl c [] # slist_res h @ L) (c_slist_free_all h)
      (\<lambda>_. rb_res buf @ Res KCurl c [] # L)" by simp
  show ?thesis
    by (rule moves_bind [OF free], rule moves_bind [OF moves_cleanup_handle [OF rb_res_parents]],
        rule moves_returnI) simp
qed

lemma moves_no_curl:
  "moves (slist_res h @ L) (do { c_slist_free_all h; ret (result, http :: int, response_zero) })
     (\<lambda>r. rb_res (snd (snd r)) @ L)"
  using moves_bind [OF moves_free_headers [where A = "[]" and h = h and L = L], of "\<lambda>_. ret (result, http, response_zero)"]
  by (simp add: moves_returnI)

lemma moves_s3_request:
  assumes "current_clock E" "small_bodies E" "length mth \<le> 16" "length (query_text cq) \<le> 1100"
  shows "moves L (s3_request E cfg mth bucket key query cq body extra response_zero errlen)
    (\<lambda>r. rb_res (snd (snd r)) @ L)"
proof -
  have perform: "keeps (Res KCurl c [] # M) (c_perform E (Some c) opts)" for c M opts
    by (rule keeps_perform) simp
  have deliver: "moves M (deliver_chunks E response_zero cs) (\<lambda>r. rb_res (snd r) @ M)"
    if "length (concat cs) < 2 ^ 63" for M cs
    using that moves_deliver_chunks [of response_zero cs M] by (simp add: response_zero_def rb_res_def)
  have run: "moves (push (\<lambda>c. Res KCurl c []) (slist_res h @ L) c)
      (case c of
         None \<Rightarrow> do { c_slist_free_all h; ret (e, 0, response_zero) }
       | Some curl \<Rightarrow> do {
           r \<leftarrow> c_perform E (Some curl) opts;
           (accepted, response) \<leftarrow> deliver_chunks E response_zero (cr_chunks r);
           c_slist_free_all h;
           c_curl_cleanup (Some curl);
           ret (f r accepted response, cr_http r, response)
         }) (\<lambda>r. rb_res (snd (snd r)) @ L)" for h c e opts f
    by (auto intro!: moves_no_curl moves_bind_post [OF perform perform_small [OF assms(2)]] moves_bind [OF deliver]
        moves_end_s3_request
        split: option.split prod.split)
  show ?thesis
    unfolding s3_request_def Let_def
    by (rule moves_bind [OF keeps_mp_sign_request [OF assms(1,3,4)]])
      (auto intro!: moves_bind [OF moves_slist_append] moves_bind [OF moves_slist_first]
        moves_bind [OF moves_append_optional] moves_bind [OF moves_curl_init] run
        split: prod.split)
qed

subsection \<open>Properties\<close>


text \<open>
  C30: the signer of the multipart client refines AWS Signature Version 4 for its queries and its content lengths: given
  the query string of parameters that are in order and need no encoding, and a path that needs none, it returns the
  host, the date and exactly the authorization that is specified for the path, the parameters and the headers, the
  content length among them when it is not negative, and its only effect is one reading of the clock.
\<close>

theorem mp_sign_request_is_sigv4:
  assumes "sig_ok cfg mth bucket key" "current_clock E" "plain True (object_path bucket key)"
    and "plain_params params" "length (query_string params) \<le> 1100" "\<bar>cl\<bar> < 2 ^ 63"
  shows "run_state (mp_sign_request E cfg mth bucket key (Some (query_string params)) cl 256 64 2048) tr =
    ((host_of (endpoint cfg), amz_date (gmtime (env_time E tr)),
      aws_authorization E cfg (gmtime (env_time E tr)) mth (object_path bucket key) params
        ((if 0 \<le> cl then [(''content-length'', show_int cl)] else []) @ signed_headers cfg (gmtime (env_time E tr)))),
     Sys (Time (env_time E tr)) # tr)"
  using mp_sign_request_refines [OF assms(1,2) _ assms(6), of "Some (query_string params)"] assms(5)
    aws_authorization_plain [OF assms(3,4)]
  by (simp add: query_text_def mp_signed_headers_def)

definition sample_params :: "(string \<times> string) list" where
  "sample_params = [(''partNumber'', ''2''), (''uploadId'', ''u7'')]"

lemma sample_plain_params: "plain_params sample_params" "length (query_string sample_params) \<le> 1100"
  by code_simp+

theorem mp_sign_request_is_sigv4_witness:
  "plain_params sample_params \<and>
   run_state (mp_sign_request sample_env sample_cfg ''PUT'' ''bucket'' (Some ''key'') (Some (query_string sample_params)) 5 256 64 2048) [] =
    ((host_of (endpoint sample_cfg), amz_date (gmtime (env_time sample_env [])),
      aws_authorization sample_env sample_cfg (gmtime (env_time sample_env [])) ''PUT'' (object_path ''bucket'' (Some ''key'')) sample_params
        ((if (0::int) \<le> 5 then [(''content-length'', show_int 5)] else []) @ signed_headers sample_cfg (gmtime (env_time sample_env [])))),
     [Sys (Time (env_time sample_env []))])"
proof -
  have "sig_ok sample_cfg ''PUT'' ''bucket'' (Some ''key'')"
    using sample_request_ok [of "''PUT''"] by (simp add: request_ok_def)
  from mp_sign_request_is_sigv4 [OF this sample_clock(1) sample_path sample_plain_params, of 5 "[]"] sample_plain_params(1)
  show ?thesis by simp
qed

text \<open>
  C33: the response buffer holds exactly the chunks it accepted: after any body, the invariant (room for the
  terminating NUL) is kept, the bytes added are the accepted chunks in order, and a chunk is refused only when
  the allocator has just failed.
\<close>

theorem response_collects_body:
  assumes "rb_inv buf"
  shows "wp (deliver_chunks E buf cs) (\<lambda>(accepted, buf') t. rb_inv buf' \<and> accepted \<le> length cs \<and>
    rb_bytes buf' = rb_bytes buf @ concat (take accepted cs) \<and>
    (accepted < length cs \<longrightarrow> (\<exists>p n t0. t = Sys (Realloc p n None) # t0))) tr"
  by (rule wp_deliver_chunks_law [OF assms])

theorem response_collects_body_witness:
  "rb_inv response_zero \<and> wp (deliver_chunks sample_env response_zero [[1, 2], [], [3]]) (\<lambda>(accepted, buf') t. rb_inv buf' \<and>
    accepted \<le> length [[1, 2], [], [3 :: byte]] \<and>
    rb_bytes buf' = rb_bytes response_zero @ concat (take accepted [[1, 2], [], [3]]) \<and>
    (accepted < length [[1, 2], [], [3 :: byte]] \<longrightarrow> (\<exists>p n t0. t = Sys (Realloc p n None) # t0))) []"
  by (intro conjI rb_inv_zero response_collects_body [OF rb_inv_zero])

end
