(* ===== verification/MpXml.thy ===== *)
theory MpXml
  imports MpRequest
begin

text \<open>
  The reader of the XML answers in \<^verbatim>\<open>s3rdmamultipart.c\<close>: the text between a pair of tags, the
  upload id, and the list of parts, which is collected in a block that doubles when it is full.
  The lemmas show what the reader extracts, that it finishes and frees what it allocates, and
  that it reads back the part list that the client itself prints.
\<close>

subsection \<open>Tags\<close>

definition find_tag_text :: "string \<Rightarrow> string \<Rightarrow> nat \<Rightarrow> string option" where
  "find_tag_text xml tag outlen =
     (let open_tag = snprintf_str 64 (''<'' @ tag @ ''>'');
          close_tag = snprintf_str 64 (''</'' @ tag @ ''>'')
      in case strstr xml open_tag of
           None \<Rightarrow> None
         | Some p \<Rightarrow>
             (let p = drop (length open_tag) p in
              case strstr p close_tag of
                None \<Rightarrow> None
              | Some q \<Rightarrow>
                  (let n = length p - length q;
                       n = (if outlen \<le> n then outlen - 1 else n)
                   in Some (take n p))))"

definition parse_upload_id :: "string \<Rightarrow> nat \<Rightarrow> string option" where
  "parse_upload_id xml upload_id_len = find_tag_text xml ''UploadId'' upload_id_len"

subsection \<open>Parts\<close>

text \<open>
  \<^verbatim>\<open>completed_part_t\<close>. The entity tag is the C string in the field, \<^term>\<open>None\<close> when the
  field's last byte has never been written and the 255 before it are not NUL; the size is
  \<^term>\<open>None\<close> when the field has never been written.
\<close>

record completed_part =
  cp_number :: int
  cp_etag :: "string option"
  cp_size :: "int option"

definition sizeof_part :: nat where
  "sizeof_part = 272"

text \<open>
  Filling the slot \<open>i\<close>. The first eight slots come from \<^verbatim>\<open>calloc\<close> and are zero, the
  others from \<^verbatim>\<open>realloc\<close> and are indeterminate; \<^verbatim>\<open>strncpy\<close> writes 255 bytes of the field.
\<close>

definition fill_slot :: "nat \<Rightarrow> string \<Rightarrow> string \<Rightarrow> string option \<Rightarrow> completed_part" where
  "fill_slot i num tag sizebuf =
     \<lparr>cp_number = atoi num,
      cp_etag = (if length tag < 255 then Some tag else if i < 8 then Some (take 255 tag) else None),
      cp_size = (case sizebuf of
          Some s \<Rightarrow> Some (atoll s)
        | None \<Rightarrow> if i < 8 then Some 0 else None)\<rparr>"

definition read_block :: "nat \<Rightarrow> string \<Rightarrow> completed_part option" where
  "read_block i block =
     (case find_tag_text block ''PartNumber'' 32 of
        None \<Rightarrow> None
      | Some num \<Rightarrow>
          (case find_tag_text block ''ETag'' 256 of
             None \<Rightarrow> None
           | Some tag \<Rightarrow> Some (fill_slot i num tag (find_tag_text block ''Size'' 64))))"

text \<open>
  \<^verbatim>\<open>if (count == cap) { cap *= 2; realloc }\<close>: the block and its capacity afterwards. The
  doubling of the \<^verbatim>\<open>int\<close> capacity must not overflow.
\<close>

definition reserve_slot :: "env \<Rightarrow> nat \<Rightarrow> nat \<Rightarrow> nat \<Rightarrow> (nat \<times> nat) option io" where
  "reserve_slot E parts cap count =
     (if count = cap then do {
        (if 2 ^ 31 \<le> cap * 2 then emit (Undefined ''signed overflow: cap'') else ret ());
        np \<leftarrow> c_realloc E (Some parts) (cap * 2 * sizeof_part);
        ret (map_option (\<lambda>h. (h, cap * 2)) np)
      } else ret (Some (parts, cap)))"

text \<open>One block: \<^term>\<open>None\<close> when the slot cannot be had.\<close>

definition store_block ::
  "env \<Rightarrow> nat \<times> nat \<times> completed_part list \<Rightarrow> string \<Rightarrow> (nat \<times> nat \<times> completed_part list) option io" where
  "store_block E st block =
     (case st of (parts, cap, slots) \<Rightarrow>
        case read_block (length slots) block of
          None \<Rightarrow> ret (Some st)
        | Some cp \<Rightarrow> do {
            r \<leftarrow> reserve_slot E parts cap (length slots);
            case r of
              None \<Rightarrow> ret None
            | Some (parts, cap) \<Rightarrow> ret (Some (parts, cap, slots @ [cp]))
          })"

lemma strstr_length: "strstr s pat = Some p \<Longrightarrow> length pat \<le> length p \<and> length p \<le> length s"
  by (drule strstr_suffix) (auto dest: prefix_length_le)

lemma part_progress:
  "strstr p0 ''<Part>'' = Some q \<Longrightarrow> strstr q ''</Part>'' = Some e \<Longrightarrow> length (drop 7 e) < length p0"
  by (auto dest!: strstr_length)

text \<open>The scan over the text; \<^verbatim>\<open>strlen("</Part>")\<close> is 7.\<close>

function parts_loop ::
  "env \<Rightarrow> nat \<times> nat \<times> completed_part list \<Rightarrow> string \<Rightarrow> (nat \<times> completed_part list) option io" where
  "parts_loop E st p =
     (case strstr p ''<Part>'' of
        None \<Rightarrow> ret (Some (fst st, snd (snd st)))
      | Some p \<Rightarrow>
          (case strstr p ''</Part>'' of
             None \<Rightarrow> ret (Some (fst st, snd (snd st)))
           | Some end_p \<Rightarrow> do {
               let block_len = length p - length end_p + 7;
               block \<leftarrow> c_malloc E (block_len + 1);
               case block of
                 None \<Rightarrow> do { c_free (fst st); ret None }
               | Some block \<Rightarrow> do {
                   r \<leftarrow> store_block E st (take block_len p);
                   case r of
                     None \<Rightarrow> do { c_free block; c_free (fst st); ret None }
                   | Some st \<Rightarrow> do {
                       c_free block;
                       parts_loop E st (drop 7 end_p)
                     }
                 }
             }))"
  by pat_completeness auto
termination
  by (relation "measure (\<lambda>(E, st, p). length p)") (auto dest: part_progress)

declare parts_loop.simps [simp del]

definition parse_parts :: "env \<Rightarrow> string \<Rightarrow> (nat \<times> completed_part list) option io" where
  "parse_parts E xml = do {
     p \<leftarrow> c_malloc E (8 * sizeof_part);
     case p of
       None \<Rightarrow> ret None
     | Some parts \<Rightarrow> parts_loop E (parts, 8, []) xml
   }"

subsection \<open>The parts of a text\<close>

text \<open>The blocks the loop visits, and the parts read from them, numbered from \<open>i\<close>.\<close>

function part_blocks :: "string \<Rightarrow> string list" where
  "part_blocks p =
     (case strstr p ''<Part>'' of
        None \<Rightarrow> []
      | Some p \<Rightarrow>
          (case strstr p ''</Part>'' of
             None \<Rightarrow> []
           | Some e \<Rightarrow> take (length p - length e + 7) p # part_blocks (drop 7 e)))"
  by pat_completeness auto
termination
  by (relation "measure length") (auto dest: part_progress)

declare part_blocks.simps [simp del]

fun read_blocks :: "nat \<Rightarrow> string list \<Rightarrow> completed_part list" where
  "read_blocks i [] = []"
| "read_blocks i (b # bs) =
     (case read_block i b of
        None \<Rightarrow> read_blocks i bs
      | Some cp \<Rightarrow> cp # read_blocks (Suc i) bs)"

lemma store_block_law:
  "yields (\<lambda>r. \<forall>p c sl. r = Some (p, c, sl) \<longrightarrow>
     sl = slots @ (case read_block (length slots) block of None \<Rightarrow> [] | Some cp \<Rightarrow> [cp]))
   (store_block E (parts, cap, slots) block)"
  unfolding store_block_def
  by (auto intro!: yields_returnI yields_bindI split: option.split)

lemma parts_loop_law:
  "yields (\<lambda>r. \<forall>p sl. r = Some (p, sl) \<longrightarrow> sl = slots @ read_blocks (length slots) (part_blocks p0))
   (parts_loop E (parts, cap, slots) p0)"
proof (induction p0 arbitrary: parts cap slots rule: part_blocks.induct)
  case (1 p0)
  show ?case
  proof (cases "strstr p0 ''<Part>''")
    case None
    then show ?thesis by (simp add: parts_loop.simps part_blocks.simps [of p0] yields_returnI)
  next
    case q: (Some q)
    show ?thesis
    proof (cases "strstr q ''</Part>''")
      case None
      with q show ?thesis by (simp add: parts_loop.simps part_blocks.simps [of p0] yields_returnI)
    next
      case e: (Some e)
      let ?b = "take (length q - length e + 7) q"
      have IH: "yields (\<lambda>r. \<forall>p s. r = Some (p, s) \<longrightarrow> s = sl @ read_blocks (length sl) (part_blocks (drop 7 e)))
          (parts_loop E (p, c, sl) (drop 7 e))" for p c sl
        by (rule "1.IH" [OF q e])
      have sb: "yields (\<lambda>r. \<forall>p sl. r = Some (p, sl) \<longrightarrow> sl = slots @ read_blocks (length slots) (part_blocks p0))
          (case r of
             None \<Rightarrow> do { c_free b; c_free parts; ret None }
           | Some st \<Rightarrow> do { c_free b; parts_loop E st (drop 7 e) })"
        if r: "\<forall>p c sl. r = Some (p, c, sl) \<longrightarrow>
          sl = slots @ (case read_block (length slots) ?b of None \<Rightarrow> [] | Some cp \<Rightarrow> [cp])" for r b
      proof (cases r)
        case None
        then show ?thesis by (auto intro!: yields_bindI yields_returnI)
      next
        case (Some st)
        obtain p c sl where st: "st = (p, c, sl)" by (metis prod_cases3)
        with r Some have "slots @ read_blocks (length slots) (part_blocks p0)
            = sl @ read_blocks (length sl) (part_blocks (drop 7 e))"
          by (simp add: part_blocks.simps [of p0] q e split: option.split)
        then show ?thesis
          using IH [of sl p c] by (auto simp: Some st intro!: yields_bindI)
      qed
      show ?thesis
        by (subst parts_loop.simps)
          (auto simp: q e Let_def intro!: yields_bindI yields_returnI sb
            yields_bind_post [OF store_block_law] split: option.split)
    qed
  qed
qed

lemma parse_parts_law:
  "yields (\<lambda>r. \<forall>p sl. r = Some (p, sl) \<longrightarrow> sl = read_blocks 0 (part_blocks xml)) (parse_parts E xml)"
  unfolding parse_parts_def
  using parts_loop_law [of "[]"] by (auto intro!: yields_bindI yields_returnI split: option.split)

subsection \<open>Contracts\<close>

definition parts_res :: "(nat \<times> 'a) option \<Rightarrow> resource list" where
  "parts_res r = (case r of None \<Rightarrow> [] | Some (h, _) \<Rightarrow> [Res KMem h []])"

text \<open>The block keeps its identity, and the capacity stays far from the bounds of \<^verbatim>\<open>int\<close>.\<close>

lemma moves_store_block:
  assumes "length slots < 2 ^ 30" "holds KMem parts L"
  shows "keeps L (store_block E (parts, cap, slots) block)"
proof -
  have "keeps L (reserve_slot E parts cap (length slots))"
    unfolding reserve_slot_def
    using assms by (auto intro!: moves_bind [OF keeps_realloc] moves_returnI)
  then show ?thesis
    unfolding store_block_def
    by (auto intro!: moves_returnI moves_bind [where F = "\<lambda>_. L"] split: option.split)
qed

lemma store_block_same:
  "wp (store_block E (parts, cap, slots) block)
     (\<lambda>r _. \<forall>p c sl. r = Some (p, c, sl) \<longrightarrow> p = parts \<and> length sl \<le> Suc (length slots)) tr"
  unfolding store_block_def reserve_slot_def
  by (auto simp: wp_rules c_realloc_def Let_def split: option.split)

lemma moves_parts_loop:
  "length slots + length p0 < 2 ^ 30 \<Longrightarrow>
   moves (Res KMem parts [] # L) (parts_loop E (parts, cap, slots) p0) (\<lambda>r. parts_res r @ L)"
proof (induction p0 arbitrary: cap slots rule: part_blocks.induct)
  case (1 p0)
  show ?case
  proof (cases "strstr p0 ''<Part>''")
    case None
    then show ?thesis by (simp add: parts_loop.simps parts_res_def moves_returnI)
  next
    case q: (Some q)
    show ?thesis
    proof (cases "strstr q ''</Part>''")
      case None
      with q show ?thesis by (simp add: parts_loop.simps parts_res_def moves_returnI)
    next
      case e: (Some e)
      have "length (drop 7 e) < length p0"
        by (rule part_progress [OF q e])
      then have IH: "length sl \<le> Suc (length slots) \<Longrightarrow> moves (Res KMem parts [] # L)
          (parts_loop E (parts, c, sl) (drop 7 e)) (\<lambda>r. parts_res r @ L)" for c sl
        using "1.prems" by (intro "1.IH" [OF q e]) simp
      have store: "keeps (Res KMem b [] # Res KMem parts [] # L) (store_block E (parts, cap, slots) x)" for b x
        using "1.prems" by (intro moves_store_block) simp_all
      have lost: "moves (Res KMem parts [] # L) (do { c_free parts; ret None }) (\<lambda>r. parts_res r @ L)"
        by (rule moves_wf) (auto simp: parts_res_def intro!: moves_intros)
      have drop_block: "wf_live (Res KMem b [] # Res KMem parts [] # L) \<Longrightarrow>
          moves (Res KMem b [] # Res KMem parts [] # L) (c_free b) (\<lambda>_. Res KMem parts [] # L)" for b
        using moves_free [of b "Res KMem b [] # Res KMem parts [] # L"] by auto
      show ?thesis
        by (subst parts_loop.simps)
          (auto simp: q e Let_def lost intro!: moves_bindI [OF moves_malloc] moves_bind_post [OF store store_block_same]
            moves_bind [OF drop_block] IH split: option.split)
    qed
  qed
qed

lemma moves_parse_parts:
  assumes "length xml < 2 ^ 30"
  shows "moves L (parse_parts E xml) (\<lambda>r. parts_res r @ L)"
proof -
  have "moves L (ret None) (\<lambda>r. parts_res r @ L)" by (simp add: parts_res_def moves_returnI)
  then show ?thesis
    unfolding parse_parts_def
    using assms by (auto intro!: moves_bind [OF moves_malloc] moves_parts_loop split: option.split)
qed

text \<open>With memory, every text is read.\<close>

lemma malloc_total: "(\<And>tr n. env_malloc E tr n) \<Longrightarrow> yields (\<lambda>r. r \<noteq> None) (c_malloc E n)"
  by (simp add: yields_def c_malloc_def wp_rules Let_def)

lemma parts_loop_total:
  assumes "\<And>tr n. env_malloc E tr n"
  shows "yields (\<lambda>r. r \<noteq> None) (parts_loop E st p0)"
proof (induction p0 arbitrary: st rule: part_blocks.induct)
  case (1 p0)
  note alloc = malloc_total [of E, OF assms]
  have store: "yields (\<lambda>r. r \<noteq> None) (store_block E st b)" for st b
    unfolding store_block_def reserve_slot_def
    by (cases st) (auto simp: yields_def wp_rules c_realloc_def Let_def assms split: option.split)
  have next_part: "yields (\<lambda>r. r \<noteq> None) (do { c_free b; parts_loop E st (drop 7 e) })"
    if "strstr p0 ''<Part>'' = Some q" "strstr q ''</Part>'' = Some e" for b st q e
    by (rule yields_bindI) (rule "1.IH" [OF that])
  show ?case
    by (subst parts_loop.simps)
      (auto simp: Let_def simp del: not_None_eq intro!: yields_returnI yields_bind_post [OF alloc]
        yields_bind_post [OF store] next_part split: option.split)
qed

lemma parse_parts_total:
  assumes "\<And>tr n. env_malloc E tr n"
  shows "yields (\<lambda>r. \<exists>p. r = Some (p, read_blocks 0 (part_blocks xml))) (parse_parts E xml)"
proof -
  note alloc = malloc_total [of E, OF assms]
  have "yields (\<lambda>r. r \<noteq> None) (parse_parts E xml)"
    unfolding parse_parts_def
    by (rule yields_bind_post [OF alloc]) (auto simp del: not_None_eq intro!: parts_loop_total [OF assms])
  with parse_parts_law [of xml E] show ?thesis
    by (fastforce simp: yields_def wp_def split: prod.splits)
qed

subsection \<open>Reading back a printed part list\<close>

text \<open>The part list that \<^verbatim>\<open>s3_complete_multipart\<close> prints, one element per part.\<close>

definition part_xml :: "int \<times> string \<Rightarrow> string" where
  "part_xml pe = ''<Part><PartNumber>'' @ show_int (fst pe) @ ''</PartNumber><ETag>'' @ snd pe @
     ''</ETag></Part>''"

definition complete_xml :: "(int \<times> string) list \<Rightarrow> string" where
  "complete_xml pes = ''<CompleteMultipartUpload>'' @ concat (map part_xml pes) @ ''</CompleteMultipartUpload>''"

lemma show_int_chars: "c \<in> set (show_int i) \<Longrightarrow> c = CHR ''-'' \<or> is_digit c"
  by (auto simp: show_int_def dest: show_nat_digits split: if_splits)

lemma show_int_no_lt: "CHR ''<'' \<notin> set (show_int i)"
  by (auto simp: is_digit_def dest!: show_int_chars)

lemma strstr_skip_lt:
  "CHR ''<'' \<notin> set ds \<Longrightarrow> strstr (ds @ s) (CHR ''<'' # pat) = strstr s (CHR ''<'' # pat)"
  by (rule strstr_skip) auto

lemma strtoll_show_int:
  assumes "- (2 ^ 63) \<le> i" "i < 2 ^ 63"
  shows "strtoll (show_int i) = (i, [])"
proof (cases "i < 0")
  case True
  then show ?thesis
    using assms strto_minus_show_nat [of "[]" "nat (- i)"] by (simp add: show_int_def strtoll_def)
next
  case False
  then show ?thesis
    using assms strto_show_nat [of "[]" "nat i"] by (simp add: show_int_def strtoll_def)
qed

lemma atoi_show_int:
  assumes "- (2 ^ 31) \<le> i" "i < 2 ^ 31"
  shows "atoi (show_int i) = i"
  using assms by (simp add: atoi_def strtoll_show_int signed_take_bit_int_eq_self)

lemma read_part_xml:
  assumes "- (2 ^ 31) \<le> fst pe" "fst pe < 2 ^ 31" "CHR ''<'' \<notin> set (snd pe)" "length (snd pe) < 255"
  shows "read_block i (part_xml pe) =
    Some \<lparr>cp_number = fst pe, cp_etag = Some (snd pe), cp_size = (if i < 8 then Some 0 else None)\<rparr>"
proof -
  note skip = strstr_skip_lt [OF show_int_no_lt] strstr_skip_lt [OF assms(3)]
  have "\<bar>fst pe\<bar> < 10 ^ 10" using assms(1,2) by simp
  then have "length (show_int (fst pe)) \<le> 11" using length_show_int [of "fst pe" 10] by simp
  then have num: "find_tag_text (part_xml pe) ''PartNumber'' 32 = Some (show_int (fst pe))"
    by (simp add: find_tag_text_def part_xml_def snprintf_def Let_def skip)
  have tag: "find_tag_text (part_xml pe) ''ETag'' 256 = Some (snd pe)"
    using assms(4) by (simp add: find_tag_text_def part_xml_def snprintf_def Let_def skip)
  have sz: "find_tag_text (part_xml pe) ''Size'' 64 = None"
    by (simp add: find_tag_text_def part_xml_def snprintf_def Let_def skip)
  show ?thesis
    using assms by (simp add: read_block_def num tag sz fill_slot_def atoi_show_int)
qed

lemma part_blocks_part_xml:
  assumes "CHR ''<'' \<notin> set (snd pe)"
  shows "part_blocks (part_xml pe @ rest) = part_xml pe # part_blocks rest"
proof -
  note skip = strstr_skip_lt [OF show_int_no_lt] strstr_skip_lt [OF assms]
  have s: "strstr (part_xml pe @ rest) ''<Part>'' = Some (part_xml pe @ rest)"
    by (simp add: part_xml_def)
  have e: "strstr (part_xml pe @ rest) ''</Part>'' = Some (''</Part>'' @ rest)"
    by (simp add: part_xml_def skip)
  have "length (part_xml pe @ rest) - length (''</Part>'' @ rest) + 7 = length (part_xml pe)"
    by (simp add: part_xml_def)
  with s e show ?thesis by (subst part_blocks.simps) simp
qed

lemma part_blocks_complete_xml:
  assumes "\<forall>pe \<in> set pes. CHR ''<'' \<notin> set (snd pe)"
  shows "part_blocks (complete_xml pes) = map part_xml pes"
proof -
  have "part_blocks (concat (map part_xml pes) @ ''</CompleteMultipartUpload>'') = map part_xml pes"
    using assms
  proof (induction pes)
    case Nil
    then show ?case by (simp add: part_blocks.simps)
  next
    case (Cons pe pes)
    then show ?case by (simp add: part_blocks_part_xml)
  qed
  moreover have "part_blocks (''<CompleteMultipartUpload>'' @ s) = part_blocks s" for s
    by (subst (1 2) part_blocks.simps) simp
  ultimately show ?thesis by (simp add: complete_xml_def)
qed

text \<open>The parts read from blocks that each hold one part.\<close>

lemma read_blocks_map:
  assumes "\<And>i x. x \<in> set xs \<Longrightarrow> \<exists>cp. read_block i (f x) = Some cp \<and> h cp = k x"
  shows "map h (read_blocks i (map f xs)) = map k xs"
  using assms
proof (induction xs arbitrary: i)
  case Nil
  then show ?case by simp
next
  case (Cons x xs)
  obtain cp where "read_block i (f x) = Some cp" "h cp = k x" using Cons.prems [of x i] by auto
  moreover have "map h (read_blocks (Suc i) (map f xs)) = map k xs"
    by (rule Cons.IH) (rule Cons.prems, simp)
  ultimately show ?case by simp
qed

lemma read_complete_xml:
  assumes "\<forall>(n, e) \<in> set pes. - (2 ^ 31) \<le> n \<and> n < 2 ^ 31 \<and> CHR ''<'' \<notin> set e \<and> length e < 255"
  shows "map (\<lambda>cp. (cp_number cp, cp_etag cp)) (read_blocks 0 (part_blocks (complete_xml pes)))
    = map (\<lambda>(n, e). (n, Some e)) pes"
proof -
  have "part_blocks (complete_xml pes) = map part_xml pes"
    by (rule part_blocks_complete_xml) (use assms in auto)
  moreover have "map (\<lambda>cp. (cp_number cp, cp_etag cp)) (read_blocks 0 (map part_xml pes))
      = map (\<lambda>(n, e). (n, Some e)) pes"
    by (rule read_blocks_map) (use assms in \<open>auto simp: read_part_xml\<close>)
  ultimately show ?thesis by simp
qed

subsection \<open>Properties\<close>


text \<open>
  C34: with memory, \<^verbatim>\<open>parse_parts\<close> ends on every text and returns the parts of its \<^verbatim>\<open><Part>\<close> blocks in
  order, skipping blocks without a number or an entity tag.
\<close>

theorem parse_parts_succeeds:
  assumes "\<And>tr n. env_malloc E tr n"
  shows "wp (parse_parts E xml) (\<lambda>r _. \<exists>p. r = Some (p, read_blocks 0 (part_blocks xml))) tr"
  by (rule yields_wp [OF parse_parts_total [OF assms]])

theorem parse_parts_succeeds_witness:
  "wp (parse_parts sample_env (complete_xml [(1, ''a'')]))
     (\<lambda>r _. \<exists>p. r = Some (p, read_blocks 0 (part_blocks (complete_xml [(1, ''a'')])))) []"
  by (rule parse_parts_succeeds) (simp add: sample_env_def)

text \<open>
  C35: whatever the allocator does, \<^verbatim>\<open>parse_parts\<close> frees every block it makes, keeps the part array
  exactly when it succeeds, and stays within the bounds of its integers for a text of less than a
  gigabyte.
\<close>

theorem parse_parts_contract:
  assumes "length xml < 2 ^ 30"
  shows "moves L (parse_parts E xml) (\<lambda>r. (case r of None \<Rightarrow> [] | Some (h, _) \<Rightarrow> [Res KMem h []]) @ L)"
  using moves_parse_parts [OF assms] by (simp add: parts_res_def)

theorem parse_parts_contract_witness:
  "length (complete_xml [(1, ''a'')]) < 2 ^ 30 \<and>
   moves [] (parse_parts sample_env (complete_xml [(1, ''a'')]))
     (\<lambda>r. (case r of None \<Rightarrow> [] | Some (h, _) \<Rightarrow> [Res KMem h []]) @ [])"
proof -
  have "length (complete_xml [(1, ''a'')]) < 2 ^ 30"
    by (simp add: complete_xml_def part_xml_def show_int_def show_nat.simps)
  with parse_parts_contract [OF this] show ?thesis by blast
qed

end
