(* ===== verification/MpOps.thy ===== *)
theory MpOps
  imports MpXml
begin

text \<open>
  The command line of \<^verbatim>\<open>s3rdmamultipart.c\<close> and its requests on a multipart upload: create,
  the empty PUT of a part, list parts, complete, abort and list uploads. The lemmas show what
  every request asks for and answers with, that the completion body is never cut off, and that
  every request frees what it allocates.
\<close>

subsection \<open>The command line\<close>

record options =
  op_action :: string
  op_bucket :: "string option"
  op_object :: "string option"
  op_file_path :: "string option"
  op_upload_id :: "string option"
  op_endpoint :: string
  op_rdma_dev :: string
  op_ak :: string
  op_sk :: string
  op_prefix :: "string option"
  op_delimiter :: "string option"
  op_key_marker :: "string option"
  op_upload_id_marker :: "string option"
  op_part_size :: int
  op_max_uploads :: int
  op_part :: int

definition init_options :: options where
  "init_options = \<lparr>op_action = ''all'', op_bucket = None, op_object = None, op_file_path = None,
     op_upload_id = None, op_endpoint = ''http://127.0.0.1:8901'', op_rdma_dev = ''rxe0'',
     op_ak = ''admin-ak'', op_sk = ''admin-sk'', op_prefix = None, op_delimiter = None,
     op_key_marker = None, op_upload_id_marker = None, op_part_size = 5 * 1024 * 1024,
     op_max_uploads = 1000, op_part = 0\<rparr>"

text \<open>The exits of \<^verbatim>\<open>parse_args\<close>.\<close>

datatype arg_error = Usage | Bad_Part_Size

text \<open>One option with its value; \<^term>\<open>None\<close> for an unknown one.\<close>

definition set_option :: "string \<Rightarrow> string \<Rightarrow> options \<Rightarrow> options option" where
  "set_option a v opts =
     (if a = ''-action'' then Some (opts\<lparr>op_action := v\<rparr>)
      else if a = ''-bucket'' then Some (opts\<lparr>op_bucket := Some v\<rparr>)
      else if a = ''-object'' then Some (opts\<lparr>op_object := Some v\<rparr>)
      else if a = ''-file'' then Some (opts\<lparr>op_file_path := Some v\<rparr>)
      else if a = ''-uploadid'' then Some (opts\<lparr>op_upload_id := Some v\<rparr>)
      else if a = ''-part'' then Some (opts\<lparr>op_part := atoi v\<rparr>)
      else if a = ''-partsize'' then Some (opts\<lparr>op_part_size := atoll v\<rparr>)
      else if a = ''-endpoint'' then Some (opts\<lparr>op_endpoint := v\<rparr>)
      else if a = ''-rdma-dev'' then Some (opts\<lparr>op_rdma_dev := v\<rparr>)
      else if a = ''-ak'' then Some (opts\<lparr>op_ak := v\<rparr>)
      else if a = ''-sk'' then Some (opts\<lparr>op_sk := v\<rparr>)
      else if a = ''-prefix'' then Some (opts\<lparr>op_prefix := Some v\<rparr>)
      else if a = ''-delimiter'' then Some (opts\<lparr>op_delimiter := Some v\<rparr>)
      else if a = ''-max-uploads'' then Some (opts\<lparr>op_max_uploads := atoll v\<rparr>)
      else if a = ''-key-marker'' then Some (opts\<lparr>op_key_marker := Some v\<rparr>)
      else if a = ''-upload-id-marker'' then Some (opts\<lparr>op_upload_id_marker := Some v\<rparr>)
      else None)"

fun option_loop :: "string list \<Rightarrow> options \<Rightarrow> arg_error + options" where
  "option_loop [] opts = Inr opts"
| "option_loop [a] opts = Inl Usage"
| "option_loop (a # v # rest) opts =
     (case set_option a v opts of
        None \<Rightarrow> Inl Usage
      | Some opts \<Rightarrow> option_loop rest opts)"

definition parse_args :: "string list \<Rightarrow> arg_error + options" where
  "parse_args args =
     (case option_loop args init_options of
        Inl e \<Rightarrow> Inl e
      | Inr opts \<Rightarrow>
          if op_bucket opts = None then Inl Usage
          else if op_action opts \<noteq> ''list-uploads'' \<and> op_object opts = None then Inl Usage
          else if op_part_size opts \<le> 0 then Inl Bad_Part_Size
          else Inr opts)"

definition mp_ws_url_from_endpoint :: "string \<Rightarrow> nat \<Rightarrow> string" where
  "mp_ws_url_from_endpoint ep outlen =
     (let (scheme, p) = (case strstr ep ''://'' of
            Some p \<Rightarrow> (if strncmp_eq ep ''https://'' 8 then ''wss'' else ''ws'', drop 3 p)
          | None \<Rightarrow> (''ws'', ep))
      in snprintf_str outlen (scheme @ ''://'' @ p @ ''/rdma-ctrl''))"

subsection \<open>The requests\<close>

text \<open>\<^verbatim>\<open>free(resp.data)\<close>, where \<^verbatim>\<open>free(NULL)\<close> does nothing.\<close>

definition free_response :: "response_buf \<Rightarrow> unit io" where
  "free_response buf = (case rb_data buf of None \<Rightarrow> ret () | Some h \<Rightarrow> c_free h)"

definition s3_create_multipart :: "env \<Rightarrow> s3_config \<Rightarrow> string \<Rightarrow> string option \<Rightarrow> nat \<Rightarrow> nat \<Rightarrow> string result io" where
  "s3_create_multipart E cfg bucket object upload_id_len errlen = do {
     (rc, http, resp) \<leftarrow> s3_request E cfg ''POST'' bucket object (Some ''uploads='') (Some ''uploads='')
       None None response_zero errlen;
     let res = (case rc of
         Fail e \<Rightarrow> Fail e
       | Ok _ \<Rightarrow>
           (case parse_upload_id (response_text resp) upload_id_len of
              Some upload_id \<Rightarrow> Ok upload_id
            | None \<Rightarrow> Fail (Some (snprintf_str errlen
                (''CreateMultipartUpload response missing UploadId: '' @ response_text resp)))));
     free_response resp;
     ret res
   }"

definition s3_upload_part_empty ::
  "env \<Rightarrow> s3_config \<Rightarrow> string \<Rightarrow> string option \<Rightarrow> string \<Rightarrow> int \<Rightarrow> string \<Rightarrow> nat \<Rightarrow> nat \<Rightarrow> string result io" where
  "s3_upload_part_empty E cfg bucket object upload_id part_number request_id etag_len errlen = do {
     let query = snprintf_str 512 (''partNumber='' @ show_int part_number @ ''&uploadId='' @ upload_id);
     (rc, http, resp) \<leftarrow> s3_request E cfg ''PUT'' bucket object (Some query) (Some query)
       None (Some (''X-RDMA-Request-ID'', request_id)) response_zero errlen;
     let res = (case rc of
         Fail e \<Rightarrow> Fail e
       | Ok _ \<Rightarrow> Ok (snprintf_str etag_len (dq @ ''part-'' @ show_int part_number @ dq)));
     free_response resp;
     ret res
   }"

definition upload_query :: "string \<Rightarrow> string" where
  "upload_query upload_id = snprintf_str 512 (''uploadId='' @ upload_id)"

text \<open>The block of parts and its slots; \<^verbatim>\<open>*parts\<close> and \<^verbatim>\<open>*count\<close> are set when it succeeds.\<close>

definition s3_list_parts ::
  "env \<Rightarrow> s3_config \<Rightarrow> string \<Rightarrow> string option \<Rightarrow> string \<Rightarrow> nat \<Rightarrow> (nat \<times> completed_part list) result io" where
  "s3_list_parts E cfg bucket object upload_id errlen = do {
     let query = upload_query upload_id;
     (rc, http, resp) \<leftarrow> s3_request E cfg ''GET'' bucket object (Some query) (Some query)
       None None response_zero errlen;
     res \<leftarrow> (case rc of
         Fail e \<Rightarrow> ret (Fail e)
       | Ok _ \<Rightarrow> do {
           r \<leftarrow> parse_parts E (response_text resp);
           ret (case r of
               None \<Rightarrow> Fail (Some (snprintf_str errlen ''failed to parse ListParts response''))
             | Some ps \<Rightarrow> Ok ps)
         });
     free_response resp;
     ret res
   }"

text \<open>
  The completion body in its buffer of \<open>cap\<close> bytes. \<^term>\<open>None\<close> is a write past the buffer
  or the reading of an unterminated entity tag.
\<close>

definition shown_etag :: "string \<Rightarrow> string" where
  "shown_etag e = (if e \<noteq> [] then e else dq @ dq)"

fun print_parts :: "nat \<Rightarrow> string \<times> nat \<Rightarrow> completed_part list \<Rightarrow> (string \<times> nat) option" where
  "print_parts cap b [] = Some b"
| "print_parts cap b (cp # cps) =
     (case cp_etag cp of
        None \<Rightarrow> None
      | Some e \<Rightarrow>
          (case snprintf_at cap b (''<Part><PartNumber>'' @ show_int (cp_number cp) @
               ''</PartNumber><ETag>'' @ shown_etag e @ ''</ETag></Part>'') of
             None \<Rightarrow> None
           | Some b \<Rightarrow> print_parts cap b cps))"

definition complete_body :: "nat \<Rightarrow> completed_part list \<Rightarrow> string option" where
  "complete_body cap cps =
     (case snprintf_at cap ([], 0) ''<CompleteMultipartUpload>'' of
        None \<Rightarrow> None
      | Some b \<Rightarrow>
          (case print_parts cap b cps of
             None \<Rightarrow> None
           | Some b \<Rightarrow> map_option fst (snprintf_at cap b ''</CompleteMultipartUpload>'')))"

text \<open>A text that the code reads or writes out of bounds is undefined behaviour.\<close>

definition c_text :: "string \<Rightarrow> string option \<Rightarrow> string io" where
  "c_text what s = (case s of Some t \<Rightarrow> ret t | None \<Rightarrow> do { emit (Undefined what); ret [] })"

definition s3_complete_multipart ::
  "env \<Rightarrow> s3_config \<Rightarrow> string \<Rightarrow> string option \<Rightarrow> string \<Rightarrow> completed_part list \<Rightarrow> nat \<Rightarrow> unit result io" where
  "s3_complete_multipart E cfg bucket object upload_id parts errlen = do {
     let cap = 256 + length parts * 384;
     b \<leftarrow> c_malloc E cap;
     case b of
       None \<Rightarrow> ret (Fail (Some (snprintf_str errlen ''calloc complete body failed'')))
     | Some body_mem \<Rightarrow> do {
         body \<leftarrow> c_text ''completion body'' (complete_body cap parts);
         let query = upload_query upload_id;
         (rc, http, resp) \<leftarrow> s3_request E cfg ''POST'' bucket object (Some query) (Some query)
           (Some body) None response_zero errlen;
         (if is_Ok rc then emit (Stderr (response_text resp @ nl)) else ret ());
         free_response resp;
         c_free body_mem;
         ret rc
       }
   }"

definition s3_abort_multipart ::
  "env \<Rightarrow> s3_config \<Rightarrow> string \<Rightarrow> string option \<Rightarrow> string \<Rightarrow> nat \<Rightarrow> unit result io" where
  "s3_abort_multipart E cfg bucket object upload_id errlen = do {
     let query = upload_query upload_id;
     (rc, http, resp) \<leftarrow> s3_request E cfg ''DELETE'' bucket object (Some query) (Some query)
       None None response_zero errlen;
     free_response resp;
     ret rc
   }"

text \<open>
  The query of the upload list, in a buffer of 1024 bytes: \<^term>\<open>None\<close> when a value is so
  long that the next one is written past the buffer.
\<close>

definition add_query :: "string \<Rightarrow> string option \<Rightarrow> (string \<times> nat) option \<Rightarrow> (string \<times> nat) option" where
  "add_query name v b =
     (case v of
        None \<Rightarrow> b
      | Some v \<Rightarrow> (case b of None \<Rightarrow> None | Some b \<Rightarrow> snprintf_at 1024 b (''&'' @ name @ ''='' @ v)))"

definition list_uploads_query :: "options \<Rightarrow> string option" where
  "list_uploads_query opts =
     (let b = snprintf_at 1024 ([], 0) ''uploads='';
          b = add_query ''delimiter'' (op_delimiter opts) b;
          b = add_query ''key-marker'' (op_key_marker opts) b;
          b = add_query ''max-uploads''
            (if 0 < op_max_uploads opts then Some (show_int (op_max_uploads opts)) else None) b;
          b = add_query ''prefix'' (op_prefix opts) b;
          b = add_query ''upload-id-marker'' (op_upload_id_marker opts) b
      in map_option fst b)"

definition s3_list_uploads :: "env \<Rightarrow> s3_config \<Rightarrow> options \<Rightarrow> string \<Rightarrow> nat \<Rightarrow> unit result io" where
  "s3_list_uploads E cfg opts bucket errlen = do {
     query \<leftarrow> c_text ''list query'' (list_uploads_query opts);
     (rc, http, resp) \<leftarrow> s3_request E cfg ''GET'' bucket None (Some query) (Some query)
       None None response_zero errlen;
     (if is_Ok rc then emit (Stdout (response_text resp @ nl)) else ret ());
     free_response resp;
     ret rc
   }"

subsection \<open>The completion body\<close>

text \<open>A part whose fields the code may print: an \<^verbatim>\<open>int\<close> number and a terminated entity tag.\<close>

definition printable :: "completed_part \<Rightarrow> bool" where
  "printable cp \<longleftrightarrow> \<bar>cp_number cp\<bar> \<le> 2 ^ 31 \<and> (case cp_etag cp of None \<Rightarrow> False | Some e \<Rightarrow> length e \<le> 255)"

definition shown_part :: "completed_part \<Rightarrow> int \<times> string" where
  "shown_part cp = (cp_number cp, case cp_etag cp of None \<Rightarrow> [] | Some e \<Rightarrow> shown_etag e)"

lemma length_part_xml:
  assumes "printable cp"
  shows "length (part_xml (shown_part cp)) \<le> 317"
proof -
  have "length (show_int (cp_number cp)) \<le> 11"
    using length_show_int [of "cp_number cp" 10] assms by (simp add: printable_def)
  moreover have "length (snd (shown_part cp)) \<le> 255"
    using assms by (auto simp: printable_def shown_part_def shown_etag_def split: option.splits)
  ultimately show ?thesis by (simp add: part_xml_def shown_part_def)
qed

lemma print_parts_fits:
  "list_all printable cps \<Longrightarrow> length b + 317 * length cps < cap \<Longrightarrow>
   print_parts cap (b, length b) cps =
     Some (b @ concat (map (part_xml \<circ> shown_part) cps), length b + length (concat (map (part_xml \<circ> shown_part) cps)))"
proof (induction cps arbitrary: b)
  case Nil
  then show ?case by simp
next
  case (Cons cp cps)
  then obtain e where e: "cp_etag cp = Some e" and ok: "printable cp"
    by (auto simp: printable_def split: option.splits)
  let ?x = "part_xml (shown_part cp)"
  have x: "?x = ''<Part><PartNumber>'' @ show_int (cp_number cp) @ ''</PartNumber><ETag>'' @ shown_etag e @
      ''</ETag></Part>''"
    by (simp add: part_xml_def shown_part_def e)
  have len: "length ?x \<le> 317" by (rule length_part_xml [OF ok])
  with Cons.prems have "snprintf_at cap (b, length b) ?x = Some (b @ ?x, length (b @ ?x))"
    by (intro snprintf_at_fits) simp
  moreover have "print_parts cap (b @ ?x, length (b @ ?x)) cps = Some ((b @ ?x) @ concat (map (part_xml \<circ> shown_part) cps),
      length (b @ ?x) + length (concat (map (part_xml \<circ> shown_part) cps)))"
    using Cons.prems len by (intro Cons.IH) simp_all
  ultimately show ?case
    unfolding print_parts.simps e option.case x [symmetric] by (simp add: comp_def)
qed

lemma complete_body_fits:
  assumes "list_all printable cps"
  shows "complete_body (256 + length cps * 384) cps = Some (complete_xml (map shown_part cps))"
proof -
  let ?cap = "256 + length cps * 384" and ?h = "''<CompleteMultipartUpload>''"
  let ?b = "?h @ concat (map (part_xml \<circ> shown_part) cps)"
  have head: "snprintf_at ?cap ([], 0) ?h = Some (?h, length ?h)"
    by (simp add: snprintf_at_def)
  have parts: "print_parts ?cap (?h, length ?h) cps = Some (?b, length ?b)"
    using print_parts_fits [OF assms, of ?h ?cap] by simp
  have "length (concat (map (part_xml \<circ> shown_part) cps)) \<le> 317 * length cps"
    using assms by (induction cps) (auto dest: length_part_xml)
  then have "snprintf_at ?cap (?b, length ?b) ''</CompleteMultipartUpload>'' =
      Some (?b @ ''</CompleteMultipartUpload>'', length (?b @ ''</CompleteMultipartUpload>''))"
    by (intro snprintf_at_fits) simp
  with head parts show ?thesis
    by (simp add: complete_body_def complete_xml_def comp_def del: append_Cons)
qed

subsection \<open>The query of the upload list\<close>

definition field :: "string \<Rightarrow> string option \<Rightarrow> string" where
  "field name v = (case v of None \<Rightarrow> [] | Some v \<Rightarrow> ''&'' @ name @ ''='' @ v)"

definition list_uploads_text :: "options \<Rightarrow> string" where
  "list_uploads_text opts = ''uploads='' @ field ''delimiter'' (op_delimiter opts) @
     field ''key-marker'' (op_key_marker opts) @
     field ''max-uploads'' (if 0 < op_max_uploads opts then Some (show_int (op_max_uploads opts)) else None) @
     field ''prefix'' (op_prefix opts) @ field ''upload-id-marker'' (op_upload_id_marker opts)"

lemma add_query_fits:
  "length (b @ field name v) < 1024 \<Longrightarrow>
   add_query name v (Some (b, length b)) = Some (b @ field name v, length (b @ field name v))"
  by (cases v) (simp_all add: add_query_def field_def snprintf_at_def)

lemma list_uploads_query_fits:
  assumes "length (list_uploads_text opts) < 1024"
  shows "list_uploads_query opts = Some (list_uploads_text opts)"
proof -
  have start: "snprintf_at 1024 ([], 0) ''uploads='' = Some (''uploads='', length ''uploads='')"
    by (simp add: snprintf_at_def)
  define mx where "mx = (if 0 < op_max_uploads opts then Some (show_int (op_max_uploads opts)) else None)"
  let ?b1 = "''uploads='' @ field ''delimiter'' (op_delimiter opts)"
  let ?b2 = "?b1 @ field ''key-marker'' (op_key_marker opts)"
  let ?b3 = "?b2 @ field ''max-uploads'' mx"
  let ?b4 = "?b3 @ field ''prefix'' (op_prefix opts)"
  let ?b5 = "?b4 @ field ''upload-id-marker'' (op_upload_id_marker opts)"
  have whole: "list_uploads_text opts = ?b5"
    by (simp add: list_uploads_text_def mx_def)
  then have lens: "length ?b1 < 1024" "length ?b2 < 1024" "length ?b3 < 1024" "length ?b4 < 1024"
    "length ?b5 < 1024"
    using assms by simp_all
  show ?thesis
    unfolding list_uploads_query_def start Let_def mx_def [symmetric] whole
    by (simp only: add_query_fits [OF lens(1)] add_query_fits [OF lens(2)] add_query_fits [OF lens(3)]
        add_query_fits [OF lens(4)] add_query_fits [OF lens(5)] option.map fst_conv)
qed

text \<open>A value that fills the buffer makes the write of the next one start past its end.\<close>

lemma add_query_None: "add_query name v None = None"
  by (simp add: add_query_def split: option.split)

lemma list_uploads_query_overflow:
  assumes "op_delimiter opts = Some d" "1005 < length d" "0 < op_max_uploads opts"
  shows "list_uploads_query opts = None"
  using assms
  by (cases "op_key_marker opts")
    (simp_all add: list_uploads_query_def Let_def add_query_def snprintf_at_def split: option.split)

text \<open>Short of that, the query is in the buffer, cut off if need be.\<close>

definition query_inv :: "(string \<times> nat) option \<Rightarrow> bool" where
  "query_inv b \<longleftrightarrow> (case b of None \<Rightarrow> True | Some (s, n) \<Rightarrow> length s = min n 1023)"

lemma query_inv_add: "query_inv b \<Longrightarrow> query_inv (add_query name v b)"
  by (auto simp: query_inv_def add_query_def snprintf_at_def split: option.splits)

lemma list_uploads_query_length:
  assumes "list_uploads_query opts = Some q"
  shows "length q \<le> 1023"
proof -
  have "query_inv (snprintf_at 1024 ([], 0) ''uploads='')" by (simp add: query_inv_def snprintf_at_def)
  note inv = this [THEN query_inv_add, THEN query_inv_add, THEN query_inv_add, THEN query_inv_add, THEN query_inv_add]
  let ?b = "add_query ''upload-id-marker'' (op_upload_id_marker opts) (add_query ''prefix'' (op_prefix opts)
      (add_query ''max-uploads'' (if 0 < op_max_uploads opts then Some (show_int (op_max_uploads opts)) else None)
        (add_query ''key-marker'' (op_key_marker opts) (add_query ''delimiter'' (op_delimiter opts)
          (snprintf_at 1024 ([], 0) ''uploads='')))))"
  have b: "query_inv ?b" by (rule inv)
  obtain n where "?b = Some (q, n)" using assms by (auto simp: list_uploads_query_def Let_def)
  with b show ?thesis unfolding query_inv_def by simp
qed

subsection \<open>What the requests answer\<close>

text \<open>A request that succeeds has collected the whole body of one reply.\<close>

definition reply_text :: "curl_reply \<Rightarrow> string" where
  "reply_text r = cstring (chars_of (concat (cr_chunks r)))"

lemma response_text_bytes: "rb_inv buf \<Longrightarrow> response_text buf = cstring (chars_of (rb_bytes buf))"
  by (auto simp: response_text_def rb_inv_def chars_of_def cstring_def split: option.splits)

definition server_reply :: "env \<Rightarrow> curl_reply \<Rightarrow> bool" where
  "server_reply E r \<longleftrightarrow> (\<exists>tr c opts. r = env_perform E tr c opts)"

lemma perform_reply: "yields (server_reply E) (c_perform E (Some c) opts)"
  by (auto simp: yields_def c_perform_def Let_def wp_rules server_reply_def)

lemma deliver_text:
  "yields (\<lambda>(k, buf'). k = length cs \<longrightarrow> response_text buf' = cstring (chars_of (concat cs)))
     (deliver_chunks E response_zero cs)"
proof -
  have "yields (\<lambda>(k, buf'). rb_inv buf' \<and> (k = length cs \<longrightarrow> rb_bytes buf' = concat cs)) (deliver_chunks E response_zero cs)"
    using deliver_chunks_law [OF rb_inv_zero, of cs E]
    by (fastforce simp: yields_def wp_def response_zero_def split: prod.splits)
  then show ?thesis
    by (fastforce simp: yields_def wp_def response_text_bytes split: prod.splits)
qed

lemma s3_request_reply:
  "yields (\<lambda>(rc, http, buf). is_Ok rc \<longrightarrow> (\<exists>r. server_reply E r \<and> response_text buf = reply_text r))
   (s3_request E cfg mth bucket key query cq body extra response_zero errlen)"
  unfolding s3_request_def Let_def
  by (auto intro!: yields_bindI yields_returnI yields_bind_post [OF perform_reply]
      yields_bind_post [OF deliver_text] simp: reply_text_def split: option.split)

subsection \<open>What the requests ask for\<close>

definition mp_lines :: "env \<Rightarrow> s3_config \<Rightarrow> string \<Rightarrow> string \<Rightarrow> string option \<Rightarrow> string \<Rightarrow> int \<Rightarrow> int \<Rightarrow> string list" where
  "mp_lines E cfg mth bucket key q cl t =
     [''Host: '' @ host_of (endpoint cfg), ''x-amz-date: '' @ amz_date (gmtime t),
      ''Authorization: '' @ sigv4_authorization E cfg (gmtime t) mth (object_path bucket key) q
        (mp_signed_headers cl cfg (gmtime t)), ''Accept:'', ''Content-Type:'']"

definition mp_request_ok :: "s3_config \<Rightarrow> string \<Rightarrow> string \<Rightarrow> string option \<Rightarrow> string \<Rightarrow> bool" where
  "mp_request_ok cfg mth bucket key q \<longleftrightarrow> sig_ok cfg mth bucket key \<and> q \<noteq> [] \<and> length q \<le> 1100 \<and>
     length (endpoint cfg @ object_path bucket key @ ''?'' @ q) < 4096"

definition extra_lines :: "(string \<times> string) option \<Rightarrow> string list" where
  "extra_lines extra = (case extra of None \<Rightarrow> [] | Some (n, v) \<Rightarrow> [n @ '': '' @ v])"

lemma mp_url_ok:
  "mp_request_ok cfg mth bucket key q \<Longrightarrow> mp_url cfg bucket key (Some q) = endpoint cfg @ object_path bucket key @ ''?'' @ q"
  by (auto simp: mp_request_ok_def mp_url_def Let_def object_path_def snprintf_def split: option.splits)

lemma deliver_chunks_requests:
  "requests t = R \<Longrightarrow> wp (deliver_chunks E buf cs) (\<lambda>_ t'. requests t' = R) t"
proof (induction cs arbitrary: buf t)
  case Nil
  then show ?case by (simp add: wp_rules)
next
  case (Cons c cs)
  have w: "wp (write_response E buf c) (\<lambda>_ t'. requests t' = R) t"
    using Cons.prems by (simp add: write_response_def Let_def wp_rules c_realloc_def split: option.split)
  show ?case
    unfolding deliver_chunks.simps wp_bind
    by (rule wp_mono [OF w]) (auto simp: wp_rules intro!: wp_mono [OF Cons.IH])
qed

lemma wp_deliver_chunks:
  assumes "\<And>k b t'. requests t' = requests t \<Longrightarrow>
      (k = length cs \<Longrightarrow> response_text b = cstring (chars_of (concat cs))) \<Longrightarrow> Q (k, b) t'"
  shows "wp (deliver_chunks E response_zero cs) Q t"
  by (rule wp_mono [OF wp_conj [OF deliver_chunks_requests [OF refl] yields_wp [OF deliver_text]]])
    (use assms in \<open>auto split: prod.splits\<close>)

text \<open>The post-condition of a request: none was made, or one with these lines and options.\<close>

definition mp_requested ::
  "env \<Rightarrow> s3_config \<Rightarrow> string \<Rightarrow> string \<Rightarrow> string option \<Rightarrow> string \<Rightarrow> string option \<Rightarrow> (string \<times> string) option \<Rightarrow>
   trace \<Rightarrow> unit result \<times> int \<times> response_buf \<Rightarrow> trace \<Rightarrow> bool" where
  "mp_requested E cfg mth bucket key q body extra t res t' \<longleftrightarrow>
     \<not> is_Ok (fst res) \<and> requests t' = requests t \<or>
     (\<exists>h s r. requests t' = (method_opts mth body (base_opts (endpoint cfg @ object_path bucket key @ ''?'' @ q)
         (Some (h, mp_lines E cfg mth bucket key q (case body of None \<Rightarrow> - 1 | Some b \<Rightarrow> int (length b)) s @
           extra_lines extra)) Write_Response), r) # requests t \<and>
       (is_Ok (fst res) \<longrightarrow> cr_code r = 0 \<and> 200 \<le> cr_http r \<and> cr_http r < 300 \<and>
         response_text (snd (snd res)) = reply_text r))"

lemma mp_requestedI:
  assumes "requests t' = (method_opts mth body (base_opts (endpoint cfg @ object_path bucket key @ ''?'' @ q)
      (Some (h, mp_lines E cfg mth bucket key q (case body of None \<Rightarrow> - 1 | Some b \<Rightarrow> int (length b)) s @
        extra_lines extra)) Write_Response), r) # requests t"
    and "is_Ok rc \<Longrightarrow> cr_code r = 0 \<and> 200 \<le> cr_http r \<and> cr_http r < 300 \<and> response_text buf = reply_text r"
  shows "mp_requested E cfg mth bucket key q body extra t (rc, http, buf) t'"
  unfolding mp_requested_def using assms by (intro disjI2 exI [of _ h] exI [of _ s] exI [of _ r]) simp

lemma wp_s3_request:
  assumes ok: "mp_request_ok cfg mth bucket key q" and env: "current_clock E" "headers_alloc E"
    and body: "case body of None \<Rightarrow> True | Some b \<Rightarrow> length b < 2 ^ 62"
    and extra: "case extra of None \<Rightarrow> True | Some (n, v) \<Rightarrow> length n + length v < 2298"
  shows "wp (s3_request E cfg mth bucket key (Some q) (Some q) body extra response_zero errlen)
    (mp_requested E cfg mth bucket key q body extra t) t"
proof -
  let ?s = "env_time E t" and ?cl = "case body of None \<Rightarrow> - 1 | Some b \<Rightarrow> int (length b)"
  let ?auth = "sigv4_authorization E cfg (gmtime ?s) mth (object_path bucket key) q (mp_signed_headers ?cl cfg (gmtime ?s))"
  have s: "current ?s" using env by (simp add: current_clock_def)
  have sig: "sig_ok cfg mth bucket key" using ok by (simp add: mp_request_ok_def)
  have cl: "\<bar>?cl\<bar> < 2 ^ 63" using body by (auto split: option.splits)
  have q: "length (query_text (Some q)) \<le> 1100" using ok by (simp add: query_text_def mp_request_ok_def)
  have sign: "wp (mp_sign_request E cfg mth bucket key (Some q) ?cl 256 64 2048) P t =
      P (host_of (endpoint cfg), amz_date (gmtime ?s), ?auth) (Sys (Time ?s) # t)" for P
    using mp_sign_request_refines [OF sig env(1) q cl, of t] by (simp add: wp_def query_text_def)
  have "length (semicolons (map fst (mp_signed_headers ?cl cfg (gmtime ?s)))) \<le> 30"
    by (simp add: signed_headers_def mp_signed_headers_def)
  then have auth: "length ?auth < 2200"
    using length_authorization [OF s, of E cfg mth "object_path bucket key" q "mp_signed_headers ?cl cfg (gmtime ?s)"] sig
    by (simp add: sig_ok_def)
  have lines: "snprintf_str 2300 (''Host: '' @ host_of (endpoint cfg)) = ''Host: '' @ host_of (endpoint cfg)"
    "snprintf_str 2300 (''x-amz-date: '' @ amz_date (gmtime ?s)) = ''x-amz-date: '' @ amz_date (gmtime ?s)"
    "snprintf_str 2300 (''Authorization: '' @ ?auth) = ''Authorization: '' @ ?auth"
    using sig length_dates [OF s] auth by (simp_all add: snprintf_fits sig_ok_def)
  have opt: "wp (append_optional E (Some (h, ss)) extra) Q t1"
    if "\<And>h' t'. requests t' = requests t1 \<Longrightarrow> Q (Some (h', ss @ extra_lines extra)) t'" for h ss Q t1
    using that extra wp_slist_append [OF env(2), where l = "Some (h, ss)"]
    by (auto simp: append_optional_def extra_lines_def wp_rules snprintf_fits split: option.splits)
  show ?thesis
    unfolding s3_request_def Let_def wp_bind sign prod.case mp_url_ok [OF ok] lines
    apply (rule wp_slist_append [OF env(2)])+
    apply (rule opt)
    apply (rule wp_curl_init)
    apply (split option.split, intro conjI impI allI)
    apply (simp add: wp_rules mp_requested_def c_slist_free_all_def split: option.split)
    apply (simp only: wp_bind [of "c_perform _ _ _"] wp_bind [of "deliver_chunks _ _ _"])
    apply (rule wp_perform, rule wp_deliver_chunks)
    apply (simp only: prod.case)
    apply (rule wp_end_request)
    apply (rule mp_requestedI [where s = ?s])
     apply (simp add: mp_lines_def)
    apply (auto simp: reply_text_def split: if_splits)
    done
qed

subsection \<open>Contracts\<close>

text \<open>
  The replies that the clients of the part list handle without undefined behaviour: they are not
  of gigabytes, and every part from the ninth on has a size and an entity tag of less than 255
  characters.
\<close>

definition tidy :: "completed_part \<Rightarrow> bool" where
  "tidy cp \<longleftrightarrow> cp_etag cp \<noteq> None \<and> cp_size cp \<noteq> None"

definition tidy_reply :: "curl_reply \<Rightarrow> bool" where
  "tidy_reply r \<longleftrightarrow> length (reply_text r) < 2 ^ 30 \<and>
     list_all tidy (read_blocks 0 (part_blocks (reply_text r)))"

definition tidy_server :: "env \<Rightarrow> bool" where
  "tidy_server E \<longleftrightarrow> (\<forall>r. server_reply E r \<longrightarrow> tidy_reply r)"

lemma find_tag_text_length: "find_tag_text xml tag n = Some t \<Longrightarrow> 0 < n \<Longrightarrow> length t < n"
  by (auto simp: find_tag_text_def Let_def split: option.splits if_splits)

lemma read_block_printable:
  assumes "read_block i b = Some cp" "cp_etag cp \<noteq> None"
  shows "printable cp"
proof -
  obtain num tag sz where cp: "cp = fill_slot i num tag sz" "find_tag_text b ''ETag'' 256 = Some tag"
    using assms(1) by (auto simp: read_block_def split: option.splits)
  then have "length tag < 256" by (intro find_tag_text_length) auto
  moreover have "\<bar>atoi num\<bar> \<le> 2 ^ 31" using atoi_range [of num] by auto
  ultimately show ?thesis
    using assms(2) by (auto simp: cp fill_slot_def printable_def split: if_splits)
qed

lemma read_blocks_printable: "list_all tidy (read_blocks i bs) \<Longrightarrow> list_all printable (read_blocks i bs)"
  by (induction i bs rule: read_blocks.induct)
    (auto simp: tidy_def split: option.splits dest!: read_block_printable)

text \<open>The slots of the first block are always filled completely.\<close>

lemma few_parts_tidy: "i + length bs \<le> 8 \<Longrightarrow> list_all tidy (read_blocks i bs)"
  by (induction i bs rule: read_blocks.induct)
    (auto simp: tidy_def read_block_def fill_slot_def split: option.split)

lemma moves_free_response:
  assumes "\<forall>r \<in> set A. parents r = []"
  shows "moves (A @ rb_res buf @ L) (free_response buf) (\<lambda>_. A @ L)"
  using assms
  by (auto simp: rb_res_def free_response_def c_free_def intro!: moves_returnI moves_release split: option.split)

lemmas moves_free_response_top = moves_free_response [where A = "[]", simplified]

lemma upload_query_short: "length (upload_query u) \<le> 511"
  using snprintf_length [of 512 "''uploadId='' @ u"] by (simp add: upload_query_def)

lemma keeps_c_text: "s \<noteq> None \<Longrightarrow> keeps L (c_text what s)"
  by (auto simp: c_text_def intro!: moves_returnI)

definition requests_env :: "env \<Rightarrow> bool" where
  "requests_env E \<longleftrightarrow> current_clock E \<and> headers_alloc E"

text \<open>The clock shows a year of four digits, and no body has 2 to the 63rd bytes.\<close>

definition mp_env :: "env \<Rightarrow> bool" where
  "mp_env E \<longleftrightarrow> current_clock E \<and> small_bodies E"

lemma moves_mp_request:
  assumes "mp_env E" "length mth \<le> 16" "length cq \<le> 1100"
    and "\<And>rc http resp. is_Ok rc \<Longrightarrow> (\<exists>r. server_reply E r \<and> response_text resp = reply_text r) \<Longrightarrow>
      moves (rb_res resp @ L) (k (rc, http, resp)) F"
    and "\<And>e http resp. moves (rb_res resp @ L) (k (Fail e, http, resp)) F"
  shows "moves L (State_Monad.bind (s3_request E cfg mth bucket key query (Some cq) body extra response_zero errlen) k) F"
proof (rule moves_bind_post [OF moves_s3_request yields_wp [OF s3_request_reply]])
  show "current_clock E" "small_bodies E" using assms(1) by (simp_all add: mp_env_def)
  show "length mth \<le> 16" by (rule assms(2))
  show "length (query_text (Some cq)) \<le> 1100" using assms(3) by (simp add: query_text_def)
  fix a :: "unit result \<times> int \<times> response_buf"
  assume r: "case a of (rc, http, buf) \<Rightarrow> is_Ok rc \<longrightarrow> (\<exists>r. server_reply E r \<and> response_text buf = reply_text r)"
  obtain rc http resp where a: "a = (rc, http, resp)" by (metis prod_cases3)
  show "moves (rb_res (snd (snd a)) @ L) (k a) F"
    using r assms(4) [of rc resp http] assms(5) [of resp _ http] by (cases rc) (auto simp: a)
qed

lemma keeps_s3_create_multipart:
  assumes "mp_env E"
  shows "keeps L (s3_create_multipart E cfg bucket object n errlen)"
  unfolding s3_create_multipart_def Let_def
  by (rule moves_mp_request [OF assms])
    (auto intro!: moves_bind [OF moves_free_response_top] moves_returnI)

lemma keeps_s3_upload_part_empty:
  assumes "mp_env E"
  shows "keeps L (s3_upload_part_empty E cfg bucket object upload_id part rid n errlen)"
proof -
  have "length (snprintf_str 512 s) \<le> 1100" for s using snprintf_length [of 512 s] by simp
  then show ?thesis
    unfolding s3_upload_part_empty_def Let_def
    by (intro moves_mp_request [OF assms])
      (auto intro!: moves_bind [OF moves_free_response_top] moves_returnI)
qed

lemma keeps_s3_abort_multipart:
  assumes "mp_env E"
  shows "keeps L (s3_abort_multipart E cfg bucket object upload_id errlen)"
  unfolding s3_abort_multipart_def Let_def
  by (rule moves_mp_request [OF assms])
    (use upload_query_short [of upload_id] in
      \<open>auto intro!: moves_bind [OF moves_free_response_top] moves_returnI\<close>)

lemma keeps_s3_list_uploads:
  assumes "mp_env E" "list_uploads_query opts = Some q"
  shows "keeps L (s3_list_uploads E cfg opts bucket errlen)"
  unfolding s3_list_uploads_def Let_def assms(2) c_text_def option.case bind_left_identity
  by (rule moves_mp_request [OF assms(1)])
    (use list_uploads_query_length [OF assms(2)] in \<open>auto intro!: moves_bind [OF keeps_stdout] moves_bind [OF moves_free_response_top]
      moves_returnI\<close>)

lemma moves_s3_list_parts:
  assumes "mp_env E" "tidy_server E"
  shows "moves L (s3_list_parts E cfg bucket object upload_id errlen)
    (\<lambda>r. (case r of Ok ps \<Rightarrow> [Res KMem (fst ps) []] | Fail _ \<Rightarrow> []) @ L)"
proof -
  let ?F = "\<lambda>r. (case r of Ok ps \<Rightarrow> [Res KMem (fst ps) []] | Fail _ \<Rightarrow> []) @ L"
  have parsed: "moves (rb_res resp @ L) (do {
        r \<leftarrow> parse_parts E (response_text resp);
        free_response resp;
        ret (case r of None \<Rightarrow> Fail e | Some ps \<Rightarrow> Ok ps)
      }) ?F" if "server_reply E r" "response_text resp = reply_text r" for resp r e
  proof -
    have "length (response_text resp) < 2 ^ 30"
      using that assms(2) by (simp add: tidy_server_def tidy_reply_def)
    note p = moves_parse_parts [OF this, of "rb_res resp @ L" E]
    have parts: "\<forall>x \<in> set (parts_res q). parents x = []" for q :: "(nat \<times> completed_part list) option"
      by (auto simp: parts_res_def split: option.splits)
    show ?thesis
      by (rule moves_bind [OF p], rule moves_bind [OF moves_free_response [OF parts]], rule moves_returnI)
        (auto simp: parts_res_def split: option.split)
  qed
  show ?thesis
    unfolding s3_list_parts_def Let_def
    by (rule moves_mp_request [OF assms(1)])
      (use upload_query_short [of upload_id] in
        \<open>auto simp: is_Ok_iff intro!: parsed moves_bind [OF moves_free_response_top] moves_returnI\<close>)
qed

text \<open>The parts it returns are those of a reply.\<close>

lemma s3_list_parts_law:
  "yields (\<lambda>r. \<forall>h cps. r = Ok (h, cps) \<longrightarrow>
     (\<exists>reply. server_reply E reply \<and> cps = read_blocks 0 (part_blocks (reply_text reply))))
   (s3_list_parts E cfg bucket object upload_id errlen)"
proof -
  have parsed: "yields (\<lambda>r. \<forall>h cps. r = Ok (h, cps) \<longrightarrow>
        (\<exists>reply. server_reply E reply \<and> cps = read_blocks 0 (part_blocks (reply_text reply))))
      (do { r \<leftarrow> parse_parts E (reply_text reply); free_response resp;
            ret (case r of None \<Rightarrow> Fail e | Some ps \<Rightarrow> Ok ps) })"
    if "server_reply E reply" for resp reply e
    by (rule yields_bind_post [OF parse_parts_law], rule yields_bindI, rule yields_returnI)
      (use that in \<open>auto split: option.splits\<close>)
  have failed: "yields P (do { free_response resp; ret (Fail e) })" if "P (Fail e)"
    for P :: "(nat \<times> completed_part list) result \<Rightarrow> bool" and resp e
    by (rule yields_bindI, rule yields_returnI, rule that)
  show ?thesis
    unfolding s3_list_parts_def Let_def
    by (rule yields_bind_post [OF s3_request_reply])
      (auto simp: is_Ok_iff intro!: parsed failed split: result.split)
qed

lemma keeps_s3_complete_multipart:
  assumes "mp_env E" "list_all printable cps"
  shows "keeps L (s3_complete_multipart E cfg bucket object upload_id cps errlen)"
proof -
  have done_body: "moves (Res KMem b [] # L) (do { c_free b; ret rc }) (\<lambda>_. L)" for b and rc :: "unit result"
    by (rule moves_wf) (auto intro!: moves_intros)
  show ?thesis
    unfolding s3_complete_multipart_def Let_def complete_body_fits [OF assms(2)] c_text_def option.case
      bind_left_identity
    by (rule moves_bind [OF moves_malloc])
      (use upload_query_short [of upload_id] in
        \<open>auto intro!: moves_mp_request [OF assms(1)] moves_bind [OF keeps_stderr]
          moves_bind [OF moves_free_response_top] moves_returnI done_body split: option.split\<close>)
qed

subsection \<open>Properties\<close>


definition in_range :: "options \<Rightarrow> bool" where
  "in_range opts \<longleftrightarrow> op_part_size opts < 2 ^ 63 \<and> - (2 ^ 31) \<le> op_part opts \<and> op_part opts < 2 ^ 31"

lemma set_option_range:
  assumes "set_option a v opts = Some opts'" "in_range opts"
  shows "in_range opts'"
proof -
  have "atoll v < 2 ^ 63" using strtoll_range [of v] by (simp add: atoll_def)
  with assms atoi_range [of v] show ?thesis
    by (auto simp: set_option_def in_range_def split: if_splits)
qed

lemma option_loop_range: "option_loop args opts = Inr opts' \<Longrightarrow> in_range opts \<Longrightarrow> in_range opts'"
  by (induction args opts rule: option_loop.induct) (auto split: option.splits dest: set_option_range)

lemma parse_args_sound:
  assumes "parse_args args = Inr opts"
  shows "op_bucket opts \<noteq> None \<and> (op_action opts = ''list-uploads'' \<or> op_object opts \<noteq> None) \<and>
    0 < op_part_size opts \<and> op_part_size opts < 2 ^ 63 \<and> - (2 ^ 31) \<le> op_part opts \<and> op_part opts < 2 ^ 31"
  using assms option_loop_range [of args init_options opts]
  by (auto simp: parse_args_def in_range_def init_options_def split: sum.splits if_splits)

text \<open>
  C24: the completion body is never cut off: for parts with an \<^verbatim>\<open>int\<close> number and an entity tag of at most
  255 characters, the buffer of \<^verbatim>\<open>256 + count * 384\<close> bytes holds the whole document, one element per
  part in order, and no write goes past it.
\<close>

theorem completion_body_exact:
  assumes "list_all printable cps"
  shows "complete_body (256 + length cps * 384) cps = Some (complete_xml (map shown_part cps))"
  by (rule complete_body_fits [OF assms])

definition sample_parts :: "completed_part list" where
  "sample_parts = [\<lparr>cp_number = 1, cp_etag = Some ''a'', cp_size = Some 5\<rparr>,
     \<lparr>cp_number = 2, cp_etag = Some [], cp_size = Some 3\<rparr>]"

lemma sample_parts_printable: "list_all printable sample_parts"
  by (simp add: sample_parts_def printable_def)

theorem completion_body_exact_witness:
  "list_all printable sample_parts \<and>
   complete_body (256 + length sample_parts * 384) sample_parts = Some (complete_xml (map shown_part sample_parts))"
  using sample_parts_printable completion_body_exact [OF sample_parts_printable] by blast

text \<open>
  C25: the client's XML reader reads back what its XML printer writes: the parts found in a completion
  body are exactly the numbers and entity tags that were printed, in order, however many there are.
\<close>

theorem completion_body_round_trip:
  assumes "list_all printable cps"
    and "\<forall>cp \<in> set cps. cp_number cp < 2 ^ 31 \<and> CHR ''<'' \<notin> set (snd (shown_part cp)) \<and>
      length (snd (shown_part cp)) < 255"
  shows "case complete_body (256 + length cps * 384) cps of
    None \<Rightarrow> False
  | Some body \<Rightarrow> map (\<lambda>cp. (cp_number cp, cp_etag cp)) (read_blocks 0 (part_blocks body)) =
      map (\<lambda>cp. (cp_number cp, Some (snd (shown_part cp)))) cps"
proof -
  have "\<forall>(n, e) \<in> set (map shown_part cps). - (2 ^ 31) \<le> n \<and> n < 2 ^ 31 \<and> CHR ''<'' \<notin> set e \<and> length e < 255"
    using assms by (auto simp: list_all_iff printable_def shown_part_def)
  from read_complete_xml [OF this] show ?thesis
    by (simp add: complete_body_fits [OF assms(1)] shown_part_def)
qed

theorem completion_body_round_trip_witness:
  "case complete_body (256 + length sample_parts * 384) sample_parts of
    None \<Rightarrow> False
  | Some body \<Rightarrow> map (\<lambda>cp. (cp_number cp, cp_etag cp)) (read_blocks 0 (part_blocks body)) =
      map (\<lambda>cp. (cp_number cp, Some (snd (shown_part cp)))) sample_parts"
  by (rule completion_body_round_trip [OF sample_parts_printable])
    (simp add: sample_parts_def shown_part_def shown_etag_def)

text \<open>
  C38: a command line that \<^verbatim>\<open>parse_args\<close> accepts names a bucket, and an object unless uploads are listed;
  its part size is positive and its part number an \<^verbatim>\<open>int\<close>.
\<close>

theorem parse_args_valid:
  assumes "parse_args args = Inr opts"
  shows "op_bucket opts \<noteq> None \<and> (op_action opts = ''list-uploads'' \<or> op_object opts \<noteq> None) \<and>
    0 < op_part_size opts \<and> op_part_size opts < 2 ^ 63 \<and> - (2 ^ 31) \<le> op_part opts \<and> op_part opts < 2 ^ 31"
  using parse_args_sound [OF assms] .

theorem parse_args_valid_witness:
  "\<exists>opts. parse_args [''-action'', ''create'', ''-bucket'', ''b'', ''-object'', ''k''] = Inr opts \<and>
    op_bucket opts \<noteq> None \<and> (op_action opts = ''list-uploads'' \<or> op_object opts \<noteq> None) \<and>
    0 < op_part_size opts \<and> op_part_size opts < 2 ^ 63 \<and> - (2 ^ 31) \<le> op_part opts \<and> op_part opts < 2 ^ 31"
proof -
  let ?args = "[''-action'', ''create'', ''-bucket'', ''b'', ''-object'', ''k'']"
  have "option_loop ?args init_options =
      Inr (init_options\<lparr>op_action := ''create'', op_bucket := Some ''b'', op_object := Some ''k''\<rparr>)"
    by (simp add: set_option_def)
  then obtain opts where "parse_args ?args = Inr opts"
    by (simp add: parse_args_def init_options_def)
  with parse_args_valid [OF this] show ?thesis by blast
qed

text \<open>
  C39: a delimiter of more than 1005 characters makes \<^verbatim>\<open>s3_list_uploads\<close> compute a negative remaining size,
  and the write of the next field goes past the end of the query buffer.
\<close>

theorem list_uploads_overflow:
  assumes "op_delimiter opts = Some d" "1005 < length d" "0 < op_max_uploads opts"
  shows "list_uploads_query opts = None \<and> (\<exists>k. s3_list_uploads E cfg opts bucket errlen =
    State_Monad.bind (emit (Undefined ''list query'')) k)"
  using list_uploads_query_overflow [OF assms]
  by (auto simp: s3_list_uploads_def c_text_def)

theorem list_uploads_overflow_witness:
  "list_uploads_query (init_options\<lparr>op_delimiter := Some (replicate 1006 CHR ''/'')\<rparr>) = None"
  using list_uploads_overflow [of "init_options\<lparr>op_delimiter := Some (replicate 1006 CHR ''/'')\<rparr>" "replicate 1006 CHR ''/''"]
  by (simp add: init_options_def)

end
