(* ===== verification/Json.thy ===== *)
theory Json
  imports CString
begin

text \<open>
  The JSON helpers of \<^verbatim>\<open>rdmalib.c\<close>, a reader for the flat objects of the control
  protocol: \<open>json_find_key\<close> looks for the first occurrence of the quoted key followed by a
  colon, the getters read the value behind it. A result of \<^term>\<open>None\<close> is the C functions'
  -1. The lemmas say what each getter returns on an object that holds the key, and that a
  printed number or list of sixteen byte values is read back.
\<close>

definition json_find_key :: "string \<Rightarrow> string \<Rightarrow> string option" where
  "json_find_key json key =
     (let pat = snprintf_str 160 (dq @ key @ dq @ '':'')
      in case strstr json pat of
           None \<Rightarrow> None
         | Some p \<Rightarrow> Some (dropWhile (\<lambda>c. c = CHR '' '') (drop (length pat) p)))"

definition json_get_u64 :: "string \<Rightarrow> string \<Rightarrow> u64 option" where
  "json_get_u64 json key =
     (case json_find_key json key of
        None \<Rightarrow> None
      | Some p \<Rightarrow> Some (fst (strtoull p)))"

definition json_get_bool :: "string \<Rightarrow> string \<Rightarrow> bool option" where
  "json_get_bool json key =
     (case json_find_key json key of
        None \<Rightarrow> None
      | Some p \<Rightarrow> Some (strncmp_eq p ''true'' 4))"

text \<open>\<^verbatim>\<open>while (*p && *p != '"' && i + 1 < buflen) buf[i++] = *p++;\<close>\<close>

fun json_copy_string :: "string \<Rightarrow> nat \<Rightarrow> nat \<Rightarrow> string" where
  "json_copy_string [] i buflen = []"
| "json_copy_string (c # p) i buflen =
     (if c \<noteq> CHR 0x22 \<and> i + 1 < buflen then c # json_copy_string p (i + 1) buflen else [])"

definition json_get_string :: "string \<Rightarrow> string \<Rightarrow> nat \<Rightarrow> string option" where
  "json_get_string json key buflen =
     (case json_find_key json key of
        None \<Rightarrow> None
      | Some p \<Rightarrow>
          if p = [] \<or> hd p \<noteq> CHR 0x22 then None
          else Some (json_copy_string (tl p) 0 buflen))"

fun json_bytes_loop :: "nat \<Rightarrow> string \<Rightarrow> byte list" where
  "json_bytes_loop 0 p = []"
| "json_bytes_loop (Suc n) p =
     (let q = dropWhile (\<lambda>c. c = CHR '' '' \<or> c = CHR '','') p
      in case strtoull q of (v, r) \<Rightarrow> ucast v # json_bytes_loop n r)"

definition json_get_bytes16 :: "string \<Rightarrow> string \<Rightarrow> byte list option" where
  "json_get_bytes16 json key =
     (case json_find_key json key of
        None \<Rightarrow> None
      | Some p \<Rightarrow>
          if p = [] \<or> hd p \<noteq> CHR ''['' then None else Some (json_bytes_loop 16 (tl p)))"

subsection \<open>Finding a key\<close>

abbreviation json_key :: "string \<Rightarrow> string" where
  "json_key key \<equiv> dq @ key @ dq @ '':''"

lemma json_key_fits: "length key < 157 \<Longrightarrow> snprintf_str 160 (json_key key) = json_key key"
  by (simp add: snprintf_def)

text \<open>The value found is what follows the first occurrence of the key, spaces skipped.\<close>

lemma json_find_key_at:
  assumes "length key < 157" "strstr json (json_key key) = Some (json_key key @ v)"
    and "v = [] \<or> hd v \<noteq> CHR '' ''"
  shows "json_find_key json key = Some v"
proof -
  have "dropWhile (\<lambda>c. c = CHR '' '') v = v"
    using assms(3) by (cases v) auto
  with assms(2) show ?thesis
    by (simp only: json_find_key_def json_key_fits [OF assms(1)] Let_def option.case) simp
qed

lemma json_find_key_missing:
  assumes "length key < 157"
  shows "json_find_key json key = None \<longleftrightarrow> \<not> sublist (json_key key) json"
  using strstr_None_iff [of json "json_key key"]
  by (simp only: json_find_key_def json_key_fits [OF assms] Let_def) (auto split: option.splits)

subsection \<open>Values\<close>

lemma json_get_u64_at:
  assumes "json_find_key json key = Some (show_nat n @ rest)" "n < 2 ^ 64"
    and "rest = [] \<or> \<not> is_digit (hd rest)"
  shows "json_get_u64 json key = Some (word_of_nat n)"
  using assms by (simp add: json_get_u64_def strtoull_show_nat)

lemma json_copy_string_eq:
  "json_copy_string p i buflen = take (buflen - Suc i) (takeWhile (\<lambda>c. c \<noteq> CHR 0x22) p)"
proof (induction p arbitrary: i)
  case Nil
  then show ?case by simp
next
  case (Cons c p)
  show ?case
  proof (cases "i + 1 < buflen")
    case True
    then have "buflen - Suc i = Suc (buflen - Suc (Suc i))" by simp
    with True Cons show ?thesis by simp
  next
    case False
    then show ?thesis by simp
  qed
qed

lemma json_get_string_length:
  "json_get_string json key buflen = Some s \<Longrightarrow> 0 < buflen \<Longrightarrow> length s < buflen"
  by (auto simp: json_get_string_def json_copy_string_eq split: option.splits if_splits)

text \<open>A list of byte values as the protocol prints it.\<close>

fun comma_bytes :: "bool \<Rightarrow> byte list \<Rightarrow> string" where
  "comma_bytes first [] = []"
| "comma_bytes first (b # bs) =
     (if first then [] else '','') @ show_nat (unat b) @ comma_bytes False bs"

lemma comma_bytes_hd: "comma_bytes False bs = [] \<or> \<not> is_digit (hd (comma_bytes False bs))"
  by (cases bs) (auto simp: is_digit_def)

lemma json_bytes_loop_comma:
  assumes "rest = [] \<or> \<not> is_digit (hd rest)"
  shows "json_bytes_loop (length bs) (comma_bytes f bs @ rest) = bs"
proof (induction bs arbitrary: f)
  case Nil
  then show ?case by simp
next
  case (Cons b bs)
  let ?t = "comma_bytes False bs @ rest"
  have t: "?t = [] \<or> \<not> is_digit (hd ?t)"
    using comma_bytes_hd [of bs] assms by (cases "comma_bytes False bs") auto
  have "dropWhile (\<lambda>c. c = CHR '' '' \<or> c = CHR '','') (comma_bytes f (b # bs) @ rest)
      = show_nat (unat b) @ ?t"
    using digit_not_special [OF hd_show_nat [of "unat b"]]
    by (cases "show_nat (unat b)") auto
  moreover have "strtoull (show_nat (unat b) @ ?t) = (word_of_nat (unat b), ?t)"
    by (rule strtoull_show_nat [OF t]) (use unat_less_exp [of b] in simp)
  moreover have "ucast (word_of_nat (unat b) :: u64) = b"
    by (rule ucast_word_of_nat_unat) simp
  ultimately show ?case
    using Cons.IH [of False] by (simp add: Let_def)
qed

lemma comma_bytes_chars: "c \<in> set (comma_bytes f bs) \<Longrightarrow> is_digit c \<or> c = CHR '',''"
  by (induction f bs rule: comma_bytes.induct) (auto dest: show_nat_digits split: if_splits)

lemma length_comma_bytes [len_bounds]: "length (comma_bytes f bs) \<le> 4 * length bs"
proof (induction f bs rule: comma_bytes.induct)
  case (2 f b bs)
  then show ?case using length_show_u8 [of b] by simp
qed simp

lemma json_get_bytes16_at:
  assumes "json_find_key json key = Some (''['' @ comma_bytes True bs @ rest)" "length bs = 16"
    and "rest = [] \<or> \<not> is_digit (hd rest)"
  shows "json_get_bytes16 json key = Some bs"
  using assms json_bytes_loop_comma [OF assms(3), of bs True]
  by (simp add: json_get_bytes16_def)

text \<open>
  A list that ends early is not an error: the elements that are missing are read as 0.
\<close>

lemma json_bytes_loop_short:
  assumes "p \<noteq> []" "hd p = CHR '']''"
  shows "json_bytes_loop n p = replicate n 0"
proof (induction n)
  case 0
  then show ?case by simp
next
  case (Suc n)
  have "dropWhile (\<lambda>c. c = CHR '' '' \<or> c = CHR '','') p = p"
    using assms by (cases p) auto
  moreover have "strtoull p = (0, p)"
    using assms by (cases p) (auto simp: strtoull_def strto_def is_space_def is_digit_def)
  ultimately show ?case using Suc by simp
qed

end
