(* ===== verification/Protocol.thy ===== *)
theory Protocol
  imports WebSocket Json
begin

text \<open>
  The control messages of \<^verbatim>\<open>rdmalib.c\<close>: registering a request, exchanging queue-pair
  parameters and sending the memory token. Each sender prints into a fixed buffer; the lemmas
  show that the buffer is large enough for every value of the fields, what the message is, and
  that the parameters a server sends in the same layout are read back field by field.
\<close>

subsection \<open>Registration\<close>

definition register_request_msg :: "string \<Rightarrow> string" where
  \<open>register_request_msg request_id =
     ''{"type":"register_request","data":{"request_id":"'' @ request_id @ ''"}}''\<close>

definition send_register_request :: "env \<Rightarrow> nat \<Rightarrow> string \<Rightarrow> bool io" where
  "send_register_request E fd request_id =
     ws_send_text E fd (snprintf_str 256 (register_request_msg request_id))"

definition parse_register_response :: "string \<Rightarrow> nat option \<Rightarrow> unit result" where
  \<open>parse_register_response buf eb =
     (if strstr buf ''"register_response"'' = None
      then Fail (set_err eb (''unexpected message: '' @ buf))
      else
        let success = (case json_get_bool buf ''success'' of Some b \<Rightarrow> b | None \<Rightarrow> False)
        in if \<not> success then
             let emsg = (case json_get_string buf ''error'' 256 of Some s \<Rightarrow> s | None \<Rightarrow> [])
             in Fail (set_err eb (''registration failed: '' @ emsg))
           else Ok ())\<close>

definition recv_register_response :: "env \<Rightarrow> nat \<Rightarrow> nat option \<Rightarrow> unit result io" where
  "recv_register_response E fd eb = do {
     n \<leftarrow> ws_recv_text E fd 1024;
     case n of
       None \<Rightarrow> ret (Fail (set_err eb ''failed to receive register response''))
     | Some buf \<Rightarrow> ret (parse_register_response (cstring (chars_of buf)) eb)
   }"

subsection \<open>Queue-pair parameters\<close>

record qpinfo =
  qpn :: u32
  lid :: u16
  gid :: "byte list"
  gid_idx :: u8
  mtu_enum :: int

text \<open>The loop that prints the sixteen bytes of the GID at the running offset.\<close>

fun gid_print :: "nat \<Rightarrow> byte list \<Rightarrow> string \<times> nat \<Rightarrow> (string \<times> nat) option" where
  "gid_print i [] b = Some b"
| "gid_print i (g # gs) b =
     (case snprintf_at 512 b ((if i = 0 then [] else '','') @ show_nat (unat g)) of
        None \<Rightarrow> None
      | Some b' \<Rightarrow> gid_print (Suc i) gs b')"

definition qpinfo_client_buf :: "qpinfo \<Rightarrow> string option" where
  \<open>qpinfo_client_buf q =
     (case gid_print 0 (gid q) (snprintf 512
        (''{"type":"qpinfo_client","data":{"qpn":'' @ show_nat (unat (qpn q)) @
         '',"lid":'' @ show_nat (unat (lid q)) @ '',"gid":['')) of
        None \<Rightarrow> None
      | Some b \<Rightarrow>
          map_option fst (snprintf_at 512 b
            (''],"gid_idx":'' @ show_nat (unat (gid_idx q)) @
             '',"mtu_enum":'' @ show_int (mtu_enum q) @ ''}}'')))\<close>

definition send_qpinfo_client :: "env \<Rightarrow> nat \<Rightarrow> qpinfo \<Rightarrow> bool io" where
  "send_qpinfo_client E fd q =
     (case qpinfo_client_buf q of
        None \<Rightarrow> do { emit (Undefined ''write past msg[512]''); ret False }
      | Some msg \<Rightarrow> ws_send_text E fd msg)"

text \<open>The field reads of \<open>recv_qpinfo_server\<close>, in their order, with the casts to the fields.\<close>

definition parse_qpinfo_server :: "string \<Rightarrow> qpinfo option" where
  "parse_qpinfo_server buf =
     (case json_get_u64 buf ''qpn'' of None \<Rightarrow> None | Some q \<Rightarrow>
      case json_get_u64 buf ''lid'' of None \<Rightarrow> None | Some l \<Rightarrow>
      case json_get_bytes16 buf ''gid'' of None \<Rightarrow> None | Some g \<Rightarrow>
      case json_get_u64 buf ''gid_idx'' of None \<Rightarrow> None | Some i \<Rightarrow>
      case json_get_u64 buf ''mtu_enum'' of None \<Rightarrow> None | Some m \<Rightarrow>
        Some \<lparr>qpn = ucast q, lid = ucast l, gid = g, gid_idx = ucast i,
              mtu_enum = sint (ucast m :: u32)\<rparr>)"

definition recv_qpinfo_server :: "env \<Rightarrow> nat \<Rightarrow> nat option \<Rightarrow> qpinfo result io" where
  \<open>recv_qpinfo_server E fd eb = do {
     n \<leftarrow> ws_recv_text E fd 1024;
     case n of
       None \<Rightarrow> ret (Fail (set_err eb ''failed to receive server qp info''))
     | Some bytes \<Rightarrow>
         let buf = cstring (chars_of bytes)
         in if strstr buf ''"qpinfo_server"'' = None
            then ret (Fail (set_err eb (''unexpected message: '' @ buf)))
            else ret (case parse_qpinfo_server buf of None \<Rightarrow> Fail None | Some q \<Rightarrow> Ok q)
   }\<close>

subsection \<open>The memory token\<close>

definition token_msg :: "u64 \<Rightarrow> u32 \<Rightarrow> u64 \<Rightarrow> u64 \<Rightarrow> string" where
  \<open>token_msg addr rkey start len =
     ''{"type":"token","data":{"addr":'' @ show_nat (unat addr) @
     '',"rkey":'' @ show_nat (unat rkey) @ '',"start":'' @ show_nat (unat start) @
     '',"length":'' @ show_nat (unat len) @ ''}}''\<close>

definition send_token :: "env \<Rightarrow> nat \<Rightarrow> u64 \<Rightarrow> u32 \<Rightarrow> u64 \<Rightarrow> u64 \<Rightarrow> bool io" where
  "send_token E fd addr rkey start len =
     ws_send_text E fd (snprintf_str 256 (token_msg addr rkey start len))"

subsection \<open>The buffers are large enough\<close>

lemma register_request_fits:
  "length request_id < 200 \<Longrightarrow>
   snprintf_str 256 (register_request_msg request_id) = register_request_msg request_id"
  by (simp add: snprintf_def register_request_msg_def)

lemma token_fits: "snprintf_str 256 (token_msg addr rkey start len) = token_msg addr rkey start len"
  using length_show_u64 [of addr] length_show_u32 [of rkey] length_show_u64 [of start]
    length_show_u64 [of len]
  by (simp add: snprintf_def token_msg_def)

definition qpinfo_layout :: "string \<Rightarrow> qpinfo \<Rightarrow> string" where
  \<open>qpinfo_layout typ q =
     ''{"type":"'' @ typ @ ''","data":{"qpn":'' @ show_nat (unat (qpn q)) @
     '',"lid":'' @ show_nat (unat (lid q)) @ '',"gid":['' @ comma_bytes True (gid q) @
     ''],"gid_idx":'' @ show_nat (unat (gid_idx q)) @
     '',"mtu_enum":'' @ show_int (mtu_enum q) @ ''}}''\<close>

lemma gid_print_ok:
  assumes "length s + 4 * length gs < 512"
  shows "gid_print i gs (s, length s) =
    (let t = s @ comma_bytes (i = 0) gs in Some (t, length t))"
  using assms
proof (induction gs arbitrary: i s)
  case Nil
  then show ?case by simp
next
  case (Cons g gs)
  let ?t = "(if i = 0 then [] else '','') @ show_nat (unat g)"
  have "length ?t \<le> 4" using length_show_u8 [of g] by simp
  with Cons.prems have l: "length s + length ?t < 512" "length (s @ ?t) + 4 * length gs < 512"
    by auto
  from snprintf_at_fits [OF l(1)]
  have "snprintf_at 512 (s, length s) ?t = Some (s @ ?t, length (s @ ?t))" .
  with l(2) show ?case using Cons.IH [of "s @ ?t" "Suc i"] by (simp add: Let_def)
qed

definition qpinfo_ok :: "qpinfo \<Rightarrow> bool" where
  "qpinfo_ok q \<longleftrightarrow> length (gid q) = 16 \<and> - (2 ^ 31) \<le> mtu_enum q \<and> mtu_enum q < 2 ^ 31"

lemma qpinfo_client_buf_ok:
  assumes "qpinfo_ok q"
  shows "qpinfo_client_buf q = Some (qpinfo_layout ''qpinfo_client'' q)"
proof -
  define h where \<open>h = ''{"type":"qpinfo_client","data":{"qpn":'' @ show_nat (unat (qpn q)) @
    '',"lid":'' @ show_nat (unat (lid q)) @ '',"gid":[''\<close>
  define t where \<open>t = ''],"gid_idx":'' @ show_nat (unat (gid_idx q)) @
    '',"mtu_enum":'' @ show_int (mtu_enum q) @ ''}}''\<close>
  define g where "g = comma_bytes True (gid q)"
  have "length (show_int (mtu_enum q)) \<le> Suc 10"
    by (rule length_show_int) (use assms in \<open>auto simp: qpinfo_ok_def\<close>)
  then have t: "length t \<le> 60" using length_show_u8 [of "gid_idx q"] by (simp add: t_def)
  have h: "length h \<le> 80"
    using length_show_u32 [of "qpn q"] length_show_u16 [of "lid q"] by (simp add: h_def)
  have g: "length g \<le> 64" using length_comma_bytes [of True "gid q"] assms
    by (simp add: g_def qpinfo_ok_def)
  have "gid_print 0 (gid q) (h, length h) = Some (h @ g, length (h @ g))"
    using h assms by (simp add: gid_print_ok qpinfo_ok_def Let_def g_def)
  moreover have "snprintf_at 512 (h @ g, length (h @ g)) t = Some ((h @ g) @ t, length ((h @ g) @ t))"
    by (rule snprintf_at_fits) (use h g t in simp)
  moreover have "snprintf 512 h = (h, length h)"
    using h by (simp add: snprintf_fits)
  ultimately have "qpinfo_client_buf q = Some ((h @ g) @ t)"
    unfolding qpinfo_client_buf_def h_def [symmetric] t_def [symmetric] by simp
  then show ?thesis by (simp add: qpinfo_layout_def h_def g_def t_def)
qed

subsection \<open>Reading the server's parameters\<close>

text \<open>A quoted key is not found inside printed numbers.\<close>

lemma strstr_show_nat [simp]: "strstr (show_nat n @ s) (CHR 0x22 # k) = strstr s (CHR 0x22 # k)"
  by (rule strstr_skip) (auto dest!: show_nat_digits dest: digit_not_special)

lemma strstr_comma_bytes [simp]:
  "strstr (comma_bytes f bs @ s) (CHR 0x22 # k) = strstr s (CHR 0x22 # k)"
  by (rule strstr_skip) (auto dest!: comma_bytes_chars dest: digit_not_special)

lemma show_nat_no_space: "show_nat n @ s = [] \<or> hd (show_nat n @ s) \<noteq> CHR '' ''"
  using digit_not_special(3) [OF hd_show_nat [of n]] by simp

lemma show_int_no_space: "show_int i @ s = [] \<or> hd (show_int i @ s) \<noteq> CHR '' ''"
  using show_nat_no_space by (simp add: show_int_def)

lemma qpinfo_find_qpn:
  "\<exists>r. json_find_key (qpinfo_layout ''qpinfo_server'' q) ''qpn''
     = Some (show_nat (unat (qpn q)) @ CHR '','' # r)"
proof -
  obtain r where r: "strstr (qpinfo_layout ''qpinfo_server'' q) (json_key ''qpn'')
      = Some (json_key ''qpn'' @ show_nat (unat (qpn q)) @ CHR '','' # r)"
    by (simp add: qpinfo_layout_def)
  then show ?thesis using json_find_key_at [OF _ r] show_nat_no_space by auto
qed

lemma qpinfo_find_lid:
  "\<exists>r. json_find_key (qpinfo_layout ''qpinfo_server'' q) ''lid''
     = Some (show_nat (unat (lid q)) @ CHR '','' # r)"
proof -
  obtain r where r: "strstr (qpinfo_layout ''qpinfo_server'' q) (json_key ''lid'')
      = Some (json_key ''lid'' @ show_nat (unat (lid q)) @ CHR '','' # r)"
    by (simp add: qpinfo_layout_def)
  then show ?thesis using json_find_key_at [OF _ r] show_nat_no_space by auto
qed

lemma qpinfo_find_gid:
  "\<exists>r. json_find_key (qpinfo_layout ''qpinfo_server'' q) ''gid''
     = Some (''['' @ comma_bytes True (gid q) @ CHR '']'' # r)"
proof -
  obtain r where r: "strstr (qpinfo_layout ''qpinfo_server'' q) (json_key ''gid'')
      = Some (json_key ''gid'' @ ''['' @ comma_bytes True (gid q) @ CHR '']'' # r)"
    by (simp add: qpinfo_layout_def)
  then show ?thesis using json_find_key_at [OF _ r] by auto
qed

lemma qpinfo_find_gid_idx:
  "\<exists>r. json_find_key (qpinfo_layout ''qpinfo_server'' q) ''gid_idx''
     = Some (show_nat (unat (gid_idx q)) @ CHR '','' # r)"
proof -
  obtain r where r: "strstr (qpinfo_layout ''qpinfo_server'' q) (json_key ''gid_idx'')
      = Some (json_key ''gid_idx'' @ show_nat (unat (gid_idx q)) @ CHR '','' # r)"
    by (simp add: qpinfo_layout_def)
  then show ?thesis using json_find_key_at [OF _ r] show_nat_no_space by auto
qed

lemma qpinfo_find_mtu_enum:
  "\<exists>r. json_find_key (qpinfo_layout ''qpinfo_server'' q) ''mtu_enum''
     = Some (show_int (mtu_enum q) @ CHR ''}'' # r)"
proof -
  obtain r where r: "strstr (qpinfo_layout ''qpinfo_server'' q) (json_key ''mtu_enum'')
      = Some (json_key ''mtu_enum'' @ show_int (mtu_enum q) @ CHR ''}'' # r)"
    by (simp add: qpinfo_layout_def)
  then show ?thesis using json_find_key_at [OF _ r] show_int_no_space by auto
qed

lemmas qpinfo_find = qpinfo_find_qpn qpinfo_find_lid qpinfo_find_gid qpinfo_find_gid_idx
  qpinfo_find_mtu_enum

lemma json_get_word_at:
  fixes w :: "'a::len word"
  assumes "json_find_key json key = Some (show_nat (unat w) @ CHR '','' # r)" "LENGTH('a) \<le> 64"
  shows "\<exists>v. json_get_u64 json key = Some v \<and> ucast v = w"
proof -
  have "(2::nat) ^ LENGTH('a) \<le> 2 ^ 64" using assms(2) by (intro power_increasing) auto
  then have "unat w < 2 ^ 64" using unat_less_exp [of w] by linarith
  then have "json_get_u64 json key = Some (word_of_nat (unat w))"
    by (intro json_get_u64_at [OF assms(1)]) (auto simp: is_digit_def)
  then show ?thesis using ucast_word_of_nat_unat [OF assms(2), of w] by blast
qed

lemma parse_qpinfo_layout:
  assumes "qpinfo_ok q"
  shows "parse_qpinfo_server (qpinfo_layout ''qpinfo_server'' q) = Some q"
proof -
  let ?m = "qpinfo_layout ''qpinfo_server'' q"
  obtain a where a: "json_get_u64 ?m ''qpn'' = Some a" "ucast a = qpn q"
    using qpinfo_find_qpn [of q] json_get_word_at [of ?m "''qpn''" "qpn q"] by auto
  obtain b where b: "json_get_u64 ?m ''lid'' = Some b" "ucast b = lid q"
    using qpinfo_find_lid [of q] json_get_word_at [of ?m "''lid''" "lid q"] by auto
  have c: "json_get_bytes16 ?m ''gid'' = Some (gid q)"
    using qpinfo_find_gid [of q] assms json_get_bytes16_at [of ?m "''gid''" "gid q"]
    by (auto simp: is_digit_def qpinfo_ok_def)
  obtain d where d: "json_get_u64 ?m ''gid_idx'' = Some d" "ucast d = gid_idx q"
    using qpinfo_find_gid_idx [of q] json_get_word_at [of ?m "''gid_idx''" "gid_idx q"] by auto
  have "json_get_u64 ?m ''mtu_enum'' = Some (word_of_int (mtu_enum q))"
    using qpinfo_find_mtu_enum [of q] assms
    by (auto simp: json_get_u64_def strtoull_show_int is_digit_def qpinfo_ok_def)
  moreover have "sint (ucast (word_of_int (mtu_enum q) :: u64) :: u32) = mtu_enum q"
  proof -
    have "sint (ucast (word_of_int (mtu_enum q) :: u64) :: u32) = signed_take_bit 31 (mtu_enum q)"
      by (simp add: unsigned_of_int signed_of_int signed_take_bit_take_bit)
    also have "\<dots> = mtu_enum q"
      by (rule signed_take_bit_int_eq_self) (use assms in \<open>auto simp: qpinfo_ok_def\<close>)
    finally show ?thesis .
  qed
  ultimately show ?thesis
    using a b c d by (simp add: parse_qpinfo_server_def)
qed

subsection \<open>Contracts\<close>

lemma keeps_send_register_request: "holds KFd fd L \<Longrightarrow> keeps L (send_register_request E fd rid)"
  unfolding send_register_request_def by (rule ws.send_keeps)

lemma keeps_recv_register_response: "holds KFd fd L \<Longrightarrow> keeps L (recv_register_response E fd eb)"
  unfolding recv_register_response_def
  by (auto intro!: moves_bindI [OF ws.recv_keeps] moves_returnI split: option.splits)

lemma keeps_send_qpinfo_client:
  "holds KFd fd L \<Longrightarrow> qpinfo_ok q \<Longrightarrow> keeps L (send_qpinfo_client E fd q)"
  unfolding send_qpinfo_client_def qpinfo_client_buf_ok by (simp add: ws.send_keeps)

lemma keeps_recv_qpinfo_server: "holds KFd fd L \<Longrightarrow> keeps L (recv_qpinfo_server E fd eb)"
  unfolding recv_qpinfo_server_def Let_def
  by (auto intro!: moves_bindI [OF ws.recv_keeps] moves_returnI split: option.splits)

lemma keeps_send_token: "holds KFd fd L \<Longrightarrow> keeps L (send_token E fd a k s n)"
  unfolding send_token_def by (rule ws.send_keeps)

subsection \<open>Properties\<close>


text \<open>
  C23: the messages that carry queue-pair parameters are exact: the client's message is never cut off
  by its buffer, and the server's message in the same layout is read back field by field, with the
  16 bytes of the GID and the narrow integers intact.
\<close>

theorem qpinfo_messages_exact:
  assumes "qpinfo_ok q"
  shows "qpinfo_client_buf q = Some (qpinfo_layout ''qpinfo_client'' q) \<and>
    parse_qpinfo_server (qpinfo_layout ''qpinfo_server'' q) = Some q"
  using qpinfo_client_buf_ok [OF assms] parse_qpinfo_layout [OF assms] by simp

definition sample_qpinfo :: qpinfo where
  "sample_qpinfo = \<lparr>qpn = 17, lid = 0, gid = replicate 16 254, gid_idx = 1, mtu_enum = 3\<rparr>"

theorem qpinfo_messages_exact_witness:
  "qpinfo_ok sample_qpinfo \<and>
   parse_qpinfo_server (qpinfo_layout ''qpinfo_server'' sample_qpinfo) = Some sample_qpinfo"
proof -
  have "qpinfo_ok sample_qpinfo" by (simp add: qpinfo_ok_def sample_qpinfo_def)
  with qpinfo_messages_exact [OF this] show ?thesis by simp
qed

end
