(* ===== verification/Verbs.thy ===== *)
theory Verbs
  imports Resources
begin

text \<open>
  The verbs helpers of \<^verbatim>\<open>rdmalib.c\<close> and the exported functions of
  \<^verbatim>\<open>verbs_shim.c\<close>, which the Java and the Python clients load. Both bring a reliable
  connected queue pair from RESET through INIT and RTR to RTS. The transitions that the verbs
  interface accepts are an inductive relation; the driver locale states what the three helpers
  promise, and is interpreted once for each of the two implementations.
\<close>

subsection \<open>Opening a device\<close>

fun open_named :: "env \<Rightarrow> nat \<Rightarrow> string option \<Rightarrow> nat \<Rightarrow> string list \<Rightarrow> nat option io" where
  "open_named E lst dev_name i [] = ret None"
| "open_named E lst dev_name i (name # names) =
     (if dev_name = None \<or> dev_name = Some [] \<or> dev_name = Some name
      then c_open_device E lst i
      else open_named E lst dev_name (Suc i) names)"

definition v_open_device :: "env \<Rightarrow> string option \<Rightarrow> nat option io" where
  "v_open_device E dev_name = do {
     r \<leftarrow> c_get_device_list E;
     case r of
       None \<Rightarrow> ret None
     | Some (lst, names) \<Rightarrow>
         if names = [] then ret None
         else do {
           ctx \<leftarrow> open_named E lst dev_name 0 names;
           c_free_device_list lst;
           ret ctx
         }
   }"

subsection \<open>The helpers of the library\<close>

definition init_mask :: "qp_mask set" where
  "init_mask = {QP_STATE, QP_PKEY_INDEX, QP_PORT, QP_ACCESS_FLAGS}"

definition rtr_mask :: "qp_mask set" where
  "rtr_mask = {QP_STATE, QP_AV, QP_PATH_MTU, QP_DEST_QPN, QP_RQ_PSN, QP_MAX_DEST_RD_ATOMIC,
     QP_MIN_RNR_TIMER}"

definition rts_mask :: "qp_mask set" where
  "rts_mask = {QP_STATE, QP_TIMEOUT, QP_RETRY_CNT, QP_RNR_RETRY, QP_SQ_PSN, QP_MAX_QP_RD_ATOMIC}"

definition v_qp_to_init :: "env \<Rightarrow> nat \<Rightarrow> u8 \<Rightarrow> int io" where
  "v_qp_to_init E qp port =
     c_modify_qp E qp (qp_attr_zero\<lparr>qp_state := QPS_INIT, pkey_index := 0, port_num := port,
       qp_access_flags := {ACCESS_LOCAL_WRITE, ACCESS_REMOTE_READ, ACCESS_REMOTE_WRITE}\<rparr>) init_mask"

text \<open>\<^verbatim>\<open>IBV_MTU_256\<close> to \<^verbatim>\<open>IBV_MTU_4096\<close> are 1 to 5; an unknown value is taken as 1024.\<close>

definition mtu_of_active :: "int \<Rightarrow> int" where
  "mtu_of_active m = (if m = 1 then 1 else if m = 2 then 2 else if m = 3 then 3
     else if m = 4 then 4 else if m = 5 then 5 else 3)"

definition v_query_mtu_enum :: "env \<Rightarrow> nat \<Rightarrow> u8 \<Rightarrow> int io" where
  "v_query_mtu_enum E ctx port = do {
     r \<leftarrow> c_query_port E ctx port;
     case r of None \<Rightarrow> ret (- 1) | Some active_mtu \<Rightarrow> ret (mtu_of_active active_mtu)
   }"

definition v_query_gid :: "env \<Rightarrow> nat \<Rightarrow> u8 \<Rightarrow> int \<Rightarrow> byte list option io" where
  "v_query_gid E ctx port gid_index = c_query_gid E ctx port gid_index"

definition v_qp_to_rtr ::
  "env \<Rightarrow> nat \<Rightarrow> u32 \<Rightarrow> u16 \<Rightarrow> byte list \<Rightarrow> u8 \<Rightarrow> u8 \<Rightarrow> int \<Rightarrow> int io" where
  "v_qp_to_rtr E qp remote_qpn dlid dgid port gid_index mtu_enum =
     c_modify_qp E qp (qp_attr_zero\<lparr>qp_state := QPS_RTR, path_mtu := mtu_enum,
       dest_qp_num := remote_qpn, rq_psn := 0, max_dest_rd_atomic := 1, min_rnr_timer := 12,
       ah_is_global := 1, ah_dlid := dlid, ah_sl := 0, ah_port_num := port,
       grh_sgid_index := gid_index, grh_hop_limit := 64, grh_traffic_class := 0,
       grh_flow_label := 0, grh_dgid := dgid\<rparr>) rtr_mask"

definition v_qp_to_rts :: "env \<Rightarrow> nat \<Rightarrow> int io" where
  "v_qp_to_rts E qp =
     c_modify_qp E qp (qp_attr_zero\<lparr>qp_state := QPS_RTS, timeout := 14, retry_cnt := 7,
       rnr_retry := 7, sq_psn := 0, max_rd_atomic := 1\<rparr>) rts_mask"

subsection \<open>The exported shim\<close>

definition rdma_open_device :: "env \<Rightarrow> string option \<Rightarrow> nat option io" where
  "rdma_open_device E dev_name = do {
     r \<leftarrow> c_get_device_list E;
     case r of
       None \<Rightarrow> ret None
     | Some (lst, names) \<Rightarrow>
         if names = [] then ret None
         else do {
           ctx \<leftarrow> open_named E lst dev_name 0 names;
           c_free_device_list lst;
           ret ctx
         }
   }"

definition rdma_close_device :: "nat option \<Rightarrow> unit io" where
  "rdma_close_device ctx = (case ctx of None \<Rightarrow> ret () | Some c \<Rightarrow> c_close_device c)"

definition rdma_alloc_pd :: "env \<Rightarrow> nat \<Rightarrow> nat option io" where
  "rdma_alloc_pd E ctx = c_alloc_pd E ctx"

definition rdma_dealloc_pd :: "nat option \<Rightarrow> unit io" where
  "rdma_dealloc_pd pd = (case pd of None \<Rightarrow> ret () | Some p \<Rightarrow> c_dealloc_pd p)"

definition rdma_create_cq :: "env \<Rightarrow> nat \<Rightarrow> int \<Rightarrow> nat option io" where
  "rdma_create_cq E ctx cqe = c_create_cq E ctx cqe"

definition rdma_destroy_cq :: "nat option \<Rightarrow> unit io" where
  "rdma_destroy_cq cq = (case cq of None \<Rightarrow> ret () | Some c \<Rightarrow> c_destroy_cq c)"

definition rdma_create_rc_qp :: "env \<Rightarrow> nat \<Rightarrow> nat \<Rightarrow> u32 \<Rightarrow> u32 \<Rightarrow> u32 \<Rightarrow> (nat \<times> u32) option io" where
  "rdma_create_rc_qp E pd cq max_send max_recv max_inline =
     c_create_qp E pd \<lparr>send_cq = cq, recv_cq = cq, max_send_wr = max_send, max_recv_wr = max_recv,
       max_send_sge = 1, max_recv_sge = 1, max_inline_data = max_inline, qp_type = QPT_RC,
       sq_sig_all = 0\<rparr>"

definition rdma_destroy_qp :: "nat option \<Rightarrow> unit io" where
  "rdma_destroy_qp qp = (case qp of None \<Rightarrow> ret () | Some q \<Rightarrow> c_destroy_qp q)"

definition rdma_qp_to_init :: "env \<Rightarrow> nat \<Rightarrow> u8 \<Rightarrow> int io" where
  "rdma_qp_to_init E qp port =
     c_modify_qp E qp (qp_attr_zero\<lparr>qp_state := QPS_INIT, pkey_index := 0, port_num := port,
       qp_access_flags := {ACCESS_LOCAL_WRITE, ACCESS_REMOTE_READ, ACCESS_REMOTE_WRITE}\<rparr>) init_mask"

definition rdma_query_port_mtu_enum :: "env \<Rightarrow> nat \<Rightarrow> u8 \<Rightarrow> int io" where
  "rdma_query_port_mtu_enum E ctx port = do {
     r \<leftarrow> c_query_port E ctx port;
     case r of None \<Rightarrow> ret (- 1) | Some active_mtu \<Rightarrow> ret (mtu_of_active active_mtu)
   }"

definition rdma_query_gid :: "env \<Rightarrow> nat \<Rightarrow> u8 \<Rightarrow> int \<Rightarrow> byte list option io" where
  "rdma_query_gid E ctx port gid_index = c_query_gid E ctx port gid_index"

definition rdma_qp_to_rtr ::
  "env \<Rightarrow> nat \<Rightarrow> u32 \<Rightarrow> u16 \<Rightarrow> byte list \<Rightarrow> u8 \<Rightarrow> u8 \<Rightarrow> int \<Rightarrow> int io" where
  "rdma_qp_to_rtr E qp remote_qpn dlid dgid port gid_index mtu_enum =
     c_modify_qp E qp (qp_attr_zero\<lparr>qp_state := QPS_RTR, path_mtu := mtu_enum,
       dest_qp_num := remote_qpn, rq_psn := 0, max_dest_rd_atomic := 1, min_rnr_timer := 12,
       ah_is_global := 1, ah_dlid := dlid, ah_sl := 0, ah_port_num := port,
       grh_sgid_index := gid_index, grh_hop_limit := 64, grh_traffic_class := 0,
       grh_flow_label := 0, grh_dgid := dgid\<rparr>) rtr_mask"

definition rdma_qp_to_rts :: "env \<Rightarrow> nat \<Rightarrow> int io" where
  "rdma_qp_to_rts E qp =
     c_modify_qp E qp (qp_attr_zero\<lparr>qp_state := QPS_RTS, timeout := 14, retry_cnt := 7,
       rnr_retry := 7, sq_psn := 0, max_rd_atomic := 1\<rparr>) rts_mask"

definition rdma_reg_mr_dst :: "env \<Rightarrow> nat \<Rightarrow> nat \<Rightarrow> u64 \<Rightarrow> (nat \<times> u32) option io" where
  "rdma_reg_mr_dst E pd addr len =
     c_reg_mr E pd addr len {ACCESS_LOCAL_WRITE, ACCESS_REMOTE_READ, ACCESS_REMOTE_WRITE}"

definition rdma_reg_mr_src :: "env \<Rightarrow> nat \<Rightarrow> nat \<Rightarrow> u64 \<Rightarrow> (nat \<times> u32) option io" where
  "rdma_reg_mr_src E pd addr len = c_reg_mr E pd addr len {ACCESS_LOCAL_WRITE, ACCESS_REMOTE_READ}"

definition rdma_dereg_mr :: "nat option \<Rightarrow> unit io" where
  "rdma_dereg_mr mr = (case mr of None \<Rightarrow> ret () | Some m \<Rightarrow> c_dereg_mr m)"

subsection \<open>The queue pair's state machine\<close>

text \<open>
  The transitions of a reliable connected queue pair that the interface accepts on the way
  to RTS, each with the attributes it requires.
\<close>

inductive rc_transition :: "qp_state \<Rightarrow> qp_mask set \<Rightarrow> qp_state \<Rightarrow> bool" where
  to_init: "{QP_STATE, QP_PKEY_INDEX, QP_PORT, QP_ACCESS_FLAGS} \<subseteq> m \<Longrightarrow>
    rc_transition QPS_RESET m QPS_INIT"
| to_rtr: "{QP_STATE, QP_AV, QP_PATH_MTU, QP_DEST_QPN, QP_RQ_PSN, QP_MAX_DEST_RD_ATOMIC,
    QP_MIN_RNR_TIMER} \<subseteq> m \<Longrightarrow> rc_transition QPS_INIT m QPS_RTR"
| to_rts: "{QP_STATE, QP_SQ_PSN, QP_MAX_QP_RD_ATOMIC, QP_RETRY_CNT, QP_RNR_RETRY, QP_TIMEOUT} \<subseteq> m
    \<Longrightarrow> rc_transition QPS_RTR m QPS_RTS"

inductive_cases to_RTS_cases: "rc_transition s m QPS_RTS"
inductive_cases to_RTR_cases: "rc_transition s m QPS_RTR"
inductive_cases to_INIT_cases: "rc_transition s m QPS_INIT"

text \<open>The state a trace has brought a queue pair to, by its successful modifications.\<close>

fun qp_at :: "nat \<Rightarrow> trace \<Rightarrow> qp_state" where
  "qp_at q [] = QPS_RESET"
| "qp_at q (Verbs (ModifyQp q' a m r) # tr) =
     (if q' = q \<and> r = 0 then qp_state a else qp_at q tr)"
| "qp_at q (Verbs (CreateQp p a (Some (h, n))) # tr) = (if h = q then QPS_RESET else qp_at q tr)"
| "qp_at q (_ # tr) = qp_at q tr"

text \<open>Every modification of the trace was an accepted transition from the state at the time.\<close>

fun qp_legal :: "trace \<Rightarrow> bool" where
  "qp_legal [] = True"
| "qp_legal (Verbs (ModifyQp q a m r) # tr) =
     (qp_legal tr \<and> rc_transition (qp_at q tr) m (qp_state a))"
| "qp_legal (_ # tr) = qp_legal tr"

text \<open>Both depend on the calls that create or modify a queue pair only.\<close>

fun drives_qp :: "event \<Rightarrow> bool" where
  "drives_qp (Verbs (ModifyQp q a m r)) = True"
| "drives_qp (Verbs (CreateQp p a r)) = True"
| "drives_qp _ = False"

lemma qp_at_filter: "qp_at q (filter drives_qp tr) = qp_at q tr"
  by (induction q tr rule: qp_at.induct) auto

lemma qp_legal_filter: "qp_legal (filter drives_qp tr) = qp_legal tr"
  by (induction tr rule: qp_legal.induct) (auto simp: qp_at_filter)

text \<open>The trace is legal and has brought the queue pair to the state.\<close>

definition qp_in :: "nat \<Rightarrow> qp_state \<Rightarrow> trace \<Rightarrow> bool" where
  "qp_in q st tr \<longleftrightarrow> qp_legal tr \<and> qp_at q tr = st"

abbreviation leaves_qp :: "'a io \<Rightarrow> bool" where
  "leaves_qp m \<equiv> emits (\<lambda>e. \<not> drives_qp e) m"

lemma local_leaves_qp: "emits is_local m \<Longrightarrow> leaves_qp m"
  by (erule emits_mono) (auto elim!: drives_qp.elims)

lemma wp_leaves_qp:
  assumes "leaves_qp m" "qp_in q st tr" "\<And>a t. qp_in q st t \<Longrightarrow> Q a t"
  shows "wp m Q tr"
  using assms(1)
proof (rule wp_unseen)
  fix a t
  assume "filter drives_qp t = filter drives_qp tr"
  then have "qp_in q st t"
    using assms(2) unfolding qp_in_def by (metis qp_at_filter qp_legal_filter)
  then show "Q a t" by (rule assms(3))
qed

lemma wp_leaves_legal:
  assumes "leaves_qp m" "qp_legal tr" "\<And>a t. qp_legal t \<Longrightarrow> Q a t"
  shows "wp m Q tr"
  using assms(1)
proof (rule wp_unseen)
  fix a t
  assume "filter drives_qp t = filter drives_qp tr"
  then have "qp_legal t" using assms(2) by (metis qp_legal_filter)
  then show "Q a t" by (rule assms(3))
qed

subsection \<open>The driver interface\<close>

text \<open>
  What the three helpers of a driver promise: each makes one modification, to the state it is
  named after, with the attributes that transition requires. What a client of any driver gets:
  the calls in this order are legal, and success of all three leaves the queue pair in RTS.
\<close>

locale qp_driver =
  fixes to_init :: "env \<Rightarrow> nat \<Rightarrow> u8 \<Rightarrow> int io"
    and to_rtr :: "env \<Rightarrow> nat \<Rightarrow> u32 \<Rightarrow> u16 \<Rightarrow> byte list \<Rightarrow> u8 \<Rightarrow> u8 \<Rightarrow> int \<Rightarrow> int io"
    and to_rts :: "env \<Rightarrow> nat \<Rightarrow> int io"
  assumes init_law: "\<exists>a m. to_init E q port = c_modify_qp E q a m \<and> qp_state a = QPS_INIT \<and>
      rc_transition QPS_RESET m QPS_INIT"
    and rtr_law: "\<exists>a m. to_rtr E q n l g port i mtu = c_modify_qp E q a m \<and> qp_state a = QPS_RTR \<and>
      rc_transition QPS_INIT m QPS_RTR"
    and rts_law: "\<exists>a m. to_rts E q = c_modify_qp E q a m \<and> qp_state a = QPS_RTS \<and>
      rc_transition QPS_RTR m QPS_RTS"
begin

lemma init_step:
  assumes "qp_in q QPS_RESET tr"
  shows "wp (to_init E q port) (\<lambda>r. qp_in q (if r = 0 then QPS_INIT else QPS_RESET)) tr"
  using init_law [of E q port] assms by (auto simp: wp_rules c_modify_qp_def Let_def qp_in_def)

lemma rtr_step:
  assumes "qp_in q QPS_INIT tr"
  shows "wp (to_rtr E q n l g port i mtu) (\<lambda>r. qp_in q (if r = 0 then QPS_RTR else QPS_INIT)) tr"
  using rtr_law [of E q n l g port i mtu] assms
  by (auto simp: wp_rules c_modify_qp_def Let_def qp_in_def)

lemma rts_step:
  assumes "qp_in q QPS_RTR tr"
  shows "wp (to_rts E q) (\<lambda>r. qp_in q (if r = 0 then QPS_RTS else QPS_RTR)) tr"
  using rts_law [of E q] assms by (auto simp: wp_rules c_modify_qp_def Let_def qp_in_def)

lemma bring_up:
  assumes "qp_in q QPS_RESET tr"
  shows "wp (do {
      a \<leftarrow> to_init E q port;
      if a \<noteq> 0 then ret False
      else do {
        b \<leftarrow> to_rtr E q n l g port i mtu;
        if b \<noteq> 0 then ret False
        else do { c \<leftarrow> to_rts E q; ret (c = 0) }
      }
    }) (\<lambda>ok t. qp_legal t \<and> (ok \<longleftrightarrow> qp_at q t = QPS_RTS)) tr"
proof -
  have rts: "wp (to_rts E q) (\<lambda>c t. qp_legal t \<and> (c = 0 \<longleftrightarrow> qp_at q t = QPS_RTS)) t"
    if "qp_in q QPS_RTR t" for t
    using rts_step [OF that] by (rule wp_mono) (auto simp: qp_in_def split: if_splits)
  have rtr: "wp (to_rtr E q n l g port i mtu)
      (\<lambda>b. wp (if b \<noteq> 0 then ret False else do { c \<leftarrow> to_rts E q; ret (c = 0) })
        (\<lambda>ok t. qp_legal t \<and> (ok \<longleftrightarrow> qp_at q t = QPS_RTS))) t"
    if "qp_in q QPS_INIT t" for t
    using rtr_step [OF that]
    by (rule wp_mono) (auto simp: wp_rules rts qp_in_def [where st = QPS_INIT] split: if_splits)
  show ?thesis
    unfolding wp_bind using init_step [OF assms]
    by (rule wp_mono)
      (use rtr in \<open>auto simp: wp_rules qp_in_def [where st = QPS_RESET] split: if_splits\<close>)
qed

end

interpretation lib: qp_driver v_qp_to_init v_qp_to_rtr v_qp_to_rts
  by unfold_locales
    (auto simp: v_qp_to_init_def v_qp_to_rtr_def v_qp_to_rts_def init_mask_def rtr_mask_def
      rts_mask_def intro!: exI rc_transition.intros)

interpretation shim: qp_driver rdma_qp_to_init rdma_qp_to_rtr rdma_qp_to_rts
  by unfold_locales
    (auto simp: rdma_qp_to_init_def rdma_qp_to_rtr_def rdma_qp_to_rts_def init_mask_def
      rtr_mask_def rts_mask_def intro!: exI rc_transition.intros)

subsection \<open>Contracts\<close>

lemma moves_open_named:
  "holds KDevList lst L \<Longrightarrow> moves L (open_named E lst dev i names) (push (\<lambda>h. Res KCtx h []) L)"
  by (induction names arbitrary: i) (auto intro!: moves_intros)

text \<open>A device is opened and the list is given back; an empty list is left stray.\<close>

lemma moves_v_open_device: "moves L (v_open_device E dev) (push (\<lambda>h. Res KCtx h []) L)"
proof -
  have opened: "moves (Res KDevList l [] # L) (do { ctx \<leftarrow> open_named E l dev 0 names; c_free_device_list l; ret ctx })
      (push (\<lambda>h. Res KCtx h []) L)" for l names
    by (auto intro!: moves_intros moves_bindI [OF moves_open_named] split: option.splits)
  show ?thesis
    unfolding v_open_device_def
    by (rule moves_bind [OF moves_get_device_list])
      (auto intro!: moves_returnI opened simp: neq_Nil_conv simp del: open_named.simps split: option.split)
qed

text \<open>
  The leak itself: without a device the function fails, and the list that it was given stays live for good, since
  no pointer to it is left.
\<close>

lemma no_device_leaks_list:
  assumes "env_device_list E t = Some []"
  shows "wp (v_open_device E dev) (\<lambda>r t'. r = None \<and> live t' = Res KDevList (length t) [] # live t \<and> stray t' (length t)) t"
  using assms by (simp add: v_open_device_def c_get_device_list_def wp_rules Let_def)

subsection \<open>Properties\<close>


text \<open>
  The shim that the Java and Python clients call drives a queue pair exactly as the C library
  does: the same device is opened and the same attributes and masks are passed in every transition.
\<close>

lemma shim_mirrors_library:
  "rdma_open_device E dev = v_open_device E dev \<and> rdma_qp_to_init E q port = v_qp_to_init E q port \<and>
   rdma_qp_to_rtr E q n l g port i mtu = v_qp_to_rtr E q n l g port i mtu \<and>
   rdma_qp_to_rts E q = v_qp_to_rts E q \<and> rdma_query_port_mtu_enum E x port = v_query_mtu_enum E x port"
  by (simp add: rdma_open_device_def v_open_device_def rdma_qp_to_init_def v_qp_to_init_def rdma_qp_to_rtr_def
      v_qp_to_rtr_def rdma_qp_to_rts_def v_qp_to_rts_def rdma_query_port_mtu_enum_def v_query_mtu_enum_def)

text \<open>
  C36: the shim's three transition functions, called in order on a fresh queue pair, only make
  transitions that the verbs interface accepts, and the queue pair is ready to send exactly when all
  three succeed.
\<close>

theorem shim_brings_up:
  assumes "qp_in q QPS_RESET tr"
  shows "wp (do {
      a \<leftarrow> rdma_qp_to_init E q port;
      if a \<noteq> 0 then ret False
      else do {
        b \<leftarrow> rdma_qp_to_rtr E q n l g port i mtu;
        if b \<noteq> 0 then ret False
        else do { c \<leftarrow> rdma_qp_to_rts E q; ret (c = 0) }
      }
    }) (\<lambda>ok t. qp_legal t \<and> (ok \<longleftrightarrow> qp_at q t = QPS_RTS)) tr"
  by (rule shim.bring_up [OF assms])

theorem shim_brings_up_witness:
  "qp_in 5 QPS_RESET [] \<and> wp (do {
      a \<leftarrow> rdma_qp_to_init sample_env 5 1;
      if a \<noteq> 0 then ret False
      else do {
        b \<leftarrow> rdma_qp_to_rtr sample_env 5 17 0 (replicate 16 0) 1 0 3;
        if b \<noteq> 0 then ret False
        else do { c \<leftarrow> rdma_qp_to_rts sample_env 5; ret (c = 0) }
      }
    }) (\<lambda>ok t. qp_legal t \<and> (ok \<longleftrightarrow> qp_at 5 t = QPS_RTS)) []"
proof -
  have "qp_in 5 QPS_RESET []" by (simp add: qp_in_def)
  with shim_brings_up [OF this] show ?thesis by blast
qed

end
