(* ===== verification/Session.thy ===== *)
theory Session
  imports Protocol Verbs
begin

text \<open>
  Sessions of \<^verbatim>\<open>rdmalib.c\<close>: the handshake that registers a request and brings the queue
  pair up, the set-up of the receiving and of the sending side, and the release of what a
  session holds. The lemmas show for every environment that a set-up that fails gives back all
  it acquired, except for a device list without devices, that one that succeeds holds exactly the
  session's resources, that releasing the session gives them back in an order the verbs allow, and
  that the calls on the queue pair are legal transitions.
\<close>

subsection \<open>The session\<close>

record rdma_session =
  s_ctx :: "nat option"
  s_pd :: "nat option"
  s_cq :: "nat option"
  s_qp :: "(nat \<times> u32) option"
  s_mr :: "(nat \<times> u32) option"

text \<open>The structure after \<^verbatim>\<open>calloc\<close>: five NULL pointers, 40 bytes.\<close>

definition session_zero :: rdma_session where
  "session_zero = \<lparr>s_ctx = None, s_pd = None, s_cq = None, s_qp = None, s_mr = None\<rparr>"

type_synonym session_ptr = "(nat \<times> rdma_session) option"

definition cleanup :: "session_ptr \<Rightarrow> unit io" where
  "cleanup sp =
     (case sp of
        None \<Rightarrow> ret ()
      | Some (p, s) \<Rightarrow> do {
          (case s_mr s of None \<Rightarrow> ret () | Some (m, _) \<Rightarrow> c_dereg_mr m);
          (case s_qp s of None \<Rightarrow> ret () | Some (q, _) \<Rightarrow> c_destroy_qp q);
          (case s_cq s of None \<Rightarrow> ret () | Some c \<Rightarrow> c_destroy_cq c);
          (case s_pd s of None \<Rightarrow> ret () | Some d \<Rightarrow> c_dealloc_pd d);
          (case s_ctx s of None \<Rightarrow> ret () | Some x \<Rightarrow> c_close_device x);
          c_free p
        })"

subsection \<open>The handshake\<close>

definition rc_qp_attr :: "nat \<Rightarrow> qp_init_attr" where
  "rc_qp_attr cq = \<lparr>send_cq = cq, recv_cq = cq, max_send_wr = 1, max_recv_wr = 1, max_send_sge = 1,
     max_recv_sge = 1, max_inline_data = 0, qp_type = QPT_RC, sq_sig_all = 0\<rparr>"

text \<open>\<^verbatim>\<open>ws_close(fd); return -1;\<close> after the message, the session being left as it is.\<close>

definition fail_close :: "env \<Rightarrow> nat \<Rightarrow> string option \<Rightarrow> rdma_session \<Rightarrow> (nat result \<times> rdma_session) io" where
  "fail_close E fd e s = do { ws_close E fd; ret (Fail e, s) }"

text \<open>Exchanging the parameters and bringing the queue pair from INIT to RTS.\<close>

definition connect_qp ::
  "env \<Rightarrow> nat \<Rightarrow> u8 \<Rightarrow> u8 \<Rightarrow> nat \<Rightarrow> nat \<Rightarrow> u32 \<Rightarrow> nat option \<Rightarrow> rdma_session \<Rightarrow>
   (nat result \<times> rdma_session) io" where
  "connect_qp E fd port gid_index ctx qp qpnum eb s = do {
     g \<leftarrow> v_query_gid E ctx port (int (unat gid_index));
     case g of
       None \<Rightarrow> fail_close E fd (set_err eb ''query_gid failed'') s
     | Some raw \<Rightarrow> do {
         mtu \<leftarrow> v_query_mtu_enum E ctx port;
         if mtu < 0 then fail_close E fd (set_err eb ''query_port mtu failed'') s
         else do {
           sent \<leftarrow> send_qpinfo_client E fd
             \<lparr>qpn = qpnum, lid = 0, gid = raw, gid_idx = gid_index, mtu_enum = mtu\<rparr>;
           if \<not> sent then fail_close E fd (set_err eb ''failed to send qp info'') s
           else do {
             r \<leftarrow> recv_qpinfo_server E fd eb;
             case r of
               Fail e \<Rightarrow> fail_close E fd e s
             | Ok srv \<Rightarrow> do {
                 a \<leftarrow> v_qp_to_rtr E qp (qpn srv) (lid srv) (gid srv) port (gid_idx srv) (mtu_enum srv);
                 if a \<noteq> 0 then fail_close E fd (set_err eb ''qp_to_rtr failed'') s
                 else do {
                   b \<leftarrow> v_qp_to_rts E qp;
                   if b \<noteq> 0 then fail_close E fd (set_err eb ''qp_to_rts failed'') s
                   else ret (Ok fd, s)
                 }
               }
           }
         }
       }
   }"

text \<open>Allocating the device objects and creating the queue pair.\<close>

definition create_qp ::
  "env \<Rightarrow> nat \<Rightarrow> string option \<Rightarrow> u8 \<Rightarrow> u8 \<Rightarrow> nat option \<Rightarrow> rdma_session \<Rightarrow>
   (nat result \<times> rdma_session) io" where
  "create_qp E fd dev_name port gid_index eb s = do {
     ctx \<leftarrow> v_open_device E dev_name;
     let s = s\<lparr>s_ctx := ctx\<rparr>;
     case ctx of
       None \<Rightarrow> fail_close E fd
         (set_err eb (''open_device('' @ (case dev_name of None \<Rightarrow> [] | Some d \<Rightarrow> d) @ '') failed'')) s
     | Some x \<Rightarrow> do {
         pd \<leftarrow> c_alloc_pd E x;
         let s = s\<lparr>s_pd := pd\<rparr>;
         case pd of
           None \<Rightarrow> fail_close E fd (set_err eb ''ibv_alloc_pd failed'') s
         | Some d \<Rightarrow> do {
             cq \<leftarrow> c_create_cq E x 2;
             let s = s\<lparr>s_cq := cq\<rparr>;
             case cq of
               None \<Rightarrow> fail_close E fd (set_err eb ''ibv_create_cq failed'') s
             | Some c \<Rightarrow> do {
                 qp \<leftarrow> c_create_qp E d (rc_qp_attr c);
                 let s = s\<lparr>s_qp := qp\<rparr>;
                 case qp of
                   None \<Rightarrow> fail_close E fd (set_err eb ''ibv_create_qp failed'') s
                 | Some (q, n) \<Rightarrow> do {
                     i \<leftarrow> v_qp_to_init E q port;
                     if i \<noteq> 0 then fail_close E fd (set_err eb ''qp_to_init failed'') s
                     else connect_qp E fd port gid_index x q n eb s
                   }
               }
           }
       }
   }"

definition rdma_handshake ::
  "env \<Rightarrow> string \<Rightarrow> string option \<Rightarrow> u8 \<Rightarrow> u8 \<Rightarrow> string \<Rightarrow> nat option \<Rightarrow> rdma_session \<Rightarrow>
   (nat result \<times> rdma_session) io" where
  "rdma_handshake E ws_url dev_name port gid_index request_id eb s = do {
     r \<leftarrow> ws_dial E ws_url eb;
     case r of
       Fail e \<Rightarrow> ret (Fail e, s)
     | Ok fd \<Rightarrow> do {
         sent \<leftarrow> send_register_request E fd request_id;
         if \<not> sent then fail_close E fd None s
         else do {
           resp \<leftarrow> recv_register_response E fd eb;
           case resp of
             Fail e \<Rightarrow> fail_close E fd e s
           | Ok _ \<Rightarrow> create_qp E fd dev_name port gid_index eb s
         }
       }
   }"

subsection \<open>Set-up and release\<close>

text \<open>The buffer was emptied on entry: a failure that wrote no message leaves it empty.\<close>

definition err_or_empty :: "nat option \<Rightarrow> string option \<Rightarrow> string option" where
  "err_or_empty eb e = (case e of Some m \<Rightarrow> Some m | None \<Rightarrow> set_err eb [])"

text \<open>Registering the buffer and sending its token, after the handshake.\<close>

definition share_buffer ::
  "access_flag set \<Rightarrow> env \<Rightarrow> nat \<Rightarrow> nat \<Rightarrow> rdma_session \<Rightarrow> nat \<times> u64 \<Rightarrow> u64 \<Rightarrow> nat option \<Rightarrow>
   (nat \<times> rdma_session) result io" where
  "share_buffer acc E fd p s buf len eb = do {
     mr \<leftarrow> c_reg_mr E (the (s_pd s)) (fst buf) len acc;
     let s = s\<lparr>s_mr := mr\<rparr>;
     case mr of
       None \<Rightarrow> do {
         ws_close E fd;
         cleanup (Some (p, s));
         ret (Fail (set_err eb ''ibv_reg_mr failed''))
       }
     | Some (m, rkey) \<Rightarrow> do {
         sent \<leftarrow> send_token E fd (snd buf) rkey 0 len;
         if \<not> sent then do {
           ws_close E fd;
           cleanup (Some (p, s));
           ret (Fail (set_err eb ''failed to send token''))
         } else do { ws_close E fd; ret (Ok (p, s)) }
       }
   }"

text \<open>
  The body that \<^verbatim>\<open>rdma_recv_setup\<close> and \<^verbatim>\<open>rdma_send_setup\<close> share; they differ in
  the access they give to the memory region only.
\<close>

definition setup_with ::
  "access_flag set \<Rightarrow> env \<Rightarrow> string \<Rightarrow> string option \<Rightarrow> u8 \<Rightarrow> u8 \<Rightarrow> string \<Rightarrow> nat \<times> u64 \<Rightarrow> u64 \<Rightarrow>
   nat option \<Rightarrow> (nat \<times> rdma_session) result io" where
  "setup_with acc E ws_url dev_name port gid_index request_id buf len eb = do {
     t \<leftarrow> c_time E;
     pid \<leftarrow> c_getpid E;
     c_srand (word_of_int (t XOR pid));
     p \<leftarrow> c_malloc E 40;
     case p of
       None \<Rightarrow> ret (Fail (set_err eb ''out of memory''))
     | Some p \<Rightarrow> do {
         (r, s) \<leftarrow> rdma_handshake E ws_url dev_name port gid_index request_id eb session_zero;
         case r of
           Fail e \<Rightarrow> do { cleanup (Some (p, s)); ret (Fail (err_or_empty eb e)) }
         | Ok fd \<Rightarrow> share_buffer acc E fd p s buf len eb
       }
   }"

definition rdma_recv_setup ::
  "env \<Rightarrow> string \<Rightarrow> string option \<Rightarrow> u8 \<Rightarrow> u8 \<Rightarrow> string \<Rightarrow> nat \<times> u64 \<Rightarrow> u64 \<Rightarrow> nat option \<Rightarrow>
   (nat \<times> rdma_session) result io" where
  "rdma_recv_setup = setup_with {ACCESS_LOCAL_WRITE, ACCESS_REMOTE_READ, ACCESS_REMOTE_WRITE}"

definition rdma_send_setup ::
  "env \<Rightarrow> string \<Rightarrow> string option \<Rightarrow> u8 \<Rightarrow> u8 \<Rightarrow> string \<Rightarrow> nat \<times> u64 \<Rightarrow> u64 \<Rightarrow> nat option \<Rightarrow>
   (nat \<times> rdma_session) result io" where
  "rdma_send_setup = setup_with {ACCESS_LOCAL_WRITE, ACCESS_REMOTE_READ}"

definition rdma_session_destroy :: "session_ptr \<Rightarrow> unit io" where
  "rdma_session_destroy sp = cleanup sp"

text \<open>The length is narrowed to zlib's 32-bit \<^verbatim>\<open>uInt\<close>.\<close>

definition rdma_crc32 :: "env \<Rightarrow> byte list \<Rightarrow> u32" where
  "rdma_crc32 E data = env_crc32 E (take (length data mod 2 ^ 32) data)"

subsection \<open>What a session holds\<close>

definition session_res :: "nat \<Rightarrow> rdma_session \<Rightarrow> resource list" where
  "session_res buf s =
     (case s_mr s of None \<Rightarrow> [] | Some (m, _) \<Rightarrow> [Res KMr m [the (s_pd s), buf]]) @
     (case s_qp s of None \<Rightarrow> [] | Some (q, _) \<Rightarrow> [Res KQp q [the (s_pd s), the (s_cq s), the (s_cq s)]]) @
     (case s_cq s of None \<Rightarrow> [] | Some c \<Rightarrow> [Res KCq c [the (s_ctx s)]]) @
     (case s_pd s of None \<Rightarrow> [] | Some d \<Rightarrow> [Res KPd d [the (s_ctx s)]]) @
     (case s_ctx s of None \<Rightarrow> [] | Some x \<Rightarrow> [Res KCtx x []])"

text \<open>\<^verbatim>\<open>cleanup\<close> releases the objects in the reverse order of their creation.\<close>

lemma release_optional:
  "moves ((case x of None \<Rightarrow> [] | Some (m, _) \<Rightarrow> [Res KMr m ps]) @ L)
     (case x of None \<Rightarrow> ret () | Some (m, _) \<Rightarrow> c_dereg_mr m) (\<lambda>_. L)"
  "moves ((case y of None \<Rightarrow> [] | Some (q, _) \<Rightarrow> [Res KQp q ps]) @ L)
     (case y of None \<Rightarrow> ret () | Some (q, _) \<Rightarrow> c_destroy_qp q) (\<lambda>_. L)"
  "moves ((case z of None \<Rightarrow> [] | Some c \<Rightarrow> [Res KCq c ps]) @ L)
     (case z of None \<Rightarrow> ret () | Some c \<Rightarrow> c_destroy_cq c) (\<lambda>_. L)"
  "moves ((case z of None \<Rightarrow> [] | Some c \<Rightarrow> [Res KPd c ps]) @ L)
     (case z of None \<Rightarrow> ret () | Some c \<Rightarrow> c_dealloc_pd c) (\<lambda>_. L)"
  "moves ((case z of None \<Rightarrow> [] | Some c \<Rightarrow> [Res KCtx c ps]) @ L)
     (case z of None \<Rightarrow> ret () | Some c \<Rightarrow> c_close_device c) (\<lambda>_. L)"
  by (auto simp: release_defs intro: moves_release_top moves_returnI split: option.splits)

lemma moves_cleanup:
  "moves (session_res buf s @ Res KMem p [] # L) (cleanup (Some (p, s))) (\<lambda>_. L)"
  unfolding cleanup_def session_res_def option.case prod.case append_assoc c_free_def
  by (intro moves_bind [OF release_optional(1)] moves_bind [OF release_optional(2)]
      moves_bind [OF release_optional(3)] moves_bind [OF release_optional(4)]
      moves_bind [OF release_optional(5)] moves_release_top) simp_all

text \<open>The resources after a step of the handshake: the session's, and the channel if it is open.\<close>

definition handshake_res :: "resource list \<Rightarrow> nat result \<times> rdma_session \<Rightarrow> resource list" where
  "handshake_res L rs = session_res 0 (snd rs) @ opened L (fst rs)"

lemma session_res_zero [simp]: "session_res buf session_zero = []"
  by (simp add: session_res_def session_zero_def)

text \<open>The resources of the stages of a session.\<close>

lemma session_res_stages:
  "session_res b (session_zero\<lparr>s_ctx := None\<rparr>) = []"
  "session_res b (session_zero\<lparr>s_ctx := Some x\<rparr>) = [Res KCtx x []]"
  "session_res b (session_zero\<lparr>s_ctx := Some x, s_pd := None\<rparr>) = [Res KCtx x []]"
  "session_res b (session_zero\<lparr>s_ctx := Some x, s_pd := Some d\<rparr>) = [Res KPd d [x], Res KCtx x []]"
  "session_res b (session_zero\<lparr>s_ctx := Some x, s_pd := Some d, s_cq := None\<rparr>)
     = [Res KPd d [x], Res KCtx x []]"
  "session_res b (session_zero\<lparr>s_ctx := Some x, s_pd := Some d, s_cq := Some c\<rparr>)
     = [Res KCq c [x], Res KPd d [x], Res KCtx x []]"
  "session_res b (session_zero\<lparr>s_ctx := Some x, s_pd := Some d, s_cq := Some c, s_qp := None\<rparr>)
     = [Res KCq c [x], Res KPd d [x], Res KCtx x []]"
  "session_res b (session_zero\<lparr>s_ctx := Some x, s_pd := Some d, s_cq := Some c, s_qp := Some (q, n)\<rparr>)
     = [Res KQp q [d, c, c], Res KCq c [x], Res KPd d [x], Res KCtx x []]"
  by (simp_all add: session_res_def session_zero_def)

lemma moves_fail_close:
  assumes "no_child fd (session_res 0 s)" "fd \<notin> hid ` set (session_res 0 s)"
  shows "moves (session_res 0 s @ Res KFd fd [] # L) (fail_close E fd e s) (handshake_res L)"
  unfolding fail_close_def handshake_res_def
  by (rule moves_wf, rule moves_bind [OF moves_ws_close])
    (use assms in \<open>auto intro!: moves_returnI dest: wf_live_suffix\<close>)

lemma gid_length: "wp (v_query_gid E ctx port i) (\<lambda>r _. \<forall>g. r = Some g \<longrightarrow> length g = 16) tr"
  by (auto simp: v_query_gid_def wp_rules c_query_gid_def Let_def)

lemma mtu_range: "wp (v_query_mtu_enum E ctx port) (\<lambda>m _. - 1 \<le> m \<and> m \<le> 5) tr"
  by (auto simp: v_query_mtu_enum_def wp_rules c_query_port_def Let_def mtu_of_active_def
      split: option.splits)

lemma keeps_v_query_gid: "holds KCtx c L \<Longrightarrow> keeps L (v_query_gid E c p i)"
  unfolding v_query_gid_def by (rule keeps_query_gid)

lemma keeps_v_query_mtu_enum: "holds KCtx c L \<Longrightarrow> keeps L (v_query_mtu_enum E c p)"
  unfolding v_query_mtu_enum_def by (auto intro!: moves_intros split: option.splits)

lemma keeps_v_modify:
  assumes "holds KQp q L"
  shows "keeps L (v_qp_to_init E q port)" "keeps L (v_qp_to_rtr E q n l g port i mtu)"
    "keeps L (v_qp_to_rts E q)"
  unfolding v_qp_to_init_def v_qp_to_rtr_def v_qp_to_rts_def by (rule keeps_modify_qp [OF assms])+

lemma moves_connect_qp:
  assumes "holds KCtx x (session_res 0 s)" "holds KQp q (session_res 0 s)"
    and "no_child fd (session_res 0 s)" "fd \<notin> hid ` set (session_res 0 s)"
  shows "moves (session_res 0 s @ Res KFd fd [] # L) (connect_qp E fd port i x q n eb s) (handshake_res L)"
proof -
  let ?L = "session_res 0 s @ Res KFd fd [] # L"
  have h: "holds KCtx x ?L" "holds KQp q ?L" "holds KFd fd ?L" using assms by auto
  note fail = moves_fail_close [OF assms(3,4)]
  have ok: "qpinfo_ok \<lparr>qpn = n, lid = 0, gid = g, gid_idx = i, mtu_enum = m\<rparr>"
    if "length g = 16" "- 1 \<le> m \<and> m \<le> 5" for g m
    using that by (simp add: qpinfo_ok_def)
  show ?thesis
    unfolding connect_qp_def
    apply (rule moves_bind_post [OF keeps_v_query_gid [OF h(1)] gid_length])
    apply (auto split: option.splits intro!: fail moves_bind_post [OF keeps_v_query_mtu_enum [OF h(1)] mtu_range])
    apply (rule moves_bind [OF keeps_send_qpinfo_client [OF h(3) ok]], simp_all)
    apply (auto intro!: fail moves_bind [OF keeps_recv_qpinfo_server [OF h(3)]]
        moves_bind [OF keeps_v_modify(2) [OF h(2)]] moves_bind [OF keeps_v_modify(3) [OF h(2)]]
        moves_returnI simp: handshake_res_def split: result.splits)
    done
qed

text \<open>The exits of the stages, with the handles distinct.\<close>

lemmas stage_exits =
  moves_fail_close [where s = "session_zero\<lparr>s_ctx := None\<rparr>"]
  moves_fail_close [where s = "session_zero\<lparr>s_ctx := Some x, s_pd := None\<rparr>" for x]
  moves_fail_close [where s = "session_zero\<lparr>s_ctx := Some x, s_pd := Some d, s_cq := None\<rparr>" for x d]
  moves_fail_close [where s = "session_zero\<lparr>s_ctx := Some x, s_pd := Some d, s_cq := Some c,
    s_qp := None\<rparr>" for x d c]
  moves_fail_close [where s = "session_zero\<lparr>s_ctx := Some x, s_pd := Some d, s_cq := Some c,
    s_qp := Some (q, n)\<rparr>" for x d c q n]
  moves_connect_qp [where s = "session_zero\<lparr>s_ctx := Some x, s_pd := Some d, s_cq := Some c,
    s_qp := Some (q, n)\<rparr>" for x d c q n]

lemmas exits = stage_exits [unfolded session_res_stages, simplified]

lemma moves_create_qp_session:
  "moves (Res KFd fd [] # L) (create_qp E fd dev port i eb session_zero) (handshake_res L)"
  unfolding create_qp_def Let_def rc_qp_attr_def
  by (rule moves_bindI [OF moves_v_open_device])
    (auto split: option.splits prod.splits
      intro!: exits moves_bindI [OF moves_alloc_pd] moves_bindI [OF moves_create_cq]
        moves_bindI [OF moves_create_qp] moves_bindI [OF keeps_v_modify(1)])

lemma moves_rdma_handshake:
  assumes "length url \<le> 362"
  shows "moves L (rdma_handshake E url dev port i rid eb session_zero) (handshake_res L)"
proof -
  have fail: "moves (Res KFd fd [] # L) (fail_close E fd e session_zero) (handshake_res L)" for fd e
    using moves_fail_close [of fd session_zero] by simp
  show ?thesis
    unfolding rdma_handshake_def
    by (auto intro!: fail moves_bindI [OF moves_ws_dial [OF assms]] moves_returnI
        moves_bindI [OF keeps_send_register_request] moves_bindI [OF keeps_recv_register_response]
        moves_create_qp_session simp: handshake_res_def split: result.splits)
qed

text \<open>A handshake that succeeds has filled the session, but for the memory region.\<close>

definition session_up :: "rdma_session \<Rightarrow> nat \<Rightarrow> nat \<Rightarrow> nat \<Rightarrow> nat \<Rightarrow> u32 \<Rightarrow> bool" where
  "session_up s x d c q n \<longleftrightarrow>
     s = session_zero\<lparr>s_ctx := Some x, s_pd := Some d, s_cq := Some c, s_qp := Some (q, n)\<rparr>"

definition filled :: "nat result \<times> rdma_session \<Rightarrow> bool" where
  "filled rs \<longleftrightarrow>
     s_mr (snd rs) = None \<and> (is_Ok (fst rs) \<longrightarrow> (\<exists>x d c q n. session_up (snd rs) x d c q n))"

lemma session_zero_mr [simp]: "s_mr session_zero = None"
  by (simp add: session_zero_def)

lemma session_up_mr: "session_up s x d c q n \<Longrightarrow> s_mr s = None"
  by (simp add: session_up_def)

lemma filled_fail: "s_mr s = None \<Longrightarrow> yields filled (fail_close E fd e s)"
  by (simp add: fail_close_def yields_bindI yields_returnI filled_def)

lemma filled_Ok: "session_up s x d c q n \<Longrightarrow> filled (Ok fd, s)"
  unfolding filled_def by (simp add: session_up_mr) blast

lemma filled_connect_qp: "session_up s x d c q n \<Longrightarrow> yields filled (connect_qp E fd port i x q n eb s)"
  unfolding connect_qp_def
  by (auto intro!: yields_bindI yields_returnI filled_fail filled_Ok simp: session_up_mr
      split: option.splits result.splits)

lemma filled_create_qp: "yields filled (create_qp E fd dev port i eb session_zero)"
  unfolding create_qp_def Let_def
  by (auto intro!: yields_bindI filled_fail filled_connect_qp [OF session_up_def [THEN iffD2, OF refl]]
      split: option.splits prod.splits)

lemma filled_handshake: "yields filled (rdma_handshake E url dev port i rid eb session_zero)"
  unfolding rdma_handshake_def
  by (auto intro!: yields_bindI yields_returnI filled_fail filled_create_qp simp: filled_def
      split: result.splits)

text \<open>The session's resources do not mention the buffer before it is registered.\<close>

lemma session_res_no_mr: "s_mr s = None \<Longrightarrow> session_res b s = session_res b' s"
  by (simp add: session_res_def)

lemma session_res_up:
  "session_up s x d c q n \<Longrightarrow>
   session_res b s = [Res KQp q [d, c, c], Res KCq c [x], Res KPd d [x], Res KCtx x []]"
  "session_up s x d c q n \<Longrightarrow> session_res b (s\<lparr>s_mr := Some (m, k)\<rparr>) =
   [Res KMr m [d, b], Res KQp q [d, c, c], Res KCq c [x], Res KPd d [x], Res KCtx x []]"
  "session_up s x d c q n \<Longrightarrow> session_res b (s\<lparr>s_mr := None\<rparr>) =
   [Res KQp q [d, c, c], Res KCq c [x], Res KPd d [x], Res KCtx x []]"
  "session_up s x d c q n \<Longrightarrow> s_pd s = Some d"
  by (simp_all add: session_res_def session_up_def session_zero_def)

abbreviation after_setup :: "nat \<Rightarrow> resource list \<Rightarrow> (nat \<times> rdma_session) result \<Rightarrow> resource list" where
  "after_setup buf L r \<equiv>
     (case r of Ok (p, s) \<Rightarrow> session_res buf s @ Res KMem p [] # L | Fail _ \<Rightarrow> L)"

lemma moves_clean_fail:
  "moves (session_res buf s @ Res KMem p [] # L) (do { cleanup (Some (p, s)); ret (Fail e) })
     (after_setup buf L)"
  by (rule moves_bind [OF moves_cleanup]) (simp add: moves_returnI)

lemma moves_close_up:
  assumes "session_up s x d c q n" "holds (KMap len) buf L"
  shows "moves (session_res buf (s\<lparr>s_mr := mr\<rparr>) @ Res KFd fd [] # L) (ws_close E fd)
    (\<lambda>_. session_res buf (s\<lparr>s_mr := mr\<rparr>) @ L)"
proof (rule moves_wf)
  let ?L = "session_res buf (s\<lparr>s_mr := mr\<rparr>) @ Res KFd fd [] # L"
  assume wf: "wf_live ?L"
  have "no_child fd ?L \<and> without fd ?L = session_res buf (s\<lparr>s_mr := mr\<rparr>) @ L"
    using wf assms(2) session_res_up [OF assms(1)]
    by (cases mr) (auto dest: holds_hid)
  then show "moves ?L (ws_close E fd) (\<lambda>_. session_res buf (s\<lparr>s_mr := mr\<rparr>) @ L)"
    using moves_ws_close [of fd ?L E] by simp
qed

lemma moves_share_buffer:
  assumes up: "session_up s x d c q n" and buf: "holds (KMap len) (fst buf) L"
  shows "moves (session_res (fst buf) s @ Res KFd fd [] # Res KMem p [] # L)
    (share_buffer acc E fd p s buf len eb) (after_setup (fst buf) L)"
proof -
  have buf': "holds (KMap len) (fst buf) (Res KMem p [] # L)" using buf by simp
  note closing = moves_bind [OF moves_close_up [OF up buf']]
  have reg: "moves (session_res (fst buf) s @ Res KFd fd [] # Res KMem p [] # L)
     (c_reg_mr E (the (s_pd s)) (fst buf) len acc)
     (\<lambda>mr. session_res (fst buf) (s\<lparr>s_mr := mr\<rparr>) @ Res KFd fd [] # Res KMem p [] # L)"
    by (rule moves_cong [OF moves_reg_mr])
      (use buf in \<open>auto simp: session_res_up [OF up] split: option.splits\<close>)
  show ?thesis
    unfolding share_buffer_def Let_def
    by (auto intro!: moves_bind [OF reg] closing moves_clean_fail moves_returnI
        moves_bind [OF keeps_send_token] split: option.splits)
qed

lemma moves_setup_with:
  assumes "length url \<le> 362" "holds (KMap len) (fst buf) L"
  shows "moves L (setup_with acc E url dev port i rid buf len eb) (after_setup (fst buf) L)"
proof -
  have shared: "moves (handshake_res (Res KMem p [] # L) (r, s))
      (case r of
         Fail e \<Rightarrow> do { cleanup (Some (p, s)); ret (Fail (err_or_empty eb e)) }
       | Ok fd \<Rightarrow> share_buffer acc E fd p s buf len eb) (after_setup (fst buf) L)"
    if "filled (r, s)" for r s p
  proof -
    have "session_res 0 s = session_res (fst buf) s"
      using that by (intro session_res_no_mr) (simp add: filled_def)
    then show ?thesis
      using that moves_share_buffer [OF _ assms(2)] moves_clean_fail
      by (auto simp: handshake_res_def filled_def split: result.splits)
  qed
  have "moves (Res KMem p [] # L) (do {
        (r, s) \<leftarrow> rdma_handshake E url dev port i rid eb session_zero;
        case r of
          Fail e \<Rightarrow> do { cleanup (Some (p, s)); ret (Fail (err_or_empty eb e)) }
        | Ok fd \<Rightarrow> share_buffer acc E fd p s buf len eb
      }) (after_setup (fst buf) L)" for p
    by (rule moves_bind_post [OF moves_rdma_handshake [OF assms(1)] yields_wp [OF filled_handshake]])
      (auto intro!: shared)
  then show ?thesis
    unfolding setup_with_def by (auto intro!: moves_intros split: option.splits)
qed

subsection \<open>The queue pair's transitions\<close>

lemma leaves_qp_channel:
  "leaves_qp (ws_dial E url eb)" "leaves_qp (ws_close E fd)"
  "leaves_qp (send_register_request E fd rid)" "leaves_qp (recv_register_response E fd eb)"
  "leaves_qp (send_qpinfo_client E fd qi)" "leaves_qp (recv_qpinfo_server E fd eb)"
  "leaves_qp (send_token E fd a k st n)"
  unfolding send_register_request_def recv_register_response_def send_qpinfo_client_def
    recv_qpinfo_server_def send_token_def
  by (rule local_leaves_qp; auto intro!: emits_intros simp: Let_def split: option.splits)+

lemma leaves_qp_open_named: "leaves_qp (open_named E lst dev i names)"
  by (induction names arbitrary: i) (auto intro!: emits_intros simp: call_defs Let_def)

lemma leaves_qp_verbs:
  "leaves_qp (v_open_device E dev)" "leaves_qp (c_alloc_pd E x)" "leaves_qp (c_create_cq E x k)"
  "leaves_qp (v_query_gid E x port j)" "leaves_qp (v_query_mtu_enum E x port)"
  "leaves_qp (c_reg_mr E d b len acc)" "leaves_qp (cleanup sp)"
  unfolding v_open_device_def v_query_gid_def v_query_mtu_enum_def cleanup_def
  by (auto intro!: emits_intros leaves_qp_open_named simp: call_defs release_defs Let_def
      split: option.splits)

lemmas leaves_qp = leaves_qp_channel leaves_qp_verbs

definition hs_post :: "nat result \<times> rdma_session \<Rightarrow> trace \<Rightarrow> bool" where
  "hs_post rs t \<longleftrightarrow> qp_legal t \<and>
     (is_Ok (fst rs) \<longrightarrow> (\<exists>q n. s_qp (snd rs) = Some (q, n) \<and> qp_at q t = QPS_RTS))"

lemma hs_post_fail: "qp_legal t \<Longrightarrow> wp (fail_close E fd e s) hs_post t"
  unfolding fail_close_def wp_rules
  by (rule wp_leaves_legal [OF leaves_qp(2)]) (simp_all add: hs_post_def)

lemma hs_post_connect_qp:
  assumes "qp_in q QPS_INIT t" "s_qp s = Some (q, n)"
  shows "wp (connect_qp E fd port i x q n eb s) hs_post t"
proof -
  have fail: "wp (fail_close E fd e s) hs_post t" if "qp_in q st t" for e t st
    using that by (simp add: hs_post_fail qp_in_def)
  have rts: "wp (v_qp_to_rts E q) (\<lambda>b. wp (if b \<noteq> 0 then fail_close E fd e s else ret (Ok fd, s)) hs_post) t"
    if "qp_in q QPS_RTR t" for t e
    using lib.rts_step [OF that]
    by (rule wp_mono) (use assms(2) in \<open>auto simp: wp_rules fail hs_post_def qp_in_def split: if_splits\<close>)
  have rtr: "wp (v_qp_to_rtr E q a b c port j m) (\<lambda>r. wp (if r \<noteq> 0 then fail_close E fd e s
      else v_qp_to_rts E q \<bind> (\<lambda>b. if b \<noteq> 0 then fail_close E fd e' s else ret (Ok fd, s))) hs_post) t"
    if "qp_in q QPS_INIT t" for t a b c j m e e'
    using lib.rtr_step [OF that] by (rule wp_mono) (auto simp: wp_bind fail rts split: if_splits)
  show ?thesis
    unfolding connect_qp_def wp_bind
    apply (rule wp_leaves_qp [OF leaves_qp(11) assms(1)])
    apply (simp add: fail wp_bind split: option.split)
    apply (intro allI impI, rule wp_leaves_qp [OF leaves_qp(12)], assumption)
    apply (simp add: fail wp_bind)
    apply (intro impI, rule wp_leaves_qp [OF leaves_qp(5)], assumption)
    apply (simp add: fail wp_bind)
    apply (intro impI, rule wp_leaves_qp [OF leaves_qp(6)], assumption)
    apply (simp add: fail wp_bind rtr split: result.split)
    done
qed

lemma hs_post_create_qp: "qp_legal t \<Longrightarrow> wp (create_qp E fd dev port i eb s) hs_post t"
proof -
  assume legal: "qp_legal t"
  have init: "wp (c_create_qp E d a) (\<lambda>qp. wp (case qp of
      None \<Rightarrow> fail_close E fd e (s'\<lparr>s_qp := qp\<rparr>)
    | Some (q, n) \<Rightarrow> v_qp_to_init E q port \<bind> (\<lambda>r. if r \<noteq> 0 then fail_close E fd e' (s'\<lparr>s_qp := qp\<rparr>)
        else connect_qp E fd port i x q n eb (s'\<lparr>s_qp := qp\<rparr>))) hs_post) t"
    if legal: "qp_legal t" for d a s' x e e' t
  proof (cases "env_create_qp E t d a")
    case None
    with legal show ?thesis by (simp add: c_create_qp_def Let_def wp_rules hs_post_fail)
  next
    case (Some n)
    let ?q = "length t" and ?t = "Verbs (CreateQp d a (Some (length t, n))) # t"
    have "qp_in ?q QPS_RESET ?t" using legal by (simp add: qp_in_def)
    from lib.init_step [OF this, of E port]
    have "wp (v_qp_to_init E ?q port) (\<lambda>r. wp (if r \<noteq> 0 then fail_close E fd e' (s'\<lparr>s_qp := Some (?q, n)\<rparr>)
        else connect_qp E fd port i x ?q n eb (s'\<lparr>s_qp := Some (?q, n)\<rparr>)) hs_post) ?t"
      by (rule wp_mono) (auto simp: hs_post_connect_qp hs_post_fail qp_in_def [where st = QPS_RESET]
          split: if_splits)
    with Some show ?thesis by (simp add: c_create_qp_def Let_def wp_rules cong: if_cong)
  qed
  show ?thesis
    unfolding create_qp_def wp_bind Let_def
    apply (rule wp_leaves_legal [OF leaves_qp(8) legal])
    apply (simp add: hs_post_fail wp_bind split: option.split)
    apply (intro allI impI, rule wp_leaves_legal [OF leaves_qp(9)], assumption)
    apply (simp add: hs_post_fail wp_bind split: option.split)
    apply (intro allI impI, rule wp_leaves_legal [OF leaves_qp(10)], assumption)
    apply (auto simp: hs_post_fail wp_bind init split: option.split)
    done
qed

lemma hs_post_handshake: "qp_legal t \<Longrightarrow> wp (rdma_handshake E url dev port i rid eb s) hs_post t"
  unfolding rdma_handshake_def wp_bind
  apply (erule wp_leaves_legal [OF leaves_qp(1)])
  apply (auto simp: wp_rules hs_post_def [of "(Fail _, _)"] split: result.split)
  apply (erule wp_leaves_legal [OF leaves_qp(3)])
  apply (auto simp: hs_post_fail wp_bind)
  apply (erule wp_leaves_legal [OF leaves_qp(4)])
  apply (auto simp: hs_post_fail hs_post_create_qp split: result.split)
  done

definition setup_post :: "(nat \<times> rdma_session) result \<Rightarrow> trace \<Rightarrow> bool" where
  "setup_post r t \<longleftrightarrow> qp_legal t \<and>
     (\<forall>p s. r = Ok (p, s) \<longrightarrow> (\<exists>q n. s_qp s = Some (q, n) \<and> qp_at q t = QPS_RTS))"

lemma wp_setup_post_fail:
  "qp_legal t \<Longrightarrow> wp (cleanup sp) (\<lambda>_. setup_post (Fail e)) t"
  by (erule wp_leaves_legal [OF leaves_qp(14)]) (simp add: setup_post_def)

lemma setup_post_share:
  assumes "qp_in q QPS_RTS t" "s_qp s = Some (q, n)"
  shows "wp (share_buffer acc E fd p s buf len eb) setup_post t"
proof -
  have fail: "wp (ws_close E fd) (\<lambda>_. wp (cleanup sp) (\<lambda>_. setup_post (Fail e))) t"
    if "qp_in q QPS_RTS t" for sp e t
    by (rule wp_leaves_qp [OF leaves_qp(2) that]) (simp add: wp_setup_post_fail qp_in_def)
  have ok: "wp (ws_close E fd) (\<lambda>_. setup_post (Ok (p, s\<lparr>s_mr := mr\<rparr>))) t"
    if "qp_in q QPS_RTS t" for mr t
    by (rule wp_leaves_qp [OF leaves_qp(2) that]) (use assms(2) in \<open>simp add: setup_post_def qp_in_def\<close>)
  have sent: "wp (send_token E fd a k st ln) (\<lambda>b. wp (if \<not> b then
        ws_close E fd \<bind> (\<lambda>_. cleanup sp \<bind> (\<lambda>_. ret (Fail e)))
        else ws_close E fd \<bind> (\<lambda>_. ret (Ok (p, s\<lparr>s_mr := mr\<rparr>)))) setup_post) t"
    if "qp_in q QPS_RTS t" for a k st ln sp e mr t
    by (rule wp_leaves_qp [OF leaves_qp(7) that]) (simp add: wp_rules fail ok)
  show ?thesis
    unfolding share_buffer_def wp_bind Let_def
    by (rule wp_leaves_qp [OF leaves_qp(13) assms(1)])
      (auto simp: wp_bind wp_return fail sent split: option.split)
qed

lemma setup_post_setup: "qp_legal t \<Longrightarrow> wp (setup_with acc E url dev port i rid buf len eb) setup_post t"
proof -
  assume legal: "qp_legal t"
  have hs: "wp (rdma_handshake E url dev port i rid eb session_zero) (\<lambda>rs. wp (case rs of (r, s) \<Rightarrow>
      (case r of
         Fail e \<Rightarrow> cleanup (Some (p, s)) \<bind> (\<lambda>_. ret (Fail (err_or_empty eb e)))
       | Ok fd \<Rightarrow> share_buffer acc E fd p s buf len eb)) setup_post) t"
    if "qp_legal t" for p t
    using hs_post_handshake [OF that, of E url dev port i rid eb session_zero]
    by (rule wp_mono)
      (auto simp: hs_post_def wp_bind wp_return wp_setup_post_fail setup_post_share qp_in_def
        split: result.split)
  show ?thesis
    using legal hs
    by (auto simp: setup_with_def wp_rules call_defs release_defs Let_def setup_post_def
        split: option.split)
qed

subsection \<open>The verbs calls of a set-up that succeeds\<close>

definition device_log :: "nat \<Rightarrow> string list \<Rightarrow> nat \<Rightarrow> nat \<Rightarrow> verbs_call list" where
  "device_log l names j x = [FreeDeviceList l, OpenDevice l j (Some x), GetDeviceList (Some (l, names))]"

definition create_log :: "u8 \<Rightarrow> nat \<Rightarrow> nat \<Rightarrow> nat \<Rightarrow> nat \<Rightarrow> u32 \<Rightarrow> verbs_call list" where
  "create_log port x d c q n =
     [ModifyQp q (qp_attr_zero\<lparr>qp_state := QPS_INIT, port_num := port, qp_access_flags :=
        {ACCESS_LOCAL_WRITE, ACCESS_REMOTE_READ, ACCESS_REMOTE_WRITE}\<rparr>) init_mask 0,
      CreateQp d (rc_qp_attr c) (Some (q, n)), CreateCq x 2 (Some c), AllocPd x (Some d)]"

definition query_log :: "u8 \<Rightarrow> u8 \<Rightarrow> nat \<Rightarrow> byte list \<Rightarrow> int \<Rightarrow> verbs_call list" where
  "query_log port i x raw active = [QueryPort x port (Some active), QueryGid x port (int (unat i)) (Some raw)]"

definition connect_log :: "u8 \<Rightarrow> u8 \<Rightarrow> nat \<Rightarrow> nat \<Rightarrow> byte list \<Rightarrow> int \<Rightarrow> qpinfo \<Rightarrow> verbs_call list" where
  "connect_log port i x q raw active srv =
     [ModifyQp q (qp_attr_zero\<lparr>qp_state := QPS_RTS, timeout := 14, retry_cnt := 7, rnr_retry := 7,
        max_rd_atomic := 1\<rparr>) rts_mask 0,
      ModifyQp q (qp_attr_zero\<lparr>qp_state := QPS_RTR, path_mtu := mtu_enum srv, dest_qp_num := qpn srv,
        max_dest_rd_atomic := 1, min_rnr_timer := 12, ah_is_global := 1, ah_dlid := lid srv,
        ah_port_num := port, grh_sgid_index := gid_idx srv, grh_hop_limit := 64,
        grh_dgid := gid srv\<rparr>) rtr_mask 0] @ query_log port i x raw active"

text \<open>The device that is opened is the first one whose name is the one asked for.\<close>

definition picks :: "string option \<Rightarrow> string list \<Rightarrow> nat \<Rightarrow> bool" where
  "picks dev names j \<longleftrightarrow> j < length names \<and>
     (if dev = None \<or> dev = Some [] then j = 0
      else dev = Some (names ! j) \<and> (\<forall>k < j. dev \<noteq> Some (names ! k)))"

abbreviation verbs_log :: "trace \<Rightarrow> event list" where
  "verbs_log t \<equiv> filter is_verbs t"

lemma local_log: "emits is_local m \<Longrightarrow> run_state m tr = (a, t) \<Longrightarrow> verbs_log t = verbs_log tr \<and> suffix tr t"
  using local_not_verbs by (auto simp: list_all_iff filter_empty_conv suffix_def dest!: emits_run)

lemma wp_channel_log:
  assumes "emits is_local m" "\<And>a t. verbs_log t = verbs_log tr \<Longrightarrow> suffix tr t \<Longrightarrow> Q a t"
  shows "wp m Q tr"
  by (rule wp_runI) (use local_log [OF assms(1)] assms(2) in blast)

text \<open>
  The parameters \<open>srv\<close> are those that the server has sent in this set-up: the result of the receiving function when the
  verbs calls made so far were \<open>W\<close>.
\<close>

definition server_said :: "env \<Rightarrow> nat option \<Rightarrow> event list \<Rightarrow> qpinfo \<Rightarrow> trace \<Rightarrow> bool" where
  "server_said E eb W srv t \<longleftrightarrow>
     (\<exists>fd t1 t2. verbs_log t1 = W \<and> run_state (recv_qpinfo_server E fd eb) t1 = (Ok srv, t2) \<and> suffix t2 t)"

lemma server_said_later: "server_said E eb W srv t \<Longrightarrow> suffix t t' \<Longrightarrow> server_said E eb W srv t'"
  unfolding server_said_def using suffix_order.trans by blast

lemma channel_local:
  "emits is_local (ws_dial E url eb)" "emits is_local (ws_close E fd)"
  "emits is_local (send_register_request E fd rid)" "emits is_local (recv_register_response E fd eb)"
  "emits is_local (send_qpinfo_client E fd qi)" "emits is_local (recv_qpinfo_server E fd eb)"
  "emits is_local (send_token E fd a k st n)"
  unfolding send_register_request_def recv_register_response_def send_qpinfo_client_def
    recv_qpinfo_server_def send_token_def
  by (auto intro!: emits_intros simp: Let_def split: option.splits)

definition hs_log ::
  "env \<Rightarrow> nat option \<Rightarrow> string option \<Rightarrow> event list \<Rightarrow> u8 \<Rightarrow> u8 \<Rightarrow> nat result \<times> rdma_session \<Rightarrow> trace \<Rightarrow> bool" where
  "hs_log E eb dev V port i rs t \<longleftrightarrow> (is_Ok (fst rs) \<longrightarrow> (\<exists>l names j x d c q n raw active srv.
     picks dev names j \<and> session_up (snd rs) x d c q n \<and>
     server_said E eb (map Verbs (query_log port i x raw active @ create_log port x d c q n @ device_log l names j x) @ V) srv t \<and>
     verbs_log t = map Verbs (connect_log port i x q raw active srv @ create_log port x d c q n @
       device_log l names j x) @ V))"

lemma hs_log_fail: "wp (fail_close E fd e s) (hs_log E eb dev V port i) t"
  by (simp add: fail_close_def wp_rules hs_log_def) (simp add: wp_def split: prod.split)

text \<open>Calls on the device: the answer decides the branch, the log grows by the call.\<close>

lemma wp_query_gid_log:
  assumes "\<And>r t'. verbs_log t' = Verbs (QueryGid x port j r) # verbs_log t \<Longrightarrow> Q r t'"
  shows "wp (v_query_gid E x port j) Q t"
  by (simp add: v_query_gid_def c_query_gid_def Let_def wp_rules assms)

lemma wp_query_mtu_log:
  assumes "\<And>m t'. verbs_log t' = Verbs (QueryPort x port (Some m)) # verbs_log t \<Longrightarrow> Q (mtu_of_active m) t'"
    and "\<And>t'. Q (- 1) t'"
  shows "wp (v_query_mtu_enum E x port) Q t"
  using assms by (simp add: v_query_mtu_enum_def c_query_port_def Let_def wp_rules split: option.split)

lemma wp_modify_log:
  assumes "\<And>r t'. verbs_log t' = Verbs (ModifyQp q a m r) # verbs_log t \<Longrightarrow> suffix t t' \<Longrightarrow> Q r t'"
  shows "wp (c_modify_qp E q a m) Q t"
  by (simp add: c_modify_qp_def Let_def wp_rules assms suffix_ConsI)

lemma hs_logI:
  "picks dev names j \<Longrightarrow> session_up s x d c q n \<Longrightarrow>
   server_said E eb (map Verbs (query_log port i x raw active @ create_log port x d c q n @ device_log l names j x) @ V) srv t \<Longrightarrow>
   verbs_log t = map Verbs (connect_log port i x q raw active srv @ create_log port x d c q n @
     device_log l names j x) @ V \<Longrightarrow>
   hs_log E eb dev V port i (Ok fd, s) t"
  unfolding hs_log_def snd_conv by blast

lemma hs_log_connect_qp:
  assumes dev: "picks dev names j" and up: "session_up s x d c q n"
    and log: "verbs_log t = map Verbs (create_log port x d c q n @ device_log l names j x) @ V"
  shows "wp (connect_qp E fd port i x q n eb s) (hs_log E eb dev V port i) t"
proof -
  let ?W = "\<lambda>raw m. map Verbs (query_log port i x raw m @ create_log port x d c q n @ device_log l names j x) @ V"
  have last: "wp (v_qp_to_rtr E q (qpn srv) (lid srv) (gid srv) port (gid_idx srv) (mtu_enum srv))
      (\<lambda>a. wp (if a \<noteq> 0 then fail_close E fd e s else v_qp_to_rts E q \<bind>
        (\<lambda>b. if b \<noteq> 0 then fail_close E fd e' s else ret (Ok fd, s))) (hs_log E eb dev V port i)) t'"
    if "verbs_log t' = ?W raw m" "server_said E eb (?W raw m) srv t'" for t' and srv :: qpinfo and m raw e e'
    unfolding v_qp_to_rtr_def v_qp_to_rts_def
    by (rule wp_modify_log, simp add: hs_log_fail wp_rules, intro impI,
        rule wp_modify_log, simp add: hs_log_fail wp_rules, intro impI,
        rule hs_logI [OF dev up, where raw = raw and active = m and srv = srv])
      (simp_all add: that(1) connect_log_def qp_attr_zero_def
        server_said_later [OF that(2) [simplified]] suffix_order.trans)
  have said: "wp (recv_qpinfo_server E fd eb) (\<lambda>r. wp (case r of
        Fail e \<Rightarrow> fail_close E fd e s
      | Ok srv \<Rightarrow> k srv) (hs_log E eb dev V port i)) t'"
    if "verbs_log t' = ?W raw m"
      "\<And>srv t''. verbs_log t'' = ?W raw m \<Longrightarrow> server_said E eb (?W raw m) srv t'' \<Longrightarrow> wp (k srv) (hs_log E eb dev V port i) t''"
    for t' k raw m
  proof (rule wp_runI)
    fix r t''
    assume run: "run_state (recv_qpinfo_server E fd eb) t' = (r, t'')"
    show "wp (case r of Fail e \<Rightarrow> fail_close E fd e s | Ok srv \<Rightarrow> k srv) (hs_log E eb dev V port i) t''"
    proof (cases r)
      case (Ok srv)
      with run that(1) have "server_said E eb (?W raw m) srv t''" unfolding server_said_def by blast
      with Ok that local_log [OF channel_local(6) run] show ?thesis by simp
    qed (simp add: hs_log_fail)
  qed
  show ?thesis
    unfolding connect_qp_def wp_bind
    apply (rule wp_query_gid_log)
    apply (auto simp: hs_log_fail wp_bind split: option.split)
    apply (rule wp_query_mtu_log)
     apply (auto simp: hs_log_fail wp_bind)
    apply (rule wp_channel_log [OF channel_local(5)])
    apply (auto simp: hs_log_fail wp_bind)
    apply (rule said)
     apply (simp add: log query_log_def)
    apply (simp only: wp_bind, rule last, assumption+)
    done
qed

lemma picks_Suc:
  "picks dev names j \<Longrightarrow> \<not> (dev = None \<or> dev = Some [] \<or> dev = Some name) \<Longrightarrow> picks dev (name # names) (Suc j)"
  by (auto simp: picks_def nth_Cons split: nat.splits)

lemma wp_open_named_log:
  assumes "\<And>j x t'. picks dev names j \<Longrightarrow>
      verbs_log t' = Verbs (OpenDevice l (k + j) (Some x)) # verbs_log t \<Longrightarrow> Q (Some x) t'"
    and "\<And>t'. Q None t'"
  shows "wp (open_named E l dev k names) Q t"
  using assms(1)
proof (induction names arbitrary: k)
  case Nil
  then show ?case by (simp add: wp_rules assms(2))
next
  case (Cons name names)
  show ?case
  proof (cases "dev = None \<or> dev = Some [] \<or> dev = Some name")
    case True
    then have "picks dev (name # names) 0" by (auto simp: picks_def)
    with True show ?thesis
      using Cons.prems [of 0] assms(2) by (auto simp: c_open_device_def Let_def wp_rules)
  next
    case False
    have "wp (open_named E l dev (Suc k) names) Q t"
      by (rule Cons.IH) (use Cons.prems picks_Suc [OF _ False] in force)
    with False show ?thesis unfolding open_named.simps by (simp only: if_False)
  qed
qed

lemma wp_open_device_log:
  assumes "\<And>l names j x t'. picks dev names j \<Longrightarrow>
      verbs_log t' = map Verbs (device_log l names j x) @ verbs_log t \<Longrightarrow> Q (Some x) t'"
    and "\<And>t'. Q None t'"
  shows "wp (v_open_device E dev) Q t"
proof (cases "env_device_list E t")
  case None
  then show ?thesis using assms(2)
    by (simp add: v_open_device_def c_get_device_list_def Let_def wp_rules)
next
  case (Some names)
  have "wp (open_named E l dev 0 names)
      (\<lambda>ctx. wp (c_free_device_list l \<bind> (\<lambda>_. ret ctx)) Q) (Verbs (GetDeviceList (Some (l, names))) # t)"
    for l
    by (rule wp_open_named_log)
      (use assms in \<open>auto simp: c_free_device_list_def wp_rules device_log_def\<close>)
  with Some assms(2) show ?thesis
    by (simp add: v_open_device_def c_get_device_list_def Let_def wp_rules)
qed

lemma wp_alloc_pd_log:
  assumes "\<And>d t'. verbs_log t' = Verbs (AllocPd x (Some d)) # verbs_log t \<Longrightarrow> Q (Some d) t'" "\<And>t'. Q None t'"
  shows "wp (c_alloc_pd E x) Q t"
  by (simp add: c_alloc_pd_def Let_def wp_rules assms)

lemma wp_create_cq_log:
  assumes "\<And>c t'. verbs_log t' = Verbs (CreateCq x k (Some c)) # verbs_log t \<Longrightarrow> Q (Some c) t'" "\<And>t'. Q None t'"
  shows "wp (c_create_cq E x k) Q t"
  by (simp add: c_create_cq_def Let_def wp_rules assms)

lemma wp_create_qp_log:
  assumes "\<And>q n t'. verbs_log t' = Verbs (CreateQp d a (Some (q, n))) # verbs_log t \<Longrightarrow> Q (Some (q, n)) t'"
    and "\<And>t'. Q None t'"
  shows "wp (c_create_qp E d a) Q t"
  by (cases "env_create_qp E t d a") (simp_all add: c_create_qp_def Let_def wp_rules assms)

lemma hs_log_create_qp: "wp (create_qp E fd dev port i eb session_zero) (hs_log E eb dev (verbs_log t) port i) t"
  unfolding create_qp_def wp_bind Let_def
  apply (rule wp_open_device_log)
   apply (simp_all add: hs_log_fail wp_bind)
  apply (rule wp_alloc_pd_log)
   apply (simp_all add: hs_log_fail wp_bind)
  apply (rule wp_create_cq_log)
   apply (simp_all add: hs_log_fail wp_bind)
  apply (rule wp_create_qp_log)
   apply (simp_all add: hs_log_fail wp_bind v_qp_to_init_def)
  apply (rule wp_modify_log)
  apply (simp add: hs_log_fail)
  apply (intro impI, rule hs_log_connect_qp [OF _ session_up_def [THEN iffD2, OF refl]], assumption)
  apply (simp add: create_log_def qp_attr_zero_def)
  done

lemma hs_log_handshake:
  "wp (rdma_handshake E url dev port i rid eb session_zero) (hs_log E eb dev (verbs_log t) port i) t"
  unfolding rdma_handshake_def wp_bind
  apply (rule wp_channel_log [OF channel_local(1)])
  apply (simp add: hs_log_def [of _ _ _ _ _ _ "(Fail _, _)"] wp_rules split: result.split)
  apply (intro allI impI, rule wp_channel_log [OF channel_local(3)])
  apply (simp add: hs_log_fail wp_bind)
  apply (intro impI, rule wp_channel_log [OF channel_local(4)])
  apply (simp add: hs_log_fail split: result.split)
  apply (metis hs_log_create_qp)
  done

definition setup_log ::
  "env \<Rightarrow> nat option \<Rightarrow> access_flag set \<Rightarrow> string option \<Rightarrow> u8 \<Rightarrow> u8 \<Rightarrow> nat \<Rightarrow> u64 \<Rightarrow> event list \<Rightarrow>
   (nat \<times> rdma_session) result \<Rightarrow> trace \<Rightarrow> bool" where
  "setup_log E eb acc dev port i b len V r t \<longleftrightarrow> (\<forall>p s. r = Ok (p, s) \<longrightarrow>
     (\<exists>l names j x d c q n raw active srv m k.
        picks dev names j \<and>
        server_said E eb (map Verbs (query_log port i x raw active @ create_log port x d c q n @ device_log l names j x) @ V) srv t \<and>
        s = \<lparr>s_ctx = Some x, s_pd = Some d, s_cq = Some c, s_qp = Some (q, n), s_mr = Some (m, k)\<rparr> \<and>
        verbs_log t = map Verbs (RegMr d b len acc (Some (m, k)) #
          connect_log port i x q raw active srv @ create_log port x d c q n @
          device_log l names j x) @ V))"

lemma setup_log_Fail: "setup_log E eb acc dev port i b len V (Fail e) t"
  by (simp add: setup_log_def)

lemma wp_log_fail: "wp m (\<lambda>_. setup_log E eb acc dev port i b len V (Fail e)) t"
  by (simp add: wp_def setup_log_Fail split: prod.split)

lemma wp_log_fail2: "wp m (\<lambda>_. wp m' (\<lambda>_. setup_log E eb acc dev port i b len V (Fail e))) t"
  unfolding wp_def [of m] by (simp add: wp_log_fail split: prod.split)

lemma setup_logI:
  "picks dev names j \<Longrightarrow> session_up s x d c q n \<Longrightarrow>
   server_said E eb (map Verbs (query_log port i x raw active @ create_log port x d c q n @ device_log l names j x) @ V) srv t \<Longrightarrow>
   verbs_log t = map Verbs (RegMr d b len acc (Some (m, k)) # connect_log port i x q raw active srv @
     create_log port x d c q n @ device_log l names j x) @ V \<Longrightarrow>
   setup_log E eb acc dev port i b len V (Ok (p, s\<lparr>s_mr := Some (m, k)\<rparr>)) t"
  unfolding setup_log_def session_up_def session_zero_def result.inject prod.inject
  by (intro allI impI exI conjI) (assumption | simp)+

lemma setup_log_share:
  assumes dev: "picks dev names j" and up: "session_up s x d c q n"
    and said: "server_said E eb (map Verbs (query_log port i x raw active @ create_log port x d c q n @ device_log l names j x) @ V) srv t"
    and log: "verbs_log t = map Verbs (connect_log port i x q raw active srv @
      create_log port x d c q n @ device_log l names j x) @ V"
  shows "wp (share_buffer acc E fd p s buf len eb) (setup_log E eb acc dev port i (fst buf) len V) t"
proof -
  have ok: "wp (ws_close E fd) (\<lambda>_. setup_log E eb acc dev port i (fst buf) len V (Ok (p, s\<lparr>s_mr := Some (m, k)\<rparr>))) t'"
    if "verbs_log t' = Verbs (RegMr d (fst buf) len acc (Some (m, k))) # verbs_log t" "suffix t t'" for t' m k
  proof (rule wp_channel_log [OF channel_local(2)])
    fix a t''
    assume "verbs_log t'' = verbs_log t'" "suffix t' t''"
    then show "setup_log E eb acc dev port i (fst buf) len V (Ok (p, s\<lparr>s_mr := Some (m, k)\<rparr>)) t''"
      by (intro setup_logI [OF dev up server_said_later [OF said]])
        (use that log in \<open>auto intro: suffix_order.trans\<close>)
  qed
  have sent: "wp (send_token E fd a k' st ln) (\<lambda>b. wp (if \<not> b then
        ws_close E fd \<bind> (\<lambda>_. cleanup sp \<bind> (\<lambda>_. ret (Fail e)))
        else ws_close E fd \<bind> (\<lambda>_. ret (Ok (p, s\<lparr>s_mr := Some (m, k)\<rparr>))))
          (setup_log E eb acc dev port i (fst buf) len V)) t'"
    if "verbs_log t' = Verbs (RegMr d (fst buf) len acc (Some (m, k))) # verbs_log t" "suffix t t'"
    for a k' st ln sp e m k t'
    by (rule wp_channel_log [OF channel_local(7)])
      (use that in \<open>auto simp: wp_rules wp_log_fail2 intro!: ok intro: suffix_order.trans\<close>)
  show ?thesis
    using session_res_up(4) [OF up] sent
    by (cases "env_reg_mr E t d (fst buf) len acc")
      (simp_all add: share_buffer_def wp_rules c_reg_mr_def Let_def wp_log_fail2 suffix_ConsI cong: if_cong)
qed

lemma setup_log_setup:
  "wp (setup_with acc E url dev port i rid buf len eb) (setup_log E eb acc dev port i (fst buf) len (verbs_log t)) t"
proof -
  have hs: "wp (rdma_handshake E url dev port i rid eb session_zero) (\<lambda>rs. wp (case rs of (r, s) \<Rightarrow>
      (case r of
         Fail e \<Rightarrow> cleanup (Some (p, s)) \<bind> (\<lambda>_. ret (Fail (err_or_empty eb e)))
       | Ok fd \<Rightarrow> share_buffer acc E fd p s buf len eb))
         (setup_log E eb acc dev port i (fst buf) len (verbs_log t))) t'"
    if "verbs_log t' = verbs_log t" for p t'
    using hs_log_handshake [of E url dev port i rid eb t'] unfolding that
    by (rule wp_mono)
      (auto simp: hs_log_def wp_rules wp_log_fail intro!: setup_log_share [unfolded map_append append_assoc]
        split: result.split)
  show ?thesis
    unfolding setup_with_def wp_bind c_time_def c_getpid_def c_srand_def c_malloc_def Let_def wp_ext_call
    by (auto simp: setup_log_Fail wp_return wp_bind intro!: hs split: option.split)
qed

subsection \<open>The interface of the sessions\<close>

text \<open>
  What the clients rely on: a set-up adds exactly the resources of the session it returns, and
  nothing when it fails; releasing the session takes them away. So a transfer between a set-up
  and the release leaves the resources as they were.
\<close>

locale session_provider =
  fixes establish :: "env \<Rightarrow> string \<Rightarrow> string option \<Rightarrow> u8 \<Rightarrow> u8 \<Rightarrow> string \<Rightarrow> nat \<times> u64 \<Rightarrow> u64 \<Rightarrow>
      nat option \<Rightarrow> (nat \<times> rdma_session) result io"
    and release :: "session_ptr \<Rightarrow> unit io"
    and res :: "nat \<Rightarrow> nat \<times> rdma_session \<Rightarrow> resource list"
    and ready :: "string \<Rightarrow> bool"
  assumes establish_moves: "ready url \<Longrightarrow> holds (KMap len) (fst buf) L \<Longrightarrow>
      moves L (establish E url dev port i rid buf len eb)
        (\<lambda>r. case r of Ok ps \<Rightarrow> res (fst buf) ps @ L | Fail _ \<Rightarrow> L)"
    and release_moves: "moves (res b ps @ L) (release (Some ps)) (\<lambda>_. L)"
begin

lemma transfer_keeps:
  assumes "ready url" "holds (KMap len) (fst buf) L"
    and "\<And>ps. keeps (res (fst buf) ps @ L) body" "\<And>e. keeps L (failed e)"
  shows "keeps L (do {
      r \<leftarrow> establish E url dev port i rid buf len eb;
      case r of
        Fail e \<Rightarrow> failed e
      | Ok ps \<Rightarrow> do { x \<leftarrow> body; release (Some ps); ret x }
    })"
  by (rule moves_bind [OF establish_moves [OF assms(1,2)]])
    (auto intro!: assms(4) moves_bind [OF assms(3)] moves_bind [OF release_moves] moves_returnI
      split: result.split)

lemma setup_destroy_balanced:
  assumes "ready url" "holds (KMap len) (fst buf) L" "owns tr L"
    and "run_state (establish E url dev port i rid buf len eb) tr = (Ok ps, tr')"
    and "run_state (release (Some ps)) tr' = (u, tr'')"
  shows "owns tr'' L"
  using moves_run [OF release_moves _ assms(5)] moves_run [OF establish_moves [OF assms(1,2)] assms(3,4)]
  by simp

end

text \<open>A websocket URL whose upgrade request fits its buffer of 512 bytes, whatever the parts of the URL.\<close>

definition session_ready :: "string \<Rightarrow> bool" where
  "session_ready url \<longleftrightarrow> length url \<le> 362"

definition held :: "nat \<Rightarrow> nat \<times> rdma_session \<Rightarrow> resource list" where
  "held b ps = session_res b (snd ps) @ [Res KMem (fst ps) []]"

lemma moves_setup_held:
  assumes "session_ready url" "holds (KMap len) (fst buf) L"
  shows "moves L (setup_with acc E url dev port i rid buf len eb)
    (\<lambda>r. case r of Ok ps \<Rightarrow> held (fst buf) ps @ L | Fail _ \<Rightarrow> L)"
  by (rule moves_cong [OF moves_setup_with])
    (use assms in \<open>auto simp: session_ready_def held_def split: result.split\<close>)

lemma moves_destroy_held: "moves (held b ps @ L) (rdma_session_destroy (Some ps)) (\<lambda>_. L)"
  using moves_cleanup [of b "snd ps" "fst ps" L] by (simp add: rdma_session_destroy_def held_def)

interpretation receiver: session_provider rdma_recv_setup rdma_session_destroy held session_ready
  by unfold_locales (simp_all only: rdma_recv_setup_def moves_setup_held moves_destroy_held)

interpretation sender: session_provider rdma_send_setup rdma_session_destroy held session_ready
  by unfold_locales (simp_all only: rdma_send_setup_def moves_setup_held moves_destroy_held)

subsection \<open>Properties\<close>

lemma sample_ready: "session_ready ''ws://127.0.0.1:8901/rdma-ctrl''"
  by (simp add: session_ready_def)

text \<open>
  C6: setting up a receiving session, with a URL of at most 362 characters and a live mapping of the given length,
  whatever the network, the server, the device and the allocator do at any point: no undefined behaviour, no use of a
  released object, and on return exactly the device objects of the session are held when it succeeds, and nothing more
  than before when it fails. Besides these only a stray may stay: the list that libibverbs returns when there is no
  device.
\<close>

theorem recv_setup_contract:
  assumes "session_ready url" "holds (KMap len) (fst buf) L"
  shows "moves L (rdma_recv_setup E url dev port i rid buf len eb)
    (\<lambda>r. case r of Ok ps \<Rightarrow> held (fst buf) ps @ L | Fail _ \<Rightarrow> L)"
  by (rule receiver.establish_moves [OF assms])

theorem recv_setup_contract_witness:
  "moves [Res (KMap 64) 0 []]
     (rdma_recv_setup sample_env ''ws://127.0.0.1:8901/rdma-ctrl'' None 1 0 ''rdma-1'' (0, 4096) 64 None)
     (\<lambda>r. case r of Ok ps \<Rightarrow> held (fst (0, 4096 :: u64)) ps @ [Res (KMap 64) 0 []] | Fail _ \<Rightarrow> [Res (KMap 64) 0 []])"
  by (rule recv_setup_contract [OF sample_ready]) simp

text \<open>
  C20: in every environment, a sending session that was set up, with a URL of at most 362 characters and a live mapping
  of the given length, is given back completely by \<^verbatim>\<open>rdma_session_destroy\<close>: the memory region, the queue pair, the
  completion queue, the protection domain, the device and the session structure, in an order that the verbs interface
  allows; and a set-up that fails leaves nothing behind but, when there is no device, the empty device list (a stray).
\<close>

theorem send_setup_destroy_balanced:
  assumes "session_ready url" "holds (KMap len) (fst buf) L"
  shows "keeps L (do {
      r \<leftarrow> rdma_send_setup E url dev port i rid buf len eb;
      case r of Fail e \<Rightarrow> ret () | Ok ps \<Rightarrow> rdma_session_destroy (Some ps)
    })"
  by (rule moves_bind [OF sender.establish_moves [OF assms]])
    (auto intro: moves_returnI sender.release_moves split: result.split)

theorem send_setup_destroy_balanced_witness:
  "keeps [Res (KMap 64) 0 []] (do {
      r \<leftarrow> rdma_send_setup sample_env ''ws://127.0.0.1:8901/rdma-ctrl'' None 1 0 ''rdma-1'' (0, 4096) 64 None;
      case r of Fail e \<Rightarrow> ret () | Ok ps \<Rightarrow> rdma_session_destroy (Some ps)
    })"
  by (rule send_setup_destroy_balanced [OF sample_ready]) simp

text \<open>
  C17: whatever the answers of the device are, a set-up only asks for queue-pair transitions that the
  verbs interface accepts in the state the queue pair is in, and a session that is returned has its
  queue pair ready to send.
\<close>

theorem setup_qp_legal:
  assumes "qp_legal t"
  shows "wp (rdma_send_setup E url dev port i rid buf len eb) (\<lambda>r t'. qp_legal t' \<and>
    (case r of Fail _ \<Rightarrow> True | Ok (p, s) \<Rightarrow> (\<exists>q n. s_qp s = Some (q, n) \<and> qp_at q t' = QPS_RTS))) t"
  unfolding rdma_send_setup_def
  by (rule wp_mono [OF setup_post_setup [OF assms]]) (auto simp: setup_post_def split: result.split)

theorem setup_qp_legal_witness:
  "qp_legal [] \<and> wp (rdma_send_setup sample_env ''ws://h/rdma-ctrl'' None 1 0 ''rdma-1'' (0, 4096) 64 None)
     (\<lambda>r t'. qp_legal t' \<and>
       (case r of Fail _ \<Rightarrow> True | Ok (p, s) \<Rightarrow> (\<exists>q n. s_qp s = Some (q, n) \<and> qp_at q t' = QPS_RTS))) []"
  by (rule conjI, simp, rule setup_qp_legal, simp)

text \<open>
  C18: the verbs calls of a receiving set-up that succeeds, in order and with all their arguments: the
  device of the given name is opened and its list freed, one protection domain, completion queue and
  reliable queue pair are created, the queue pair is brought up with the number, LID, GID, GID index and MTU that the
  server has sent in this set-up, between the queries of the port and the transition to RTR, and the buffer is
  registered for remote read and write. The session holds exactly these objects.
\<close>

theorem recv_setup_verbs:
  "wp (rdma_recv_setup E url dev port i rid buf len eb)
     (setup_log E eb {ACCESS_LOCAL_WRITE, ACCESS_REMOTE_READ, ACCESS_REMOTE_WRITE} dev port i (fst buf) len (verbs_log t)) t"
  unfolding rdma_recv_setup_def by (rule setup_log_setup)

text \<open>
  C19: a sending set-up makes the same verbs calls, but its buffer is registered without remote write:
  the server can only read the data that is uploaded.
\<close>

theorem send_setup_verbs:
  "wp (rdma_send_setup E url dev port i rid buf len eb)
     (setup_log E eb {ACCESS_LOCAL_WRITE, ACCESS_REMOTE_READ} dev port i (fst buf) len (verbs_log t)) t"
  unfolding rdma_send_setup_def by (rule setup_log_setup)

end
