(* ===== verification/GetPut.thy ===== *)
theory GetPut
  imports Session S3Client
begin

text \<open>
  The single-object clients \<^verbatim>\<open>s3rdmaget.c\<close> and \<^verbatim>\<open>s3rdmaput.c\<close>: the command line, the
  websocket URL and the transfers. The lemmas show that every run gives back all the memory,
  descriptors, device objects and handles it took, on every error path, the strays apart.
\<close>

subsection \<open>The command line\<close>

record object_opts =
  o_bucket :: "string option"
  o_object :: "string option"
  o_file :: "string option"
  o_endpoint :: string
  o_rdma_dev :: string
  o_ak :: string
  o_sk :: string

definition object_defaults :: object_opts where
  "object_defaults = \<lparr>o_bucket = None, o_object = None, o_file = None,
     o_endpoint = ''http://127.0.0.1:8901'', o_rdma_dev = ''rxe0'', o_ak = ''admin-ak'',
     o_sk = ''admin-sk''\<rparr>"

text \<open>The option loop over \<^verbatim>\<open>argv[1]\<close> and on; \<^term>\<open>None\<close> is the call of \<^verbatim>\<open>usage\<close>.\<close>

fun object_args :: "string list \<Rightarrow> object_opts \<Rightarrow> object_opts option" where
  "object_args [] ob = Some ob"
| "object_args [a] ob = None"
| "object_args (a # v # rest) ob =
     (if a = ''-bucket'' then object_args rest (ob\<lparr>o_bucket := Some v\<rparr>)
      else if a = ''-object'' then object_args rest (ob\<lparr>o_object := Some v\<rparr>)
      else if a = ''-file'' then object_args rest (ob\<lparr>o_file := Some v\<rparr>)
      else if a = ''-endpoint'' then object_args rest (ob\<lparr>o_endpoint := v\<rparr>)
      else if a = ''-rdma-dev'' then object_args rest (ob\<lparr>o_rdma_dev := v\<rparr>)
      else if a = ''-ak'' then object_args rest (ob\<lparr>o_ak := v\<rparr>)
      else if a = ''-sk'' then object_args rest (ob\<lparr>o_sk := v\<rparr>)
      else None)"

definition usage :: "string \<Rightarrow> int io" where
  "usage prog = do {
     emit (Stderr (''Usage: '' @ prog @ '' -bucket <bucket> -object <key> -file <path> '' @
       ''[-endpoint http://127.0.0.1:8901] [-rdma-dev rxe0] [-ak <ak>] [-sk <sk>]'' @ nl));
     ret 1
   }"

definition ws_url_from_endpoint :: "string \<Rightarrow> nat \<Rightarrow> string" where
  "ws_url_from_endpoint ep outlen =
     (let p = (case strstr ep ''://'' of Some p \<Rightarrow> drop 3 p | None \<Rightarrow> ep)
      in snprintf_str outlen (''ws://'' @ p @ ''/rdma-ctrl''))"

definition config_of :: "object_opts \<Rightarrow> s3_config" where
  "config_of ob = \<lparr>endpoint = o_endpoint ob, region = ''us-east-1'', access_key = o_ak ob,
     secret_key = o_sk ob\<rparr>"

definition err_text :: "string option \<Rightarrow> string" where
  "err_text e = (case e of Some m \<Rightarrow> m | None \<Rightarrow> [])"

definition request_id :: "int \<Rightarrow> string" where
  "request_id pid = snprintf_str 64 (''rdma-'' @ show_int pid)"

text \<open>A failing exit: the message, the unmapping of the buffer, status 1.\<close>

definition fail_unmap :: "nat \<times> u64 \<Rightarrow> u64 \<Rightarrow> string \<Rightarrow> int io" where
  "fail_unmap buf n msg = do { emit (Stderr msg); c_munmap (fst buf) n; ret 1 }"

subsection \<open>Downloading\<close>

text \<open>\<^verbatim>\<open>"0x%08x"\<close>\<close>

definition hex8 :: "u32 \<Rightarrow> string" where
  "hex8 w = ''0x'' @ concat (map hex2 [ucast (drop_bit 24 w), ucast (drop_bit 16 w),
     ucast (drop_bit 8 w), ucast w])"

definition save_object :: "env \<Rightarrow> string \<Rightarrow> nat \<times> u64 \<Rightarrow> u64 \<Rightarrow> int io" where
  "save_object E filePath buf n = do {
     data \<leftarrow> c_load E (fst buf) n;
     emit (Stderr (''Data CRC32: '' @ hex8 (rdma_crc32 E data) @ nl));
     emit (Stderr (''Saving data to '' @ filePath @ ''...'' @ nl));
     f \<leftarrow> c_fopen E filePath ''wb'';
     case f of
       None \<Rightarrow> do {
         e \<leftarrow> c_strerror E;
         fail_unmap buf n (''Failed to open '' @ filePath @ '': '' @ e @ nl)
       }
     | Some f \<Rightarrow> do {
         w \<leftarrow> c_fwrite E f (fst buf) n;
         if w \<noteq> unat n then do {
           e \<leftarrow> c_strerror E;
           emit (Stderr (''Failed to write file: '' @ e @ nl));
           c_fclose f;
           c_munmap (fst buf) n;
           ret 1
         } else do {
           c_fclose f;
           c_munmap (fst buf) n;
           emit (Stderr (''Download complete! File saved to '' @ filePath @ nl));
           ret 0
         }
       }
   }"

definition get_object :: "env \<Rightarrow> object_opts \<Rightarrow> string \<Rightarrow> string \<Rightarrow> string \<Rightarrow> int io" where
  "get_object E ob bucket object filePath = do {
     let cfg = config_of ob;
     emit (Stderr (''Getting object info first...'' @ nl));
     hd_r \<leftarrow> s3_head_object E cfg bucket (Some object) 256;
     case hd_r of
       Fail e \<Rightarrow> do { emit (Stderr (''Failed to get object info: '' @ err_text e @ nl)); ret 1 }
     | Ok fileSize \<Rightarrow> do {
         emit (Stderr (''Object size: '' @ show_int fileSize @ '' bytes'' @ nl));
         pid \<leftarrow> c_getpid E;
         let requestID = request_id pid;
         let n = word_of_int fileSize;
         m \<leftarrow> c_mmap E n;
         case m of
           None \<Rightarrow> do { e \<leftarrow> c_strerror E; emit (Stderr (''Failed to mmap: '' @ e @ nl)); ret 1 }
         | Some buf \<Rightarrow> do {
             let wsURL = ws_url_from_endpoint (o_endpoint ob) 300;
             emit (Stderr (''Initializing RDMA resources and exchanging QP info...'' @ nl));
             sess \<leftarrow> rdma_recv_setup E wsURL (Some (o_rdma_dev ob)) 1 0 requestID buf n (Some 256);
             case sess of
               Fail e \<Rightarrow> fail_unmap buf n (''RDMA setup failed: '' @ err_text e @ nl)
             | Ok ps \<Rightarrow> do {
                 emit (Stderr (''Sending S3 GetObject request...'' @ nl));
                 g \<leftarrow> s3_get_object E cfg bucket (Some object) (Some (''X-RDMA-Request-ID'', requestID)) 256;
                 case g of
                   Fail e \<Rightarrow> do {
                     emit (Stderr (''GetObject error: '' @ err_text e @ nl));
                     rdma_session_destroy (Some ps);
                     c_munmap (fst buf) n;
                     ret 1
                   }
                 | Ok _ \<Rightarrow> do {
                     emit (Stderr (''Successfully requested '' @ filePath @ '' from s3://'' @ bucket @
                       ''/'' @ object @ '' via RDMA (HTTP 200 OK)'' @ nl));
                     rdma_session_destroy (Some ps);
                     save_object E filePath buf n
                   }
               }
           }
       }
   }"

definition s3rdmaget_main :: "env \<Rightarrow> string \<Rightarrow> string list \<Rightarrow> int io" where
  "s3rdmaget_main E prog args =
     (case object_args args object_defaults of
        None \<Rightarrow> usage prog
      | Some ob \<Rightarrow>
          (case (o_bucket ob, o_object ob, o_file ob) of
             (Some bucket, Some object, Some filePath) \<Rightarrow> get_object E ob bucket object filePath
           | _ \<Rightarrow> usage prog))"

subsection \<open>Uploading\<close>

definition put_buffer :: "env \<Rightarrow> object_opts \<Rightarrow> string \<Rightarrow> string \<Rightarrow> string \<Rightarrow> nat \<times> u64 \<Rightarrow> u64 \<Rightarrow> int io" where
  "put_buffer E ob bucket object filePath buf fileSize = do {
     let cfg = config_of ob;
     let map_len = (if fileSize \<noteq> 0 then fileSize else 1);
     pid \<leftarrow> c_getpid E;
     let requestID = request_id pid;
     let wsURL = ws_url_from_endpoint (o_endpoint ob) 300;
     emit (Stderr (''Initializing RDMA resources and exchanging QP info...'' @ nl));
     sess \<leftarrow> rdma_send_setup E wsURL (Some (o_rdma_dev ob)) 1 0 requestID buf fileSize (Some 256);
     case sess of
       Fail e \<Rightarrow> fail_unmap buf map_len (''RDMA setup failed: '' @ err_text e @ nl)
     | Ok ps \<Rightarrow> do {
         emit (Stderr (''Sending S3 PutObject request...'' @ nl));
         p \<leftarrow> s3_put_object E cfg bucket (Some object) (Some (''X-RDMA-Request-ID'', requestID)) 256;
         case p of
           Fail e \<Rightarrow> do {
             emit (Stderr (''PutObject error: '' @ err_text e @ nl));
             rdma_session_destroy (Some ps);
             c_munmap (fst buf) map_len;
             ret 1
           }
         | Ok _ \<Rightarrow> do {
             emit (Stderr (''Successfully uploaded '' @ filePath @ '' to s3://'' @ bucket @ ''/'' @
               object @ '' via RDMA (HTTP 200 OK)'' @ nl));
             rdma_session_destroy (Some ps);
             c_munmap (fst buf) map_len;
             ret 0
           }
       }
   }"

definition put_object :: "env \<Rightarrow> object_opts \<Rightarrow> string \<Rightarrow> string \<Rightarrow> string \<Rightarrow> int io" where
  "put_object E ob bucket object filePath = do {
     f \<leftarrow> c_fopen E filePath ''rb'';
     case f of
       None \<Rightarrow> do {
         e \<leftarrow> c_strerror E;
         emit (Stderr (''Failed to open '' @ filePath @ '': '' @ e @ nl));
         ret 1
       }
     | Some f \<Rightarrow> do {
         st \<leftarrow> c_fstat E f;
         case st of
           None \<Rightarrow> do {
             e \<leftarrow> c_strerror E;
             emit (Stderr (''Failed to stat '' @ filePath @ '': '' @ e @ nl));
             c_fclose f;
             ret 1
           }
         | Some st_size \<Rightarrow> do {
             let fileSize = word_of_int st_size;
             let map_len = (if fileSize \<noteq> 0 then fileSize else 1);
             m \<leftarrow> c_mmap E map_len;
             case m of
               None \<Rightarrow> do {
                 e \<leftarrow> c_strerror E;
                 emit (Stderr (''Failed to mmap: '' @ e @ nl));
                 c_fclose f;
                 ret 1
               }
             | Some buf \<Rightarrow> do {
                 data \<leftarrow> (if fileSize \<noteq> 0 then c_fread E f (fst buf) fileSize else ret []);
                 if length data \<noteq> unat fileSize then do {
                   e \<leftarrow> c_strerror E;
                   emit (Stderr (''Failed to read file: '' @ e @ nl));
                   c_fclose f;
                   c_munmap (fst buf) map_len;
                   ret 1
                 } else do {
                   c_fclose f;
                   put_buffer E ob bucket object filePath buf fileSize
                 }
               }
           }
       }
   }"

definition s3rdmaput_main :: "env \<Rightarrow> string \<Rightarrow> string list \<Rightarrow> int io" where
  "s3rdmaput_main E prog args =
     (case object_args args object_defaults of
        None \<Rightarrow> usage prog
      | Some ob \<Rightarrow>
          (case (o_bucket ob, o_object ob, o_file ob) of
             (Some bucket, Some object, Some filePath) \<Rightarrow> put_object E ob bucket object filePath
           | _ \<Rightarrow> usage prog))"

subsection \<open>Contracts\<close>

lemma url_ready: "session_ready (ws_url_from_endpoint ep 300)"
  by (simp add: session_ready_def ws_url_from_endpoint_def snprintf_def Let_def)

lemma moves_fail_unmap: "moves (Res (KMap n) h [] # L) (fail_unmap (h, a) n msg) (\<lambda>_. L)"
  unfolding fail_unmap_def by (rule moves_wf) (auto intro!: moves_intros)

lemma moves_save_object: "moves (Res (KMap n) h [] # L) (save_object E filePath (h, a) n) (\<lambda>_. L)"
  unfolding save_object_def
  by (rule moves_wf) (auto intro!: moves_intros moves_fail_unmap split: option.split)

lemma keeps_get_object:
  assumes "current_clock E" "complete_headers E"
  shows "keeps L (get_object E ob bucket object filePath)"
proof -
  note req = keeps_s3_requests(1) [OF assms] keeps_s3_requests(2) [OF assms(1)]
  note estab = receiver.establish_moves [OF url_ready]
  show ?thesis
    unfolding get_object_def Let_def
    by (auto intro!: moves_intros moves_bind [OF req(1)] moves_bind [OF req(2)] moves_bind [OF estab]
        moves_bind [OF receiver.release_moves] moves_fail_unmap moves_save_object
        split: option.split result.split)
qed

lemma keeps_put_buffer:
  assumes "current_clock E"
  shows "moves (Res (KMap (if n \<noteq> 0 then n else 1)) h [] # L)
    (put_buffer E ob bucket object filePath (h, a) n) (\<lambda>_. L)"
proof -
  note req = keeps_s3_requests(3) [OF assms]
  note estab = sender.establish_moves [OF url_ready]
  show ?thesis
    unfolding put_buffer_def Let_def
    by (rule moves_wf)
     (auto intro!: moves_intros moves_bind [OF req] moves_bind [OF estab]
        moves_bind [OF sender.release_moves] moves_fail_unmap
        simp: covers_def split: option.split result.split)
qed

lemma keeps_put_object:
  assumes "current_clock E"
  shows "keeps L (put_object E ob bucket object filePath)"
proof -
  note empty = keeps_put_buffer [OF assms, where n = 0, simplified]
  have full: "n \<noteq> 0 \<Longrightarrow>
      moves (Res (KMap n) h [] # L) (put_buffer E ob bucket object filePath (h, a) n) (\<lambda>_. L)" for n h a
    using keeps_put_buffer [OF assms, of n] by simp
  show ?thesis
    unfolding put_object_def Let_def by (auto intro!: moves_intros empty full split: option.split)
qed

lemma keeps_usage: "keeps L (usage prog)"
  unfolding usage_def by (auto intro!: moves_intros)

lemma keeps_s3rdmaget:
  "current_clock E \<Longrightarrow> complete_headers E \<Longrightarrow> keeps L (s3rdmaget_main E prog args)"
  unfolding s3rdmaget_main_def by (auto intro!: keeps_usage keeps_get_object split: option.split)

lemma keeps_s3rdmaput: "current_clock E \<Longrightarrow> keeps L (s3rdmaput_main E prog args)"
  unfolding s3rdmaput_main_def by (auto intro!: keeps_usage keeps_put_object split: option.split)

subsection \<open>Properties\<close>

lemma sample_headers: "complete_headers sample_env"
  by (simp add: complete_headers_def sample_env_def)

text \<open>
  C21: a run of \<^verbatim>\<open>s3rdmaget\<close>, whatever its arguments and whatever the files, the network, the server, the
  device and the allocator do, reaches no undefined behaviour, uses nothing that was released, releases nothing twice,
  and gives back every mapping, file, descriptor, device object, curl handle and memory block before it ends, with two
  exceptions, the strays: the device list that libibverbs returns when there is no device, and a header list to which
  libcurl could not append. Assumed are a clock that shows a year of four digits, and that libcurl passes the header
  callback complete header lines, as it documents.
\<close>

theorem s3rdmaget_leaks_nothing:
  assumes "current_clock E" "complete_headers E"
  shows "wp (s3rdmaget_main E prog args) (\<lambda>_ t. safe t \<and> (\<forall>r \<in> set (live t). stray t (hid r))) []"
  by (rule moves_only_strays [OF keeps_s3rdmaget [OF assms]])

theorem s3rdmaget_leaks_nothing_witness:
  "current_clock sample_env \<and> complete_headers sample_env \<and>
   wp (s3rdmaget_main sample_env ''s3rdmaget'' [''-bucket'', ''b'', ''-object'', ''k'', ''-file'', ''f''])
     (\<lambda>_ t. safe t \<and> (\<forall>r \<in> set (live t). stray t (hid r))) []"
  using sample_clock(1) sample_headers s3rdmaget_leaks_nothing [OF sample_clock(1) sample_headers] by blast

text \<open>
  C22: the same for every run of \<^verbatim>\<open>s3rdmaput\<close>, empty files included. It parses no headers, so only the clock is
  assumed.
\<close>

theorem s3rdmaput_leaks_nothing:
  assumes "current_clock E"
  shows "wp (s3rdmaput_main E prog args) (\<lambda>_ t. safe t \<and> (\<forall>r \<in> set (live t). stray t (hid r))) []"
  by (rule moves_only_strays [OF keeps_s3rdmaput [OF assms]])

theorem s3rdmaput_leaks_nothing_witness:
  "current_clock sample_env \<and>
   wp (s3rdmaput_main sample_env ''s3rdmaput'' [''-bucket'', ''b'', ''-object'', ''k'', ''-file'', ''f''])
     (\<lambda>_ t. safe t \<and> (\<forall>r \<in> set (live t). stray t (hid r))) []"
  using sample_clock(1) s3rdmaput_leaks_nothing [OF sample_clock(1)] by blast

end
