(* ===== verification/History.thy ===== *)
theory History
  imports MpOps GetPut
begin

text \<open>
  What the operations of the clients add to the trace: a session makes calls on the network, the system and the
  device only, and every operation keeps the calls that were made before it. The theories on whole runs read the
  order of events off these lemmas.
\<close>

subsection \<open>What a session does not do\<close>

fun is_session :: "event \<Rightarrow> bool" where
  "is_session (Net _) = True"
| "is_session (Sys _) = True"
| "is_session (Verbs _) = True"
| "is_session (Undefined _) = True"
| "is_session _ = False"

lemma local_session: "emits is_local m \<Longrightarrow> emits is_session m"
  by (erule emits_mono) (auto elim!: is_local.elims)

lemma emits_open_named: "emits is_session (open_named E lst dev i names)"
  by (induction names arbitrary: i) (auto intro!: emits_intros simp: call_defs Let_def)

lemma emits_device:
  "emits is_session (v_open_device E dev)" "emits is_session (v_query_gid E x port j)"
  "emits is_session (v_query_mtu_enum E x port)" "emits is_session (v_qp_to_init E q port)"
  "emits is_session (v_qp_to_rtr E q a b c d e f)" "emits is_session (v_qp_to_rts E q)"
  "emits is_session (cleanup sp)"
  unfolding v_open_device_def v_query_gid_def v_query_mtu_enum_def cleanup_def v_qp_to_init_def
    v_qp_to_rtr_def v_qp_to_rts_def
  by (auto intro!: emits_intros emits_open_named simp: call_defs release_defs Let_def split: option.splits)

lemmas emits_session_steps = channel_local [THEN local_session] emits_device

lemma emits_setup: "emits is_session (setup_with acc E url dev port i rid buf len eb)"
proof -
  have closed: "emits is_session (fail_close E fd e s)" for fd e s
    unfolding fail_close_def by (auto intro!: emits_bind emits_return emits_session_steps)
  have conn: "emits is_session (connect_qp E fd p g x q n eb s)" for fd p g x q n s
    unfolding connect_qp_def
    by (auto intro!: emits_bind emits_return emits_session_steps closed split: option.split result.split)
  have create: "emits is_session (create_qp E fd dev port i eb s)" for fd s
    unfolding create_qp_def Let_def
    by (auto intro!: emits_bind emits_return emits_session_steps closed conn emits_ext_call
        simp: c_alloc_pd_def c_create_cq_def c_create_qp_def Let_def split: option.split)
  have hs: "emits is_session (rdma_handshake E url dev port i rid eb s)" for s
    unfolding rdma_handshake_def
    by (auto intro!: emits_bind emits_return emits_session_steps closed create split: result.split)
  have share: "emits is_session (share_buffer acc E fd p s buf len eb)" for fd p s
    unfolding share_buffer_def Let_def
    by (auto intro!: emits_bind emits_return emits_session_steps emits_ext_call
        simp: c_reg_mr_def Let_def split: option.split)
  show ?thesis
    unfolding setup_with_def
    by (auto intro!: emits_bind emits_return emits_session_steps hs share emits_ext_call
        simp: c_time_def c_getpid_def c_srand_def c_malloc_def Let_def split: option.split result.split)
qed

subsection \<open>Calls stay in the trace\<close>

lemma emits_strerror: "emits P (c_strerror E)" "emits P (c_ferror E f)"
  by (simp_all add: c_strerror_def c_ferror_def emits_State)

abbreviation grows :: "'a io \<Rightarrow> bool" where
  "grows m \<equiv> emits (\<lambda>_. True) m"

lemma grows_mono: "emits P m \<Longrightarrow> grows m"
  by (erule emits_mono) simp

lemma wp_grows:
  assumes "grows m" "\<And>a t'. suffix t t' \<Longrightarrow> set t \<subseteq> set t' \<Longrightarrow> Q a t'"
  shows "wp m Q t"
proof (rule wp_runI)
  fix a t'
  assume "run_state m t = (a, t')"
  with emits_run [OF assms(1)] obtain evs where "t' = evs @ t" by blast
  then show "Q a t'" by (intro assms(2)) (simp_all add: suffix_def)
qed

lemma wp_grows_post:
  assumes "grows m" "wp m P t" "\<And>a t'. P a t' \<Longrightarrow> suffix t t' \<Longrightarrow> Q a t'"
  shows "wp m Q t"
  using wp_conj [OF assms(2) wp_grows [OF assms(1), of t "\<lambda>_ t'. suffix t t'"]] assms(3)
  by (auto elim: wp_mono)

lemma grows_session:
  "grows (rdma_recv_setup E url dev port i rid buf len eb)" "grows (rdma_send_setup E url dev port i rid buf len eb)"
  "grows (rdma_session_destroy sp)"
  unfolding rdma_recv_setup_def rdma_send_setup_def rdma_session_destroy_def
  by (auto intro!: grows_mono [OF emits_setup] grows_mono [OF emits_device(7)])

lemma grows_s3:
  "grows (s3_head_object E cfg bucket key errlen)" "grows (s3_get_object E cfg bucket key extra errlen)"
  "grows (s3_put_object E cfg bucket key extra errlen)"
proof -
  have sign: "grows (sign_request E cfg mth bucket key a b c d)" for mth a b c d
    unfolding sign_request_def c_strftime_def c_hashed_def
    by (auto intro!: emits_return emits_bind emits_ext_call simp: call_defs Let_def split: option.split prod.split)
  have make: "grows (make_curl E cfg bucket key mth)" for mth
    unfolding make_curl_def
    by (auto intro!: emits_return emits_bind emits_ext_call sign simp: c_slist_append_def c_curl_init_def Let_def
        split: prod.split)
  show "grows (s3_head_object E cfg bucket key errlen)" "grows (s3_get_object E cfg bucket key extra errlen)"
    "grows (s3_put_object E cfg bucket key extra errlen)"
    unfolding s3_head_object_def s3_get_object_def s3_put_object_def append_extra_def
    by (auto intro!: emits_return emits_bind emits_ext_call emits_read_headers make simp: c_slist_append_def c_perform_def
        c_slist_free_all_def c_curl_cleanup_def Let_def split: prod.split option.split)
qed

lemma grows_s3_request: "grows (s3_request E cfg mth bucket key query canonical_query body extra response errlen)"
proof -
  have sign: "grows (mp_sign_request E cfg mth bucket key canonical_query cl a b c)" for cl a b c
    unfolding mp_sign_request_def c_strftime_def c_hashed_def
    by (auto intro!: emits_return emits_bind emits_ext_call simp: call_defs Let_def split: option.split prod.split)
  have "grows (write_response E buf ch)" for buf ch
    unfolding write_response_def c_realloc_def Let_def
    by (auto intro!: emits_return emits_bind emits_ext_call split: option.split)
  then have chunks: "grows (deliver_chunks E buf cs)" for buf cs
    by (induction cs arbitrary: buf) (auto intro!: emits_return emits_bind split: prod.split)
  show ?thesis
    unfolding s3_request_def append_optional_def
    by (auto intro!: emits_return emits_bind emits_ext_call sign chunks simp: c_slist_append_def c_curl_init_def
        c_perform_def c_slist_free_all_def c_curl_cleanup_def Let_def split: prod.split option.split)
qed

lemma grows_mp:
  "grows (s3_upload_part_empty E cfg bucket object uid k rid el errlen)"
  "grows (s3_complete_multipart E cfg bucket object uid cps errlen)"
  "grows (s3_create_multipart E cfg bucket object ul errlen)"
  unfolding s3_create_multipart_def s3_upload_part_empty_def s3_complete_multipart_def free_response_def c_text_def
  by (auto intro!: emits_return emits_bind emits_ext_call grows_s3_request simp: c_malloc_def c_free_def Let_def
      split: prod.split option.split)

end
