(* ===== verification/Multipart.thy ===== *)
theory Multipart
  imports History
begin

text \<open>
  The multipart client of \<^verbatim>\<open>s3rdmamultipart.c\<close>: reading a part of the file into a mapping,
  sending it over its own RDMA session, the loop over the parts and the actions of the program.
  The lemmas show that the parts cover the file exactly and in order, what an upload returns,
  that it ends, and that every action gives back all it took.
\<close>

subsection \<open>One part\<close>

definition mmap_part :: "env \<Rightarrow> nat \<Rightarrow> int \<Rightarrow> int \<Rightarrow> nat \<Rightarrow> ((nat \<times> u64) \<times> u64) result io" where
  "mmap_part E f offset len errlen =
     (if len \<le> 0 \<or> sint (word_of_int len :: u64) \<noteq> len then
        ret (Fail (Some (snprintf_str errlen (''invalid part size '' @ show_int len))))
      else do {
        let map_len = word_of_int len;
        m \<leftarrow> c_mmap E map_len;
        case m of
          None \<Rightarrow> do { e \<leftarrow> c_strerror E; ret (Fail (Some (snprintf_str errlen (''mmap failed: '' @ e)))) }
        | Some buf \<Rightarrow> do {
            sk \<leftarrow> c_fseek E f offset;
            if \<not> sk then do {
              e \<leftarrow> c_strerror E;
              c_munmap (fst buf) map_len;
              ret (Fail (Some (snprintf_str errlen (''seek failed: '' @ e))))
            } else do {
              data \<leftarrow> c_fread E f (fst buf) map_len;
              if length data \<noteq> unat map_len then do {
                bad \<leftarrow> c_ferror E f;
                e \<leftarrow> (if bad then c_strerror E else ret ''short read'');
                c_munmap (fst buf) map_len;
                ret (Fail (Some (snprintf_str errlen (''read part failed: '' @ e))))
              } else ret (Ok (buf, map_len))
            }
          }
      })"

definition part_request_id :: "int \<Rightarrow> int \<Rightarrow> int \<Rightarrow> string" where
  "part_request_id pid part_number now = snprintf_str 128
     (''rdma-multipart-'' @ show_int pid @ ''-part-'' @ show_int part_number @ ''-'' @ show_int now)"

text \<open>The slot of the part comes from \<^verbatim>\<open>calloc\<close>, so the copied entity tag is terminated.\<close>

definition upload_one_part_rdma ::
  "env \<Rightarrow> s3_config \<Rightarrow> options \<Rightarrow> string \<Rightarrow> nat \<Rightarrow> string \<Rightarrow> int \<Rightarrow> int \<Rightarrow> int \<Rightarrow> nat \<Rightarrow> completed_part result io" where
  "upload_one_part_rdma E cfg opts bucket f upload_id part_number offset len errlen = do {
     m \<leftarrow> mmap_part E f offset len errlen;
     case m of
       Fail e \<Rightarrow> ret (Fail e)
     | Ok (buf, map_len) \<Rightarrow> do {
         pid \<leftarrow> c_getpid E;
         now \<leftarrow> c_time E;
         let request_id = part_request_id pid part_number now;
         let ws_url = mp_ws_url_from_endpoint (op_endpoint opts) 512;
         sess \<leftarrow> rdma_send_setup E ws_url (Some (op_rdma_dev opts)) 1 0 request_id buf map_len (Some errlen);
         case sess of
           Fail e \<Rightarrow> do { c_munmap (fst buf) map_len; ret (Fail e) }
         | Ok ps \<Rightarrow> do {
             rc \<leftarrow> s3_upload_part_empty E cfg bucket (op_object opts) upload_id part_number request_id 256 errlen;
             rdma_session_destroy (Some ps);
             c_munmap (fst buf) map_len;
             ret (case rc of
                 Fail e \<Rightarrow> Fail e
               | Ok etag \<Rightarrow> Ok \<lparr>cp_number = part_number, cp_etag = Some (take 255 etag), cp_size = Some len\<rparr>)
           }
       }
   }"

subsection \<open>The parts of a file\<close>

definition part_offset :: "int \<Rightarrow> int \<Rightarrow> int" where
  "part_offset part_size n = (n - 1) * part_size"

definition part_length :: "int \<Rightarrow> int \<Rightarrow> int \<Rightarrow> int" where
  "part_length file_size part_size n =
     (let offset = part_offset part_size n
      in if file_size - offset < part_size then file_size - offset else part_size)"

text \<open>
  \<^verbatim>\<open>(int)((file_size + part_size - 1) / part_size)\<close>: the sum is a \<^verbatim>\<open>long long\<close>, whose overflow
  is undefined, and the quotient is narrowed to an \<^verbatim>\<open>int\<close>. Both operands are positive, so the
  division of C is the division of HOL.
\<close>

definition part_count :: "int \<Rightarrow> int \<Rightarrow> int" where
  "part_count file_size part_size = signed_take_bit 31 ((file_size + part_size - 1) div part_size)"

definition check_count :: "int \<Rightarrow> int \<Rightarrow> unit io" where
  "check_count file_size part_size =
     (if 2 ^ 63 \<le> file_size + part_size then emit (Undefined ''signed overflow: part count'') else ret ())"

text \<open>\<^verbatim>\<open>for (part_number = start; part_number <= end; part_number++)\<close>\<close>

function upload_loop ::
  "env \<Rightarrow> s3_config \<Rightarrow> options \<Rightarrow> string \<Rightarrow> nat \<Rightarrow> string \<Rightarrow> int \<Rightarrow> int \<Rightarrow> nat \<Rightarrow> int \<Rightarrow> int \<Rightarrow>
   completed_part list \<Rightarrow> completed_part list result io" where
  "upload_loop E cfg opts bucket f upload_id file_size num_parts errlen end_part part_number slots =
     (if part_number \<le> end_part then do {
        let offset = part_offset (op_part_size opts) part_number;
        let len = part_length file_size (op_part_size opts) part_number;
        emit (Stderr (''Uploading part '' @ show_int part_number @ ''/'' @ show_int num_parts @
          '' via RDMA, size='' @ show_int len @ ''...'' @ nl));
        r \<leftarrow> upload_one_part_rdma E cfg opts bucket f upload_id part_number offset len errlen;
        case r of
          Fail e \<Rightarrow> ret (Fail e)
        | Ok cp \<Rightarrow> do {
            etag \<leftarrow> c_text ''unterminated etag'' (cp_etag cp);
            emit (Stderr (''Uploaded part '' @ show_int part_number @ '', ETag='' @ etag @ nl));
            (if part_number = 2 ^ 31 - 1 then emit (Undefined ''signed overflow: part_number'') else ret ());
            upload_loop E cfg opts bucket f upload_id file_size num_parts errlen end_part (part_number + 1)
              (slots @ [cp])
          }
      } else ret (Ok slots))"
  by pat_completeness auto
termination
  by (relation "measure (\<lambda>(E, cfg, opts, bucket, f, upload_id, file_size, num_parts, errlen, end_part,
      part_number, slots). nat (end_part + 1 - part_number))") auto

declare upload_loop.simps [simp del]

definition upload_parts_rdma ::
  "env \<Rightarrow> s3_config \<Rightarrow> options \<Rightarrow> string \<Rightarrow> string \<Rightarrow> string \<Rightarrow> nat \<Rightarrow> (nat \<times> completed_part list) result io" where
  "upload_parts_rdma E cfg opts bucket file_path upload_id errlen = do {
     f \<leftarrow> c_fopen E file_path ''rb'';
     case f of
       None \<Rightarrow> do {
         e \<leftarrow> c_strerror E;
         ret (Fail (Some (snprintf_str errlen (''open '' @ file_path @ '' failed: '' @ e))))
       }
     | Some f \<Rightarrow> do {
         st \<leftarrow> c_fstat E f;
         case st of
           None \<Rightarrow> do {
             e \<leftarrow> c_strerror E;
             c_fclose f;
             ret (Fail (Some (snprintf_str errlen (''stat '' @ file_path @ '' failed: '' @ e))))
           }
         | Some file_size \<Rightarrow>
             if file_size \<le> 0 then do {
               c_fclose f;
               ret (Fail (Some (snprintf_str errlen ''multipart RDMA upload does not support empty files'')))
             } else do {
               check_count file_size (op_part_size opts);
               let num_parts = part_count file_size (op_part_size opts);
               if op_part opts < 0 \<or> num_parts < op_part opts then do {
                 c_fclose f;
                 ret (Fail (Some (snprintf_str errlen (''part must be between 1 and '' @ show_int num_parts @
                   '', or 0 for all parts''))))
               } else do {
                 let start = (if 0 < op_part opts then op_part opts else 1);
                 let end_part = (if 0 < op_part opts then op_part opts else num_parts);
                 let count = end_part - start + 1;
                 parts \<leftarrow> c_calloc E (word_of_int count) sizeof_part;
                 case parts of
                   None \<Rightarrow> do { c_fclose f; ret (Fail (Some (snprintf_str errlen ''calloc parts failed''))) }
                 | Some parts \<Rightarrow> do {
                     r \<leftarrow> upload_loop E cfg opts bucket f upload_id file_size num_parts errlen end_part start [];
                     case r of
                       Fail e \<Rightarrow> do { c_free parts; c_fclose f; ret (Fail e) }
                     | Ok slots \<Rightarrow> do { c_fclose f; ret (Ok (parts, slots)) }
                   }
               }
             }
       }
   }"

subsection \<open>The program\<close>

definition mp_usage :: "string \<Rightarrow> int io" where
  "mp_usage prog = do {
     emit (Stderr (''Usage: '' @ prog @
       '' -action <all|create|upload|list|list-uploads|complete|abort> -bucket <bucket> [options]'' @ nl @ nl @
       ''Common options:'' @ nl @
       ''  -bucket <bucket>              Bucket name (required)'' @ nl @
       ''  -object <key>                 Object key (required except list-uploads)'' @ nl @
       ''  -file <path>                  Local file (required for all/upload)'' @ nl @
       ''  -uploadid <id>                Upload ID (required for upload/list/complete/abort)'' @ nl @
       ''  -part <n>                     Upload one part; 0 means all parts (default)'' @ nl @
       ''  -partsize <bytes>             Part size, default 5242880'' @ nl @
       ''  -endpoint <url>               S3 endpoint, default http://127.0.0.1:8901'' @ nl @
       ''  -rdma-dev <dev>               RDMA device, default rxe0'' @ nl @
       ''  -ak <access-key>              Access key, default admin-ak'' @ nl @
       ''  -sk <secret-key>              Secret key, default admin-sk'' @ nl @ nl @
       ''List uploads options:'' @ nl @
       ''  -prefix <prefix> -delimiter <delimiter> -max-uploads <n>'' @ nl @
       ''  -key-marker <key> -upload-id-marker <id>'' @ nl));
     ret 1
   }"

definition mp_config_of :: "options \<Rightarrow> s3_config" where
  "mp_config_of opts = \<lparr>endpoint = op_endpoint opts, region = ''us-east-1'', access_key = op_ak opts,
     secret_key = op_sk opts\<rparr>"

definition exit_error :: "string \<Rightarrow> string option \<Rightarrow> int io" where
  "exit_error what e = do { emit (Stderr (what @ '': '' @ err_text e @ nl)); ret 1 }"

definition do_create :: "env \<Rightarrow> options \<Rightarrow> string \<Rightarrow> int io" where
  "do_create E opts bucket = do {
     r \<leftarrow> s3_create_multipart E (mp_config_of opts) bucket (op_object opts) 256 1024;
     case r of
       Fail e \<Rightarrow> exit_error ''CreateMultipartUpload error'' e
     | Ok upload_id \<Rightarrow> do {
         emit (Stdout (''Successfully created multipart upload'' @ nl @ ''Upload ID: '' @ upload_id @ nl));
         ret 0
       }
   }"

fun print_uploaded :: "completed_part list \<Rightarrow> unit io" where
  "print_uploaded [] = ret ()"
| "print_uploaded (cp # cps) = do {
     etag \<leftarrow> c_text ''unterminated etag'' (cp_etag cp);
     emit (Stdout (''Part '' @ show_int (cp_number cp) @ '' ETag: '' @ etag @ nl));
     print_uploaded cps
   }"

definition do_upload :: "env \<Rightarrow> options \<Rightarrow> string \<Rightarrow> string \<Rightarrow> string \<Rightarrow> int io" where
  "do_upload E opts bucket file_path upload_id = do {
     r \<leftarrow> upload_parts_rdma E (mp_config_of opts) opts bucket file_path upload_id 1024;
     case r of
       Fail e \<Rightarrow> exit_error ''UploadPart error'' e
     | Ok (parts, slots) \<Rightarrow> do { print_uploaded slots; c_free parts; ret 0 }
   }"

fun print_listed :: "completed_part list \<Rightarrow> unit io" where
  "print_listed [] = ret ()"
| "print_listed (cp # cps) = do {
     etag \<leftarrow> c_text ''unterminated etag'' (cp_etag cp);
     size_text \<leftarrow> c_text ''indeterminate size'' (map_option show_int (cp_size cp));
     emit (Stdout (''Part '' @ show_int (cp_number cp) @ '': ETag='' @ etag @ '', Size='' @ size_text @
       '' bytes'' @ nl));
     print_listed cps
   }"

definition do_list :: "env \<Rightarrow> options \<Rightarrow> string \<Rightarrow> string \<Rightarrow> int io" where
  "do_list E opts bucket upload_id = do {
     r \<leftarrow> s3_list_parts E (mp_config_of opts) bucket (op_object opts) upload_id 1024;
     case r of
       Fail e \<Rightarrow> exit_error ''ListParts error'' e
     | Ok (parts, slots) \<Rightarrow> do {
         emit (Stdout (''Parts uploaded for upload ID '' @ upload_id @ '':'' @ nl));
         print_listed slots;
         c_free parts;
         ret 0
       }
   }"

definition do_list_uploads :: "env \<Rightarrow> options \<Rightarrow> string \<Rightarrow> int io" where
  "do_list_uploads E opts bucket = do {
     r \<leftarrow> s3_list_uploads E (mp_config_of opts) opts bucket 1024;
     case r of
       Fail e \<Rightarrow> exit_error ''ListMultipartUploads error'' e
     | Ok _ \<Rightarrow> ret 0
   }"

definition do_complete :: "env \<Rightarrow> options \<Rightarrow> string \<Rightarrow> string \<Rightarrow> int io" where
  "do_complete E opts bucket upload_id = do {
     r \<leftarrow> s3_list_parts E (mp_config_of opts) bucket (op_object opts) upload_id 1024;
     case r of
       Fail e \<Rightarrow> exit_error ''ListParts error'' e
     | Ok (parts, slots) \<Rightarrow>
         if slots = [] then do {
           emit (Stderr (''No parts found for upload ID '' @ upload_id @ nl));
           c_free parts;
           ret 1
         } else do {
           c \<leftarrow> s3_complete_multipart E (mp_config_of opts) bucket (op_object opts) upload_id slots 1024;
           case c of
             Fail e \<Rightarrow> do {
               emit (Stderr (''CompleteMultipartUpload error: '' @ err_text e @ nl));
               c_free parts;
               ret 1
             }
           | Ok _ \<Rightarrow> do {
               emit (Stdout (''Successfully completed multipart upload'' @ nl));
               c_free parts;
               ret 0
             }
         }
   }"

definition do_abort :: "env \<Rightarrow> options \<Rightarrow> string \<Rightarrow> string \<Rightarrow> int io" where
  "do_abort E opts bucket upload_id = do {
     r \<leftarrow> s3_abort_multipart E (mp_config_of opts) bucket (op_object opts) upload_id 1024;
     case r of
       Fail e \<Rightarrow> exit_error ''AbortMultipartUpload error'' e
     | Ok _ \<Rightarrow> do { emit (Stdout (''Successfully aborted multipart upload'' @ nl)); ret 0 }
   }"

definition do_all :: "env \<Rightarrow> options \<Rightarrow> string \<Rightarrow> string \<Rightarrow> int io" where
  "do_all E opts bucket file_path = do {
     let cfg = mp_config_of opts;
     r \<leftarrow> s3_create_multipart E cfg bucket (op_object opts) 256 1024;
     case r of
       Fail e \<Rightarrow> exit_error ''CreateMultipartUpload error'' e
     | Ok upload_id \<Rightarrow> do {
         emit (Stdout (''Successfully created multipart upload'' @ nl @ ''Upload ID: '' @ upload_id @ nl));
         u \<leftarrow> upload_parts_rdma E cfg opts bucket file_path upload_id 1024;
         case u of
           Fail e \<Rightarrow> do {
             emit (Stderr (''Upload failed, aborting multipart upload: '' @ err_text e @ nl));
             a \<leftarrow> s3_abort_multipart E cfg bucket (op_object opts) upload_id 1024;
             (case a of
                Fail ae \<Rightarrow> emit (Stderr (''AbortMultipartUpload error: '' @ err_text ae @ nl))
              | Ok _ \<Rightarrow> ret ());
             ret 1
           }
         | Ok (parts, slots) \<Rightarrow> do {
             c \<leftarrow> s3_complete_multipart E cfg bucket (op_object opts) upload_id slots 1024;
             case c of
               Fail e \<Rightarrow> do {
                 emit (Stderr (''CompleteMultipartUpload error: '' @ err_text e @ nl));
                 c_free parts;
                 ret 1
               }
             | Ok _ \<Rightarrow> do {
                 emit (Stdout (''Successfully uploaded '' @ file_path @ '' to s3://'' @ bucket @ ''/'' @
                   (case op_object opts of Some key \<Rightarrow> key | None \<Rightarrow> []) @ '' via RDMA multipart'' @ nl));
                 c_free parts;
                 ret 0
               }
           }
       }
   }"

text \<open>The dispatch on the action; a required option that is missing is a call of \<^verbatim>\<open>usage\<close>.\<close>

definition run_action :: "env \<Rightarrow> string \<Rightarrow> options \<Rightarrow> string \<Rightarrow> int io" where
  "run_action E prog opts bucket =
     (if op_action opts = ''create'' then do_create E opts bucket
      else if op_action opts = ''upload'' then
        (case (op_file_path opts, op_upload_id opts) of
           (Some path, Some uid) \<Rightarrow> do_upload E opts bucket path uid
         | _ \<Rightarrow> mp_usage prog)
      else if op_action opts = ''list'' then
        (case op_upload_id opts of Some uid \<Rightarrow> do_list E opts bucket uid | None \<Rightarrow> mp_usage prog)
      else if op_action opts = ''list-uploads'' then do_list_uploads E opts bucket
      else if op_action opts = ''complete'' then
        (case op_upload_id opts of Some uid \<Rightarrow> do_complete E opts bucket uid | None \<Rightarrow> mp_usage prog)
      else if op_action opts = ''abort'' then
        (case op_upload_id opts of Some uid \<Rightarrow> do_abort E opts bucket uid | None \<Rightarrow> mp_usage prog)
      else if op_action opts = ''all'' then
        (case op_file_path opts of Some path \<Rightarrow> do_all E opts bucket path | None \<Rightarrow> mp_usage prog)
      else mp_usage prog)"

definition s3rdmamultipart_main :: "env \<Rightarrow> string \<Rightarrow> string list \<Rightarrow> int io" where
  "s3rdmamultipart_main E prog args =
     (case parse_args args of
        Inl Usage \<Rightarrow> mp_usage prog
      | Inl Bad_Part_Size \<Rightarrow> do { emit (Stderr (''partsize must be greater than 0'' @ nl)); ret 1 }
      | Inr opts \<Rightarrow>
          (case op_bucket opts of
             None \<Rightarrow> mp_usage prog
           | Some bucket \<Rightarrow> run_action E prog opts bucket))"

subsection \<open>The parts cover the file\<close>

text \<open>Sizes for which neither the sum nor the part number overflows.\<close>

definition count_fits :: "int \<Rightarrow> int \<Rightarrow> bool" where
  "count_fits file_size part_size \<longleftrightarrow> 0 < part_size \<and> file_size + part_size < 2 ^ 63 \<and>
     (file_size + part_size - 1) div part_size < 2 ^ 31 - 1"

lemma part_count_exact:
  assumes "count_fits file_size part_size" "0 < file_size"
  shows "part_count file_size part_size = (file_size + part_size - 1) div part_size"
proof -
  have "0 \<le> (file_size + part_size - 1) div part_size"
    using assms by (intro pos_imp_zdiv_nonneg_iff [THEN iffD2]) (auto simp: count_fits_def)
  then show ?thesis
    using assms by (auto simp: part_count_def count_fits_def intro!: signed_take_bit_int_eq_self)
qed

text \<open>The number of parts is the quotient rounded up.\<close>

lemma part_count_bounds:
  assumes "count_fits file_size part_size" "0 < file_size"
  defines "n \<equiv> part_count file_size part_size"
  shows "1 \<le> n" "(n - 1) * part_size < file_size" "file_size \<le> n * part_size" "n < 2 ^ 31 - 1"
proof -
  have p: "0 < part_size" using assms by (simp add: count_fits_def)
  have n: "n = (file_size + part_size - 1) div part_size"
    unfolding n_def by (rule part_count_exact [OF assms(1,2)])
  have m: "n * part_size + (file_size + part_size - 1) mod part_size = file_size + part_size - 1"
    unfolding n by simp
  have r: "0 \<le> (file_size + part_size - 1) mod part_size" "(file_size + part_size - 1) mod part_size < part_size"
    using p by simp_all
  show "(n - 1) * part_size < file_size" using m r by (simp add: left_diff_distrib)
  show le: "file_size \<le> n * part_size" using m r by simp
  show "n < 2 ^ 31 - 1" using assms(1) n by (simp add: count_fits_def)
  show "1 \<le> n"
  proof (rule ccontr)
    assume "\<not> 1 \<le> n"
    then have "n * part_size \<le> 0" using p by (simp add: mult_nonpos_nonneg)
    with le assms(2) show False by simp
  qed
qed

lemma part_in_file:
  assumes "count_fits file_size part_size" "0 < file_size" "1 \<le> k" "k \<le> part_count file_size part_size"
  shows "0 \<le> part_offset part_size k" "0 < part_length file_size part_size k"
    "part_length file_size part_size k \<le> part_size"
    "part_offset part_size k + part_length file_size part_size k \<le> file_size"
proof -
  have p: "0 < part_size" using assms by (simp add: count_fits_def)
  have "(k - 1) * part_size \<le> (part_count file_size part_size - 1) * part_size"
    using assms(4) p by (intro mult_right_mono) auto
  also have "\<dots> < file_size" by (rule part_count_bounds(2) [OF assms(1,2)])
  finally have lt: "(k - 1) * part_size < file_size" .
  show "0 \<le> part_offset part_size k" using assms(3) p by (simp add: part_offset_def)
  show "0 < part_length file_size part_size k" "part_length file_size part_size k \<le> part_size"
    "part_offset part_size k + part_length file_size part_size k \<le> file_size"
    using lt p by (auto simp: part_length_def part_offset_def Let_def)
qed

text \<open>The bytes of a part, and of the parts from \<open>i\<close> to \<open>j\<close> in order.\<close>

definition part_bytes :: "byte list \<Rightarrow> int \<Rightarrow> int \<Rightarrow> byte list" where
  "part_bytes file part_size k = take (nat (part_length (int (length file)) part_size k))
     (drop (nat (part_offset part_size k)) file)"

lemma parts_prefix:
  assumes "count_fits (int (length file)) part_size" "file \<noteq> []"
    and "int k \<le> part_count (int (length file)) part_size"
  shows "concat (map (part_bytes file part_size) [1 .. int k]) = take (k * nat part_size) file"
  using assms(3)
proof (induction k)
  case 0
  then show ?case by simp
next
  case (Suc k)
  let ?n = "int (length file)"
  have p: "0 < part_size" using assms by (simp add: count_fits_def)
  have up: "[1 .. int (Suc k)] = [1 .. int k] @ [int (Suc k)]"
    by (simp add: upto_rec2)
  have off: "nat (part_offset part_size (int (Suc k))) = k * nat part_size"
    by (simp add: part_offset_def nat_mult_distrib)
  have "part_bytes file part_size (int (Suc k)) = take (nat part_size) (drop (k * nat part_size) file)"
  proof (cases "?n - int k * part_size < part_size")
    case True
    then have len: "part_length ?n part_size (int (Suc k)) = ?n - int k * part_size"
      by (simp add: part_length_def part_offset_def)
    have "nat (?n - int k * part_size) = length file - k * nat part_size"
      using p by (simp add: nat_diff_distrib' nat_mult_distrib)
    moreover have "int (length file) < int (k * nat part_size + nat part_size)" using True p by simp
    then have "length file - k * nat part_size \<le> nat part_size" by (simp only: of_nat_less_iff)
    ultimately show ?thesis by (simp add: part_bytes_def off len del: of_nat_Suc)
  next
    case False
    then have "part_length ?n part_size (int (Suc k)) = part_size"
      by (simp add: part_length_def part_offset_def)
    then show ?thesis by (simp add: part_bytes_def off del: of_nat_Suc)
  qed
  with Suc show ?case
    by (simp add: up take_add [symmetric] add.commute del: of_nat_Suc)
qed

lemma parts_cover:
  assumes "count_fits (int (length file)) part_size" "file \<noteq> []"
  shows "concat (map (part_bytes file part_size) [1 .. part_count (int (length file)) part_size]) = file"
proof -
  let ?c = "part_count (int (length file)) part_size"
  have c: "1 \<le> ?c" "int (length file) \<le> ?c * part_size"
    using part_count_bounds [OF assms(1)] assms(2) by simp_all
  have "concat (map (part_bytes file part_size) [1 .. int (nat ?c)]) = take (nat ?c * nat part_size) file"
    using c by (intro parts_prefix [OF assms]) simp
  moreover have "length file \<le> nat ?c * nat part_size"
    using c by (simp add: nat_mult_distrib [symmetric] nat_le_iff le_nat_iff)
  ultimately show ?thesis using c by simp
qed

subsection \<open>What an upload returns\<close>

definition part_tag :: "int \<Rightarrow> string" where
  "part_tag k = dq @ ''part-'' @ show_int k @ dq"

definition uploaded_part :: "int \<Rightarrow> int \<Rightarrow> int \<Rightarrow> completed_part" where
  "uploaded_part file_size part_size k = \<lparr>cp_number = k, cp_etag = Some (part_tag k),
     cp_size = Some (part_length file_size part_size k)\<rparr>"

lemma length_part_number: "\<bar>k\<bar> < 2 ^ 31 \<Longrightarrow> length (show_int k) \<le> 11"
  using length_show_int [of k 10] by simp

lemma length_part_tag: "\<bar>k\<bar> < 2 ^ 31 \<Longrightarrow> length (part_tag k) \<le> 18"
  using length_part_number by (simp add: part_tag_def)

lemma part_tag_fits:
  "\<bar>k\<bar> < 2 ^ 31 \<Longrightarrow> snprintf_str 256 (dq @ ''part-'' @ show_int k @ dq) = part_tag k"
  unfolding part_tag_def [symmetric] by (subst snprintf_fits) (use length_part_tag [of k] in auto)

lemma s3_upload_part_empty_law:
  assumes "\<bar>k\<bar> < 2 ^ 31"
  shows "yields (\<lambda>r. \<forall>tag. r = Ok tag \<longrightarrow> tag = part_tag k)
    (s3_upload_part_empty E cfg bucket object upload_id k rid 256 errlen)"
  unfolding s3_upload_part_empty_def Let_def part_tag_fits [OF assms]
  by (auto intro!: yields_bindI yields_returnI split: result.splits)

lemma upload_one_part_law:
  assumes "\<bar>k\<bar> < 2 ^ 31"
  shows "yields (\<lambda>r. \<forall>cp. r = Ok cp \<longrightarrow>
      cp = \<lparr>cp_number = k, cp_etag = Some (part_tag k), cp_size = Some len\<rparr>)
    (upload_one_part_rdma E cfg opts bucket f upload_id k offset len errlen)"
proof -
  have sent: "yields (\<lambda>r. \<forall>cp. r = Ok cp \<longrightarrow>
        cp = \<lparr>cp_number = k, cp_etag = Some (part_tag k), cp_size = Some len\<rparr>)
      (do { rc \<leftarrow> s3_upload_part_empty E cfg bucket (op_object opts) upload_id k rid 256 errlen;
            rdma_session_destroy (Some ps);
            c_munmap b n;
            ret (case rc of
                Fail e \<Rightarrow> Fail e
              | Ok etag \<Rightarrow> Ok \<lparr>cp_number = k, cp_etag = Some (take 255 etag), cp_size = Some len\<rparr>) })"
    for rid ps b n
    by (rule yields_bind_post [OF s3_upload_part_empty_law [OF assms]], rule yields_bindI, rule yields_bindI,
        rule yields_returnI) (use length_part_tag [OF assms] in \<open>auto split: result.splits\<close>)
  have failed: "yields P (do { c_munmap b n; ret (Fail e) })" if "P (Fail e)"
    for P :: "completed_part result \<Rightarrow> bool" and b n e
    by (rule yields_bindI, rule yields_returnI, rule that)
  show ?thesis
    unfolding upload_one_part_rdma_def Let_def
    apply (rule yields_bindI)
    apply (split result.split, intro conjI allI impI)
     apply (split prod.split, intro allI impI)
     apply (rule yields_bindI, rule yields_bindI, rule yields_bindI)
     apply (auto intro!: sent failed yields_returnI split: result.split)
    done
qed

lemma upload_loop_law:
  "\<bar>k\<bar> < 2 ^ 31 \<Longrightarrow> end_part < 2 ^ 31 \<Longrightarrow>
   yields (\<lambda>r. \<forall>cps. r = Ok cps \<longrightarrow> cps = slots @ map (uploaded_part file_size (op_part_size opts)) [k .. end_part])
     (upload_loop E cfg opts bucket f upload_id file_size num_parts errlen end_part k slots)"
proof (induction E cfg opts bucket f upload_id file_size num_parts errlen end_part k slots rule: upload_loop.induct)
  case (1 E cfg opts bucket f upload_id file_size num_parts errlen end_part k slots)
  let ?post = "\<lambda>r. \<forall>cps. r = Ok cps \<longrightarrow> cps = slots @ map (uploaded_part file_size (op_part_size opts)) [k .. end_part]"
  let ?up = "uploaded_part file_size (op_part_size opts) k"
  show ?case
  proof (cases "k \<le> end_part")
    case True
    have rest: "yields ?post (do {
        etag \<leftarrow> c_text ''unterminated etag'' (cp_etag ?up);
        emit (Stderr (msg etag));
        (if k = 2 ^ 31 - 1 then emit (Undefined what) else ret ());
        upload_loop E cfg opts bucket f upload_id file_size num_parts errlen end_part (k + 1) (slots @ [?up]) })"
      for msg what
    proof (cases "k = 2 ^ 31 - 1")
      case False
      have "yields ?post (upload_loop E cfg opts bucket f upload_id file_size num_parts errlen end_part (k + 1) (slots @ [?up]))"
        using "1.IH" [OF True] "1.prems" False True by (simp add: upto_rec1 [of k])
      then show ?thesis by (intro yields_bindI)
    next
      case last: True
      then have "end_part < k + 1" using "1.prems" by simp
      then have "yields ?post (upload_loop E cfg opts bucket f upload_id file_size num_parts errlen end_part (k + 1) (slots @ [?up]))"
        using True by (subst upload_loop.simps) (simp add: yields_returnI upto_rec1 [of k])
      then show ?thesis by (intro yields_bindI)
    qed
    show ?thesis
      apply (subst upload_loop.simps)
      apply (simp only: True if_True Let_def)
      apply (rule yields_bindI)
      apply (rule yields_bind_post [OF upload_one_part_law [OF "1.prems"(1)]])
      apply (split result.split, intro conjI allI impI)
      subgoal for u r cp
        using rest by (simp add: uploaded_part_def)
      apply (simp add: yields_returnI)
      done
  next
    case False
    then show ?thesis by (subst upload_loop.simps) (simp add: yields_returnI)
  qed
qed

subsection \<open>Contracts\<close>

text \<open>
  The conditions for an upload: the websocket URL fits the request buffer, and the sizes the file
  can have keep the part arithmetic in range.
\<close>

definition upload_env :: "env \<Rightarrow> options \<Rightarrow> bool" where
  "upload_env E opts \<longleftrightarrow> length (op_endpoint opts) \<le> 340 \<and>
     (\<forall>tr f n. env_fstat E tr f = Some n \<longrightarrow> count_fits n (op_part_size opts))"

lemma length_mp_ws_url: "length (mp_ws_url_from_endpoint ep n) \<le> length ep + 16"
proof -
  have "length p \<le> length ep" if "strstr ep ''://'' = Some p" for p
    using strstr_length [OF that] by simp
  then show ?thesis
    by (auto simp: mp_ws_url_from_endpoint_def snprintf_def split: option.split intro: le_trans)
qed

lemma upload_env_ready: "upload_env E opts \<Longrightarrow> session_ready (mp_ws_url_from_endpoint (op_endpoint opts) 512)"
  using length_mp_ws_url [of "op_endpoint opts" 512] by (simp add: upload_env_def session_ready_def)

lemma moves_mmap_part:
  assumes "holds KFile f L"
  shows "moves L (mmap_part E f offset len errlen)
    (\<lambda>r. (case r of Ok (b, n) \<Rightarrow> [Res (KMap n) (fst b) []] | Fail _ \<Rightarrow> []) @ L)"
  unfolding mmap_part_def Let_def
  using assms by (auto intro!: moves_intros split: option.split)

lemma keeps_upload_one_part:
  assumes "mp_env E" "upload_env E opts" "holds KFile f L"
  shows "keeps L (upload_one_part_rdma E cfg opts bucket f upload_id k offset len errlen)"
proof -
  note estab = sender.establish_moves [OF upload_env_ready [OF assms(2)]]
  have free: "moves (Res (KMap n) b [] # L) (do { c_munmap b n; ret x }) (\<lambda>_. L)"
    for b n and x :: "completed_part result"
    by (rule moves_wf) (auto intro!: moves_intros)
  have send: "moves (Res (KMap n) b [] # L) (do {
        sess \<leftarrow> rdma_send_setup E (mp_ws_url_from_endpoint (op_endpoint opts) 512) dev 1 0 rid (b, addr) n (Some errlen);
        case sess of
          Fail e \<Rightarrow> do { c_munmap b n; ret (Fail e) }
        | Ok ps \<Rightarrow> do {
            rc \<leftarrow> s3_upload_part_empty E cfg bucket (op_object opts) upload_id k rid 256 errlen;
            rdma_session_destroy (Some ps);
            c_munmap b n;
            ret (g rc)
          } }) (\<lambda>_. L)" for b addr n dev rid and g :: "string result \<Rightarrow> completed_part result"
    by (rule moves_bind [OF estab])
      (auto intro!: free moves_bind [OF keeps_s3_upload_part_empty [OF assms(1)]] moves_bind [OF sender.release_moves]
        split: result.split)
  show ?thesis
    unfolding upload_one_part_rdma_def Let_def
    by (rule moves_bind [OF moves_mmap_part [OF assms(3)]])
      (auto intro!: moves_bind [OF keeps_getpid] moves_bind [OF keeps_time] send moves_returnI split: result.split)
qed

lemma keeps_upload_loop:
  assumes "mp_env E" "upload_env E opts" "holds KFile f L"
  shows "\<bar>k\<bar> < 2 ^ 31 \<Longrightarrow> end_part < 2 ^ 31 - 1 \<Longrightarrow>
    keeps L (upload_loop E cfg opts bucket f upload_id file_size num_parts errlen end_part k slots)"
proof (induction "nat (end_part + 1 - k)" arbitrary: k slots rule: less_induct)
  case less
  show ?case
  proof (cases "k \<le> end_part")
    case True
    then have "k \<noteq> 2 ^ 31 - 1" using less.prems by simp
    have next_part: "keeps L (upload_loop E cfg opts bucket f upload_id file_size num_parts errlen end_part (k + 1) sl)" for sl
      using less.prems True by (intro less.hyps) auto
    show ?thesis
      apply (subst upload_loop.simps)
      apply (simp only: True if_True Let_def \<open>k \<noteq> 2 ^ 31 - 1\<close> if_False bind_left_identity)
      apply (rule moves_bind [OF keeps_stderr])
      apply (rule moves_bind_post [OF keeps_upload_one_part [OF assms] yields_wp [OF upload_one_part_law [OF less.prems(1)]]])
      apply (auto simp: c_text_def intro!: moves_returnI moves_bind [OF keeps_stderr] next_part split: result.split)
      done
  next
    case False
    then show ?thesis by (subst upload_loop.simps) (simp add: moves_returnI)
  qed
qed

lemma fstat_fits:
  "upload_env E opts \<Longrightarrow> wp (c_fstat E f) (\<lambda>r _. \<forall>n. r = Some n \<longrightarrow> count_fits n (op_part_size opts)) tr"
  by (simp add: c_fstat_def Let_def wp_rules upload_env_def)

abbreviation block_res :: "(nat \<times> 'a) result \<Rightarrow> resource list" where
  "block_res r \<equiv> (case r of Ok ps \<Rightarrow> [Res KMem (fst ps) []] | Fail _ \<Rightarrow> [])"

lemma part_choice:
  assumes "count_fits n ps" "0 < n" "0 \<le> part" "part \<le> part_count n ps"
  defines "start \<equiv> (if 0 < part then part else 1)" and "end_part \<equiv> (if 0 < part then part else part_count n ps)"
  shows "1 \<le> start" "start \<le> end_part" "end_part \<le> part_count n ps" "end_part < 2 ^ 31 - 1" "\<bar>start\<bar> < 2 ^ 31"
  using assms part_count_bounds [OF assms(1,2)] by auto

lemma moves_upload_parts:
  assumes "mp_env E" "upload_env E opts"
  shows "moves L (upload_parts_rdma E cfg opts bucket file_path upload_id errlen) (\<lambda>r. block_res r @ L)"
proof -
  have send: "moves (Res KMem h [] # Res KFile f [] # L) (do {
        r \<leftarrow> upload_loop E cfg opts bucket f upload_id n num errlen end_part k [];
        case r of
          Fail e \<Rightarrow> do { c_free h; c_fclose f; ret (Fail e) }
        | Ok slots \<Rightarrow> do { c_fclose f; ret (Ok (h, slots)) }
      }) (\<lambda>r. block_res r @ L)" if "\<bar>k\<bar> < 2 ^ 31" "end_part < 2 ^ 31 - 1" for h f n num k end_part
  proof -
    have "keeps (Res KMem h [] # Res KFile f [] # L)
        (upload_loop E cfg opts bucket f upload_id n num errlen end_part k [])"
      by (rule keeps_upload_loop [OF assms _ that]) simp
    then show ?thesis
      by (rule moves_bindI) (auto intro!: moves_intros split: result.split)
  qed
  have closed: "moves (Res KFile f [] # L) (do { c_fclose f; ret (Fail e) }) (\<lambda>r. block_res r @ L)" for f e
    by (rule moves_wf) (auto intro!: moves_intros)
  have late: "moves (Res KFile f [] # L) (do { e \<leftarrow> c_strerror E; c_fclose f; ret (Fail (g e)) })
      (\<lambda>r. block_res r @ L)" for f g
    by (rule moves_bind [OF keeps_strerror]) (rule closed)
  have fstat: "keeps (Res KFile f [] # L) (c_fstat E f)" for f by (rule keeps_fstat) simp
  have sized: "moves (Res KFile f [] # L) (do {
        parts \<leftarrow> c_calloc E c m;
        case parts of
          None \<Rightarrow> do { c_fclose f; ret (Fail e) }
        | Some parts \<Rightarrow> do {
            r \<leftarrow> upload_loop E cfg opts bucket f upload_id n (part_count n (op_part_size opts)) errlen
              (if 0 < op_part opts then op_part opts else part_count n (op_part_size opts))
              (if 0 < op_part opts then op_part opts else 1) [];
            case r of
              Fail e \<Rightarrow> do { c_free parts; c_fclose f; ret (Fail e) }
            | Ok slots \<Rightarrow> do { c_fclose f; ret (Ok (parts, slots)) }
          }
      }) (\<lambda>r. block_res r @ L)"
    if "count_fits n (op_part_size opts)" "0 < n" "0 \<le> op_part opts" "op_part opts \<le> part_count n (op_part_size opts)"
    for f n c m e
    using part_choice [OF that]
    by (auto intro!: moves_bind [OF moves_calloc] send closed split: option.split simp del: abs_le_iff)
  have checked: "count_fits n (op_part_size opts) \<Longrightarrow> \<not> 2 ^ 63 \<le> n + op_part_size opts" for n
    by (simp add: count_fits_def)
  show ?thesis
    unfolding upload_parts_rdma_def Let_def check_count_def
    apply (rule moves_bind [OF moves_fopen])
    apply (split option.split, intro conjI allI impI)
     apply (simp add: moves_bind [OF keeps_strerror] moves_returnI)
    apply (simp only: option.case)
    apply (rule moves_bind_post [OF fstat fstat_fits [OF assms(2)]])
    apply (split option.split, intro conjI allI impI)
     apply (rule late)
    subgoal for fo f st n
      apply (cases "n \<le> 0")
       apply (simp only: if_True closed)
      apply (cases "op_part opts < 0 \<or> part_count n (op_part_size opts) < op_part opts")
       apply (simp only: if_True if_False checked [of n] bind_left_identity closed option.inject simp_thms)
      apply (simp only: if_False checked [of n] bind_left_identity option.inject simp_thms)
      by (rule sized) auto
    done
qed

text \<open>The parts that an upload has sent: one, or all of them.\<close>

definition sent_numbers :: "int \<Rightarrow> options \<Rightarrow> int list" where
  "sent_numbers n opts =
     (if 0 < op_part opts then [op_part opts] else [1 .. part_count n (op_part_size opts)])"

definition sent_parts :: "int \<Rightarrow> options \<Rightarrow> completed_part list" where
  "sent_parts n opts = map (uploaded_part n (op_part_size opts)) (sent_numbers n opts)"

lemma part_count_int: "part_count n ps < 2 ^ 31"
  using signed_take_bit_int_less_exp [of 31 "(n + ps - 1) div ps"] by (simp add: part_count_def)

text \<open>
  An upload up to its loop: it has opened the file, read its size, chosen the parts and allocated the slots; on every
  other path it fails.
\<close>

abbreviation first_part :: "options \<Rightarrow> int" where
  "first_part opts \<equiv> (if 0 < op_part opts then op_part opts else 1)"

abbreviation last_part :: "options \<Rightarrow> int \<Rightarrow> int" where
  "last_part opts n \<equiv> (if 0 < op_part opts then op_part opts else part_count n (op_part_size opts))"

definition started :: "env \<Rightarrow> options \<Rightarrow> string \<Rightarrow> trace \<Rightarrow> int \<Rightarrow> nat \<Rightarrow> trace \<Rightarrow> bool" where
  "started E opts path t n h t' \<longleftrightarrow> 0 < n \<and> 0 \<le> op_part opts \<and> op_part opts \<le> part_count n (op_part_size opts) \<and>
     (\<exists>tr f. env_fstat E tr f = Some n) \<and>
     (\<exists>m. t' = Sys (Malloc m (Some h)) #
        (if 2 ^ 63 \<le> n + op_part_size opts then [Undefined ''signed overflow: part count''] else []) @
        File (Fstat (length t) (Some n)) # File (Fopen path ''rb'' (Some (length t))) # t)"

lemma wp_upload_parts_rdma:
  assumes "\<And>n h t1. started E opts path t n h t1 \<Longrightarrow>
      wp (upload_loop E cfg opts bucket (length t) uid n (part_count n (op_part_size opts)) errlen (last_part opts n) (first_part opts) [])
        (\<lambda>r t2. \<forall>cps. r = Ok cps \<longrightarrow> Q (Ok (h, cps)) (File (Fclose (length t)) # t2)) t1"
    and "\<And>e t'. Q (Fail e) t'"
  shows "wp (upload_parts_rdma E cfg opts bucket path uid errlen) Q t"
proof -
  have fail: "yields (\<lambda>r. \<exists>e. r = Fail e) m \<Longrightarrow> wp m Q t'" for m t'
    by (rule wp_mono [OF yields_wp], assumption) (auto intro: assms(2))
  have check: "wp (check_count n ps) R t' =
      R () ((if 2 ^ 63 \<le> n + ps then [Undefined ''signed overflow: part count''] else []) @ t')" for n ps R t'
    by (simp add: check_count_def wp_rules)
  have handle: "handle_if b t = Some f \<longleftrightarrow> b \<and> f = length t" for b f by auto
  show ?thesis
    unfolding upload_parts_rdma_def wp_bind c_fopen_def wp_ext_call fst_conv snd_conv Let_def
    apply (split option.split, intro conjI allI impI)
     apply (rule fail, auto intro!: yields_bindI yields_returnI)[1]
    apply (clarsimp simp only: handle wp_bind c_fstat_def wp_ext_call fst_conv snd_conv Let_def)
    apply (split option.split, intro conjI allI impI)
     apply (rule fail, auto intro!: yields_bindI yields_returnI)[1]
    apply (split if_split, intro conjI impI)
     apply (rule fail, auto intro!: yields_bindI yields_returnI)[1]
    apply (simp only: wp_bind check)
    apply (split if_split, intro conjI impI)
     apply (rule fail, auto intro!: yields_bindI yields_returnI)[1]
    apply (simp only: wp_bind c_calloc_def wp_ext_call fst_conv snd_conv Let_def)
    apply (split option.split, intro conjI allI impI)
     apply (rule fail, auto intro!: yields_bindI yields_returnI)[1]
    apply (simp only: wp_bind)
    apply (rule wp_mono [OF assms(1)])
     apply (auto simp: started_def)[1]
    apply (split result.split, auto simp: wp_rules c_free_def c_fclose_def assms(2))
    done
qed

lemma sent_range:
  assumes "0 \<le> op_part opts" "op_part opts \<le> part_count n (op_part_size opts)"
  shows "\<bar>first_part opts\<bar> < 2 ^ 31" "last_part opts n < 2 ^ 31"
  using assms part_count_int [of n "op_part_size opts"] by (auto simp del: abs_le_iff)

lemma sent_parts_loop:
  "[first_part opts .. last_part opts n] = sent_numbers n opts"
  "map (uploaded_part n (op_part_size opts)) [first_part opts .. last_part opts n] = sent_parts n opts"
  by (simp_all add: sent_parts_def sent_numbers_def)

lemma upload_parts_law:
  "yields (\<lambda>r. \<forall>h cps. r = Ok (h, cps) \<longrightarrow>
     (\<exists>n tr f. env_fstat E tr f = Some n \<and> 0 < n \<and> 0 \<le> op_part opts \<and>
        op_part opts \<le> part_count n (op_part_size opts) \<and> cps = sent_parts n opts))
   (upload_parts_rdma E cfg opts bucket file_path upload_id errlen)"
  unfolding yields_def
proof (intro allI wp_upload_parts_rdma)
  fix t n h t1
  assume "started E opts file_path t n h t1"
  then have n: "\<exists>tr f. env_fstat E tr f = Some n" "0 < n" "0 \<le> op_part opts" "op_part opts \<le> part_count n (op_part_size opts)"
    by (auto simp: started_def)
  note loop = upload_loop_law [OF sent_range [OF n(3,4)], where slots = "[]" and file_size = n and opts = opts, unfolded append_Nil sent_parts_loop(2)]
  show "wp (upload_loop E cfg opts bucket (length t) upload_id n (part_count n (op_part_size opts)) errlen (last_part opts n)
      (first_part opts) []) (\<lambda>r t2. \<forall>cps. r = Ok cps \<longrightarrow> (\<forall>h' cps'. Ok (h, cps) = Ok (h', cps') \<longrightarrow>
        (\<exists>n tr f. env_fstat E tr f = Some n \<and> 0 < n \<and> 0 \<le> op_part opts \<and>
          op_part opts \<le> part_count n (op_part_size opts) \<and> cps' = sent_parts n opts))) t1"
    by (rule wp_mono [OF yields_wp [OF loop]]) (use n in \<open>intro allI impI exI [of _ n], simp\<close>)
qed simp

text \<open>The file that an upload has opened first of all, and the size it was found to have.\<close>

definition sized :: "string \<Rightarrow> int \<Rightarrow> trace \<Rightarrow> trace \<Rightarrow> bool" where
  "sized path n t t' \<longleftrightarrow>
     suffix (File (Fstat (length t) (Some n)) # File (Fopen path ''rb'' (Some (length t))) # t) t'"

lemma started_sized: "started E opts path t n h t' \<Longrightarrow> sized path n t t'"
  by (auto simp: started_def sized_def suffix_Cons)

lemma sized_later: "sized path n t t' \<Longrightarrow> suffix t' t'' \<Longrightarrow> sized path n t t''"
  unfolding sized_def by (rule suffix_order.trans)

lemma grows_upload:
  "grows (upload_one_part_rdma E cfg opts bucket f upload_id k offset len errlen)"
  "grows (upload_loop E cfg opts bucket f upload_id n num errlen end_part k slots)"
proof -
  have mmap: "grows (mmap_part E f offset len errlen)" for offset len
    unfolding mmap_part_def Let_def
    by (auto intro!: emits_bind emits_return emits_ext_call emits_strerror simp: call_defs release_defs Let_def split: option.split)
  have one: "grows (upload_one_part_rdma E cfg opts bucket f upload_id k offset len errlen)" for k offset len
    unfolding upload_one_part_rdma_def
    by (auto intro!: emits_bind emits_return emits_ext_call mmap grows_session grows_mp
        simp: call_defs release_defs Let_def split: result.split)
  then show "grows (upload_one_part_rdma E cfg opts bucket f upload_id k offset len errlen)" .
  show "grows (upload_loop E cfg opts bucket f upload_id n num errlen end_part k slots)"
  proof (induction "nat (end_part + 1 - k)" arbitrary: k slots rule: less_induct)
    case less
    have steps: "grows (c_text w x)" "grows (if b then emit e else ret ())" for w x b e
      unfolding c_text_def by (auto intro!: emits_return emits_bind emits_ext_call split: option.split)
    show ?case
    proof (cases "k \<le> end_part")
      case True
      then have more: "grows (upload_loop E cfg opts bucket f upload_id n num errlen end_part (k + 1) sl)" for sl
        by (intro less) simp
      show ?thesis
        by (subst upload_loop.simps, simp only: True if_True Let_def)
          (intro emits_bind emits_ext_call TrueI one, split result.split,
            intro conjI allI impI emits_bind emits_ext_call TrueI emits_return steps more)
    next
      case False
      then show ?thesis by (subst upload_loop.simps) (simp add: emits_return)
    qed
  qed
qed

lemma wp_upload_sized:
  "wp (upload_parts_rdma E cfg opts bucket path upload_id errlen) (\<lambda>r t'. \<forall>h cps. r = Ok (h, cps) \<longrightarrow>
     (\<exists>n. sized path n t t' \<and> 0 < n \<and> 0 \<le> op_part opts \<and> op_part opts \<le> part_count n (op_part_size opts) \<and>
        cps = sent_parts n opts)) t"
proof (rule wp_upload_parts_rdma)
  fix n h t1
  assume st: "started E opts path t n h t1"
  then have n: "0 < n" "0 \<le> op_part opts" "op_part opts \<le> part_count n (op_part_size opts)"
    by (auto simp: started_def)
  note loop = upload_loop_law [OF sent_range [OF n(2,3)], where slots = "[]" and file_size = n and opts = opts, unfolded append_Nil sent_parts_loop(2)]
  show "wp (upload_loop E cfg opts bucket (length t) upload_id n (part_count n (op_part_size opts)) errlen (last_part opts n)
      (first_part opts) []) (\<lambda>r t2. \<forall>cps. r = Ok cps \<longrightarrow> (\<forall>h' cps'. Ok (h, cps) = Ok (h', cps') \<longrightarrow>
        (\<exists>n. sized path n t (File (Fclose (length t)) # t2) \<and> 0 < n \<and> 0 \<le> op_part opts \<and>
          op_part opts \<le> part_count n (op_part_size opts) \<and> cps' = sent_parts n opts))) t1"
    by (rule wp_grows_post [OF grows_upload(2) yields_wp [OF loop]])
      (use n in \<open>auto intro!: exI [of _ n] sized_later [OF started_sized [OF st]] suffix_ConsI\<close>)
qed simp

subsection \<open>The actions leave nothing behind\<close>

lemma sent_parts_printable:
  assumes "0 \<le> op_part opts" "op_part opts \<le> part_count n (op_part_size opts)"
  shows "list_all printable (sent_parts n opts)"
proof -
  have "printable (uploaded_part n (op_part_size opts) k)" if "1 \<le> k" "k \<le> part_count n (op_part_size opts)" for k
  proof -
    have "\<bar>k\<bar> < 2 ^ 31" using that part_count_int [of n "op_part_size opts"] by simp
    with length_part_tag [OF this] show ?thesis by (simp add: printable_def uploaded_part_def)
  qed
  with assms show ?thesis by (auto simp: sent_parts_def sent_numbers_def list_all_iff)
qed

lemma keeps_print_uploaded: "list_all (\<lambda>cp. cp_etag cp \<noteq> None) cps \<Longrightarrow> keeps L (print_uploaded cps)"
  by (induction cps) (auto simp: c_text_def intro!: moves_returnI moves_bind [OF keeps_stdout])

lemma keeps_print_listed: "list_all tidy cps \<Longrightarrow> keeps L (print_listed cps)"
  by (induction cps) (auto simp: tidy_def c_text_def intro!: moves_returnI moves_bind [OF keeps_stdout])

lemma printable_tag: "printable cp \<Longrightarrow> cp_etag cp \<noteq> None"
  by (auto simp: printable_def split: option.splits)

lemma keeps_exit_error: "keeps L (exit_error what e)"
  unfolding exit_error_def by (auto intro!: moves_intros)

lemma moves_free_block: "moves (Res KMem h [] # L) (do { c_free h; ret (x :: int) }) (\<lambda>_. L)"
  by (rule moves_wf) (auto intro!: moves_intros)

text \<open>The lists and the uploads that the actions see.\<close>

lemma moves_listed:
  assumes "mp_env E" "tidy_server E"
    and "\<And>e. keeps L (k (Fail e))"
    and "\<And>h cps. list_all tidy cps \<Longrightarrow> list_all printable cps \<Longrightarrow> moves (Res KMem h [] # L) (k (Ok (h, cps))) (\<lambda>_. L)"
  shows "keeps L (State_Monad.bind (s3_list_parts E cfg bucket object upload_id errlen) k)"
proof (rule moves_bind_post [OF moves_s3_list_parts [OF assms(1,2)] yields_wp [OF s3_list_parts_law]])
  fix r :: "(nat \<times> completed_part list) result"
  assume r: "\<forall>h cps. r = Ok (h, cps) \<longrightarrow>
    (\<exists>reply. server_reply E reply \<and> cps = read_blocks 0 (part_blocks (reply_text reply)))"
  show "moves (block_res r @ L) (k r) (\<lambda>_. L)"
  proof (cases r)
    case (Ok ps)
    obtain h cps where ps: "ps = (h, cps)" by (cases ps)
    with r Ok assms(2) have "list_all tidy cps" "list_all printable cps"
      by (auto simp: tidy_server_def tidy_reply_def read_blocks_printable)
    with assms(4) show ?thesis by (simp add: Ok ps)
  next
    case (Fail e)
    with assms(3) show ?thesis by simp
  qed
qed

lemma moves_uploaded:
  assumes "mp_env E" "upload_env E opts"
    and "\<And>e. keeps L (k (Fail e))"
    and "\<And>h cps. list_all printable cps \<Longrightarrow> moves (Res KMem h [] # L) (k (Ok (h, cps))) (\<lambda>_. L)"
  shows "keeps L (State_Monad.bind (upload_parts_rdma E cfg opts bucket file_path upload_id errlen) k)"
proof (rule moves_bind_post [OF moves_upload_parts [OF assms(1,2)] yields_wp [OF upload_parts_law]])
  fix r :: "(nat \<times> completed_part list) result"
  assume r: "\<forall>h cps. r = Ok (h, cps) \<longrightarrow>
     (\<exists>n tr f. env_fstat E tr f = Some n \<and> 0 < n \<and> 0 \<le> op_part opts \<and>
        op_part opts \<le> part_count n (op_part_size opts) \<and> cps = sent_parts n opts)"
  show "moves (block_res r @ L) (k r) (\<lambda>_. L)"
  proof (cases r)
    case (Ok ps)
    obtain h cps where ps: "ps = (h, cps)" by (cases ps)
    with r Ok have "list_all printable cps" by (auto simp: sent_parts_printable)
    with assms(4) show ?thesis by (simp add: Ok ps)
  next
    case (Fail e)
    with assms(3) show ?thesis by simp
  qed
qed

text \<open>
  What each action relies on: an upload, that the sizes stay in range; an action that reads the part list, that the
  server's lists are well formed; the list of uploads, that its query is not written past the buffer.
\<close>

definition actions_env :: "env \<Rightarrow> options \<Rightarrow> bool" where
  "actions_env E opts \<longleftrightarrow>
     (op_action opts \<in> {''upload'', ''all''} \<longrightarrow> upload_env E opts) \<and>
     (op_action opts \<in> {''list'', ''complete''} \<longrightarrow> tidy_server E) \<and>
     (op_action opts = ''list-uploads'' \<longrightarrow> list_uploads_query opts \<noteq> None)"

lemma keeps_actions:
  assumes "mp_env E"
  shows "keeps L (do_create E opts bucket)" "upload_env E opts \<Longrightarrow> keeps L (do_upload E opts bucket path uid)"
    "tidy_server E \<Longrightarrow> keeps L (do_list E opts bucket uid)"
    "list_uploads_query opts \<noteq> None \<Longrightarrow> keeps L (do_list_uploads E opts bucket)"
    "tidy_server E \<Longrightarrow> keeps L (do_complete E opts bucket uid)" "keeps L (do_abort E opts bucket uid)"
    "upload_env E opts \<Longrightarrow> keeps L (do_all E opts bucket path)"
proof -
  note create = moves_bind [OF keeps_s3_create_multipart [OF assms]]
  note abort = moves_bind [OF keeps_s3_abort_multipart [OF assms]]
  note complete = moves_bind [OF keeps_s3_complete_multipart [OF assms]]
  note print = moves_bind [OF keeps_stdout] moves_bind [OF keeps_stderr] moves_returnI moves_free_block keeps_exit_error
  show "keeps L (do_create E opts bucket)"
    unfolding do_create_def by (auto intro!: create print split: result.split)
  show "keeps L (do_upload E opts bucket path uid)" if "upload_env E opts"
    unfolding do_upload_def
    by (rule moves_uploaded [OF assms that])
      (auto intro!: print moves_bind [OF keeps_print_uploaded] elim!: list.pred_mono_strong simp del: not_None_eq
        dest: printable_tag)
  show "keeps L (do_list E opts bucket uid)" if "tidy_server E"
    unfolding do_list_def
    by (rule moves_listed [OF assms that]) (auto intro!: print moves_bind [OF keeps_print_listed])
  show "keeps L (do_list_uploads E opts bucket)" if "list_uploads_query opts \<noteq> None"
    using that unfolding do_list_uploads_def
    by (auto intro!: moves_bind [OF keeps_s3_list_uploads [OF assms]] print split: result.split)
  show "keeps L (do_complete E opts bucket uid)" if "tidy_server E"
    unfolding do_complete_def
    by (rule moves_listed [OF assms that]) (auto intro!: print complete split: result.split)
  show "keeps L (do_abort E opts bucket uid)"
    unfolding do_abort_def by (auto intro!: abort print split: result.split)
  have uploaded: "keeps L (State_Monad.bind (upload_parts_rdma E (mp_config_of opts) opts bucket path u 1024)
      (\<lambda>r. case r of
         Fail e \<Rightarrow> do {
           emit (Stderr (m1 e));
           a \<leftarrow> s3_abort_multipart E (mp_config_of opts) bucket (op_object opts) u 1024;
           (case a of Fail ae \<Rightarrow> emit (Stderr (m2 ae)) | Ok _ \<Rightarrow> ret ());
           ret (1 :: int)
         }
       | Ok (parts, slots) \<Rightarrow> do {
           c \<leftarrow> s3_complete_multipart E (mp_config_of opts) bucket (op_object opts) u slots 1024;
           case c of
             Fail e \<Rightarrow> do { emit (Stderr (m3 e)); c_free parts; ret 1 }
           | Ok _ \<Rightarrow> do { emit (Stdout m4); c_free parts; ret 0 }
         }))" if "upload_env E opts" for u m1 m2 m3 m4
    by (rule moves_uploaded [OF assms that]) (auto intro!: print abort complete split: result.split)
  show "keeps L (do_all E opts bucket path)" if "upload_env E opts"
    unfolding do_all_def Let_def
    by (rule create) (use that in \<open>auto intro!: print uploaded split: result.split\<close>)
qed

lemma keeps_mp_usage: "keeps L (mp_usage prog)"
  unfolding mp_usage_def by (rule moves_bind [OF keeps_stderr]) (rule moves_return)

lemma keeps_multipart_main:
  assumes "mp_env E" "\<And>opts. parse_args args = Inr opts \<Longrightarrow> actions_env E opts"
  shows "keeps L (s3rdmamultipart_main E prog args)"
proof -
  have "keeps L (run_action E prog opts bucket)" if "parse_args args = Inr opts" for opts bucket
    unfolding run_action_def using keeps_actions [OF assms(1)] keeps_mp_usage assms(2) [OF that]
    by (auto simp: actions_env_def split: option.split)
  then show ?thesis
    unfolding s3rdmamultipart_main_def
    by (auto intro!: keeps_mp_usage moves_bind [OF keeps_stderr] moves_returnI
        split: sum.split arg_error.split option.split)
qed

subsection \<open>Request ids\<close>

lemma part_request_id_text:
  assumes "0 \<le> pid" "pid < 2 ^ 31" "1 \<le> k" "k < 2 ^ 31" "current now"
  shows "part_request_id pid k now =
    ''rdma-multipart-'' @ show_int pid @ ''-part-'' @ show_nat (nat k) @ ''-'' @ show_int now"
proof -
  have "length (show_int pid) \<le> 11" using length_show_int [of pid 10] assms by simp
  moreover have "length (show_int k) \<le> 11" using length_show_int [of k 10] assms by simp
  moreover have "length (show_int now) \<le> 13" using length_show_int [of now 12] assms by (simp add: current_def)
  ultimately show ?thesis
    using assms by (simp add: part_request_id_def snprintf_fits show_int_def)
qed

lemma part_request_id_inj:
  assumes "part_request_id pid j now = part_request_id pid k now'" "0 \<le> pid" "pid < 2 ^ 31"
    "1 \<le> j" "j < 2 ^ 31" "1 \<le> k" "k < 2 ^ 31" "current now" "current now'"
  shows "j = k"
proof -
  have "show_nat (nat j) @ ''-'' @ show_int now = show_nat (nat k) @ ''-'' @ show_int now'"
    using assms(1)
    unfolding part_request_id_text [OF assms(2,3,4,5,8)] part_request_id_text [OF assms(2,3,6,7,9)] by simp
  moreover have "no_digit_next (''-'' @ s)" for s by (simp add: no_digit_next_def is_digit_def)
  ultimately have "nat j = nat k"
    using decimal.enc_append_inj [where x = "nat j" and y = "nat k"] by blast
  then show ?thesis using assms by simp
qed

subsection \<open>Properties\<close>


text \<open>
  C7: the parts of a multipart upload are a partition of the file: concatenated in the order of their
  numbers they are exactly the file, for every file and part size whose arithmetic stays in range.
\<close>

theorem parts_partition_file:
  assumes "count_fits (int (length file)) part_size" "file \<noteq> []"
  shows "concat (map (part_bytes file part_size) [1 .. part_count (int (length file)) part_size]) = file"
  by (rule parts_cover [OF assms])

theorem parts_partition_file_witness:
  "count_fits (int (length [1, 2, 3 :: byte])) 2 \<and>
   concat (map (part_bytes [1, 2, 3] 2) [1 .. part_count (int (length [1, 2, 3 :: byte])) 2]) = [1, 2, 3]"
proof -
  have "count_fits (int (length [1, 2, 3 :: byte])) 2" by (simp add: count_fits_def)
  with parts_partition_file [OF this] show ?thesis by simp
qed


text \<open>
  C10: a run of \<^verbatim>\<open>s3rdmamultipart\<close>, whatever its arguments and whatever fails on the way, reaches no undefined
  behaviour, uses nothing that was released, and gives back all it took except for the strays (the list of no devices,
  a header list that could not be extended), provided that: the clock shows a year of four digits and no body of a
  response has 2 to the 63rd bytes; for the actions that upload, the endpoint has at most 340 characters and the sizes a file can have keep the part arithmetic in range; for
  the actions that read a part list, the server's lists are well formed; and for the list of uploads, its query is not
  written past its buffer.
\<close>

theorem s3rdmamultipart_leaks_nothing:
  assumes "current_clock E" "small_bodies E" "\<And>opts. parse_args args = Inr opts \<Longrightarrow> actions_env E opts"
  shows "wp (s3rdmamultipart_main E prog args) (\<lambda>_ t. safe t \<and> (\<forall>r \<in> set (live t). stray t (hid r))) []"
  by (rule moves_only_strays [OF keeps_multipart_main [OF _ assms(3)]]) (use assms(1,2) in \<open>simp_all add: mp_env_def\<close>)

definition sample_options :: options where
  "sample_options = init_options\<lparr>op_bucket := Some ''b'', op_object := Some ''k'', op_file_path := Some ''f''\<rparr>"

lemma sample_parse: "parse_args [''-bucket'', ''b'', ''-object'', ''k'', ''-file'', ''f''] = Inr sample_options"
proof -
  have "option_loop [''-bucket'', ''b'', ''-object'', ''k'', ''-file'', ''f''] init_options = Inr sample_options"
    by (simp add: set_option_def sample_options_def)
  then show ?thesis by (simp add: parse_args_def sample_options_def init_options_def)
qed

lemma sample_tidy: "tidy_server sample_env"
proof -
  have "part_blocks [] = []" by (simp add: part_blocks.simps)
  then show ?thesis
    by (auto simp: tidy_server_def server_reply_def tidy_reply_def reply_text_def sample_env_def chars_of_def cstring_def)
qed

lemma sample_upload_env: "upload_env sample_env sample_options"
proof -
  have "env_fstat sample_env tr f = Some 3" for tr f by (simp add: sample_env_def)
  then show ?thesis by (simp add: upload_env_def sample_options_def init_options_def count_fits_def)
qed

lemma sample_actions_env: "actions_env sample_env sample_options"
  using sample_upload_env by (simp add: actions_env_def sample_options_def init_options_def)

lemma sample_bodies: "small_bodies sample_env"
  by (simp add: small_bodies_def sample_env_def)

theorem s3rdmamultipart_leaks_nothing_witness:
  "wp (s3rdmamultipart_main sample_env ''s3rdmamultipart'' [''-bucket'', ''b'', ''-object'', ''k'', ''-file'', ''f''])
     (\<lambda>_ t. safe t \<and> (\<forall>r \<in> set (live t). stray t (hid r))) []"
  by (rule s3rdmamultipart_leaks_nothing [OF sample_clock(1) sample_bodies]) (simp add: sample_parse sample_actions_env)

text \<open>
  C27: no two parts of an upload share a request id, whatever the times of their uploads: the server
  can tell their RDMA sessions apart.
\<close>

theorem part_request_ids_distinct:
  assumes "j \<noteq> k" "0 \<le> pid" "pid < 2 ^ 31" "1 \<le> j" "j < 2 ^ 31" "1 \<le> k" "k < 2 ^ 31" "current now" "current now'"
  shows "part_request_id pid j now \<noteq> part_request_id pid k now'"
  using part_request_id_inj [OF _ assms(2-9)] assms(1) by blast

theorem part_request_ids_distinct_witness:
  "part_request_id 4242 1 1700000000 \<noteq> part_request_id 4242 2 1700000000"
  by (rule part_request_ids_distinct) (simp_all add: current_def)

text \<open>
  C40: the part count is narrowed to an \<^verbatim>\<open>int\<close>. For every file whose number of parts is a multiple of 2 to the 32nd, an
  upload of all parts ends with status 0 although it has sent nothing: the file is opened, its size is read and an
  empty block is allocated, and there is no session and no request.
\<close>

theorem wrapped_upload_sends_nothing:
  assumes "op_part opts = 0" "0 < op_part_size opts" "0 < n" "n + op_part_size opts < 2 ^ 63"
    "(2 ^ 32) dvd (n + op_part_size opts - 1) div op_part_size opts"
    "env_fopen E t path ''rb''" "\<And>tr. env_fstat E tr (length t) = Some n" "\<And>tr. env_malloc E tr 0"
  shows "wp (do_upload E opts bucket path uid) (\<lambda>rc t'. rc = 0 \<and> t' = [Sys (Free (length t + 2)), File (Fclose (length t)),
    Sys (Malloc 0 (Some (length t + 2))), File (Fstat (length t) (Some n)), File (Fopen path ''rb'' (Some (length t)))] @ t) t"
proof -
  have "part_count n (op_part_size opts) = 0"
    using assms(5) signed_take_bit_eq_iff_take_bit_eq [of 31 _ "0 :: int"]
    by (simp add: part_count_def take_bit_eq_mod dvd_eq_mod_eq_0)
  moreover have "upload_loop E cfg opts bucket f uid n 0 1024 0 1 [] = ret (Ok [])" for cfg f
    by (subst upload_loop.simps) simp
  ultimately show ?thesis
    using assms(1-4,6-8)
    by (simp add: do_upload_def upload_parts_rdma_def check_count_def Let_def wp_rules c_fopen_def c_fstat_def c_calloc_def
        c_fclose_def c_free_def)
qed

definition sample_huge :: env where
  "sample_huge = sample_env\<lparr>env_fstat := (\<lambda>tr f. Some (2 ^ 32))\<rparr>"

theorem wrapped_upload_sends_nothing_witness:
  "wp (do_upload sample_huge (init_options\<lparr>op_part_size := 1\<rparr>) ''b'' ''f'' ''u7'') (\<lambda>rc t'. rc = 0 \<and>
    t' = [Sys (Free 2), File (Fclose 0), Sys (Malloc 0 (Some 2)), File (Fstat 0 (Some (2 ^ 32))), File (Fopen ''f'' ''rb'' (Some 0))]) []"
proof -
  let ?opts = "init_options\<lparr>op_part_size := 1\<rparr>"
  have opts: "op_part ?opts = 0" "op_part_size ?opts = 1" by (simp_all add: init_options_def)
  have env: "env_fopen sample_huge [] ''f'' ''rb''" "env_fstat sample_huge tr f = Some (2 ^ 32)" "env_malloc sample_huge tr 0" for tr f
    by (simp_all add: sample_huge_def sample_env_def)
  show ?thesis
    using wrapped_upload_sends_nothing [of ?opts "2 ^ 32" sample_huge "[]" "''f''" "''b''" "''u7''"] opts env
    by (simp add: numeral_2_eq_2)
qed

end
