(* ===== verification/Conversation.thy ===== *)
theory Conversation
  imports Session
begin

text \<open>
  What a set-up says to the server. The bytes written to the control connection of a session that was
  set up with success are the upgrade request and three text frames, the registration of the request id,
  the client's queue-pair parameters and the memory token, each complete and in this order, followed by
  at most a close frame.
\<close>

subsection \<open>Steps that write nothing\<close>

abbreviation writeless :: "'a io \<Rightarrow> bool" where
  "writeless m \<equiv> emits (\<lambda>e. \<forall>fd. write_bytes fd e = []) m"

lemma written_append: "list_all (\<lambda>e. \<forall>fd. write_bytes fd e = []) evs \<Longrightarrow> written fd (evs @ t) = written fd t"
  by (induction evs) auto

lemma wp_writeless:
  assumes "writeless m" "written fd t = w" "\<And>a t'. written fd t' = w \<Longrightarrow> Q a t'"
  shows "wp m Q t"
  by (rule wp_runI) (use assms(2,3) emits_run [OF assms(1)] written_append in blast)

lemma wp_writeless_post:
  assumes "writeless m" "wp m (\<lambda>a _. P a) t" "written fd t = w" "\<And>a t'. P a \<Longrightarrow> written fd t' = w \<Longrightarrow> Q a t'"
  shows "wp m Q t"
  by (rule wp_runI) (use assms(3,4) emits_run [OF assms(1)] wp_run [OF assms(2)] written_append in blast)

text \<open>Nothing was written yet to a descriptor that does not exist yet.\<close>

definition unwritten :: "trace \<Rightarrow> bool" where
  "unwritten t \<longleftrightarrow> (\<forall>fd. length t \<le> fd \<longrightarrow> written fd t = [])"

lemma unwritten_Cons: "unwritten t \<Longrightarrow> (\<And>fd. length t < fd \<Longrightarrow> write_bytes fd e = []) \<Longrightarrow> unwritten (e # t)"
  by (auto simp: unwritten_def)

lemma write_bytes_some: "write_bytes fd e \<noteq> [] \<Longrightarrow> \<exists>bs r. e = Net (Write fd bs r)"
  by (cases "(fd, e)" rule: write_bytes.cases) (auto split: if_splits)

lemma safe_unwritten: "safe t \<Longrightarrow> unwritten t"
proof (induction t)
  case Nil
  then show ?case by (simp add: unwritten_def)
next
  case (Cons e t)
  have "write_bytes fd e = []" if "length t < fd" for fd
  proof (rule ccontr)
    assume "write_bytes fd e \<noteq> []"
    then obtain bs r where "e = Net (Write fd bs r)" using write_bytes_some by blast
    with Cons.prems have "holds KFd fd (live t)" "safe t" by auto
    then have "fd < length t" by (auto simp: holds_def dest: live_handles)
    with that show False by simp
  qed
  with Cons show ?case by (auto intro: unwritten_Cons)
qed

lemma writeless_reads: "emits (reads_from fd) m \<Longrightarrow> writeless m"
  by (erule emits_mono) (auto simp: reads_from_def)

lemma writeless_rand: "writeless (rand_bytes E n)"
  by (induction n) (auto intro!: emits_return emits_bind emits_ext_call simp: c_rand_byte_def Let_def)

lemma writeless_recv: "writeless (ws_recv_text E fd n)"
  unfolding ws_recv_text_def ws_recv_len_def ws_recv_payload_def
  by (auto intro!: emits_return emits_bind writeless_reads [OF emits_reads(1)] simp: Let_def split: option.splits)

lemma writeless_answers:
  "writeless (recv_register_response E fd eb)" "writeless (recv_qpinfo_server E fd eb)"
  unfolding recv_register_response_def recv_qpinfo_server_def
  by (auto intro!: emits_return emits_bind writeless_recv simp: Let_def split: option.splits)

lemma writeless_device:
  "writeless (v_open_device E dev)" "writeless (c_alloc_pd E ctx)" "writeless (c_create_cq E ctx n)"
  "writeless (c_create_qp E d a)" "writeless (v_qp_to_init E q port)" "writeless (v_qp_to_rtr E q a1 a2 a3 port a4 a5)"
  "writeless (v_qp_to_rts E q)" "writeless (v_query_gid E ctx port j)" "writeless (v_query_mtu_enum E ctx port)"
  "writeless (c_reg_mr E d b len acc)"
proof -
  have "writeless (open_named E lst dev i names)" for lst i names
    by (induction names arbitrary: i) (auto intro!: emits_return emits_ext_call simp: call_defs Let_def)
  then show "writeless (v_open_device E dev)"
    unfolding v_open_device_def
    by (auto intro!: emits_return emits_bind emits_ext_call simp: call_defs release_defs Let_def split: option.splits)
qed (auto intro!: emits_return emits_bind emits_ext_call simp: v_qp_to_init_def v_qp_to_rtr_def v_qp_to_rts_def
    v_query_gid_def v_query_mtu_enum_def call_defs Let_def split: option.splits)

subsection \<open>Dialling\<close>

text \<open>The descriptor of a new connection is new, and connecting writes nothing.\<close>

lemma wp_connect_new:
  assumes "\<And>t'. Q None t'" "\<And>fd t'. length t \<le> fd \<Longrightarrow> written fd t' = written fd t \<Longrightarrow> Q (Some fd) t'"
  shows "wp (connect_loop E ai as) Q t"
  using assms(2)
proof (induction as arbitrary: t)
  case Nil
  then show ?case by (simp add: wp_rules assms(1))
next
  case (Cons a as)
  have rest: "wp (connect_loop E ai as) Q t'"
    if "length t \<le> length t'" "\<And>fd. written fd t' = written fd t" for t'
    by (rule Cons.IH) (use that Cons.prems in auto)
  show ?case
    by (auto simp: wp_rules c_socket_def c_connect_def c_close_def Let_def intro!: rest Cons.prems)
qed

definition upgrade_text :: "string \<Rightarrow> byte list \<Rightarrow> string" where
  "upgrade_text url ks = (case ws_parse_url url 256 256 of
     None \<Rightarrow> [] | Some (host, port, path) \<Rightarrow> ws_request path host port (base64_encode ks))"

lemma wp_dial_says:
  assumes "length url \<le> 361" "\<And>e t'. Q (Fail e) t'"
    and "\<And>fd ks t'. length t \<le> fd \<Longrightarrow> length ks = 16 \<Longrightarrow>
      written fd t' = written fd t @ bytes_of (upgrade_text url ks) \<Longrightarrow> Q (Ok fd) t'"
  shows "wp (ws_dial E url eb) Q t"
proof (cases "ws_parse_url url 256 256")
  case None
  then show ?thesis by (simp add: ws_dial_def wp_rules assms(2))
next
  case (Some r)
  then obtain host port path where url: "ws_parse_url url 256 256 = Some (host, port, path)" by (cases r) auto
  have req: "length (ws_request path host port (base64_encode ks)) < 512" if "length ks = 16" for ks
    using length_ws_request [of port "base64_encode ks" path host] ws_parse_url_lengths [OF url] assms(1) that
    by (simp add: length_base64_encode)
  have fits: "snprintf 512 m = (m, length m)" if "length m < 512" for m using that by (simp add: snprintf_def)
  have fail: "wp (do { c_close fd; ret (Fail e) }) Q t'" for fd e t' by (simp add: wp_rules c_close_def assms(2))
  have keys: "wp (rand_bytes E 16) (\<lambda>ks t'. length ks = 16 \<and> written fd t' = w) t'" if "written fd t' = w" for fd w t'
    using rand_bytes_written [of E 16 fd t'] that by simp
  show ?thesis
    unfolding ws_dial_def url option.case prod.case wp_bind c_getaddrinfo_def wp_ext_call Let_def fst_conv snd_conv
    apply (split option.split, intro conjI allI impI)
     apply (simp add: wp_rules assms(2))
    apply (simp only: prod.case wp_bind split: prod.split)
    apply (intro allI impI)
    apply (rule wp_connect_new)
     apply (simp add: wp_rules c_freeaddrinfo_def assms(2))
    apply (simp only: option.case c_freeaddrinfo_def wp_bind wp_ext_call)
    subgoal for _ _ _ fd t1
      apply (rule wp_mono [OF keys [of fd _ "written fd t"]], simp)
      subgoal for ks t2
        apply (simp only: fits [OF req] prod.case wp_bind)
        apply (insert req [of ks])
        apply (simp add: wp_rules c_write_def Let_def)
        apply (intro conjI impI)
         apply (simp add: wp_rules c_close_def assms(2))
        apply (rule wp_writeless [OF writeless_reads [OF emits_reads(2)], where fd = fd
            and w = "written fd t @ bytes_of (upgrade_text url ks)"])
         apply (simp add: upgrade_text_def url bytes_of_def)
        apply (auto simp: wp_rules c_close_def assms(2) intro!: assms(3) split: option.split)
        done
      done
    done
qed

subsection \<open>The messages\<close>

lemma wp_says:
  assumes "written fd t = w" "\<And>t'. Q False t'"
    and "\<And>key t'. length key = 4 \<Longrightarrow> written fd t' = w @ ws_frame 1 (Some key) (bytes_of msg) \<Longrightarrow> Q True t'"
  shows "wp (ws_send_text E fd msg) Q t"
proof (rule wp_mono [OF ws_send_text_frame [of E fd msg t]])
  fix ok t'
  assume "ok \<longrightarrow> (\<exists>key. length key = 4 \<and> written fd t' = written fd t @ ws_frame 1 (Some key) (bytes_of msg))"
  with assms show "Q ok t'" by (cases ok) auto
qed

lemma wp_fail_close: "(\<And>t'. Q (Fail e, s) t') \<Longrightarrow> wp (fail_close E fd e s) Q t"
  by (auto simp: fail_close_def wp_rules intro!: wp_runI)

text \<open>The parameters that the client announces for its queue pair.\<close>

definition client_qpinfo :: "u32 \<Rightarrow> u8 \<Rightarrow> byte list \<Rightarrow> int \<Rightarrow> string" where
  "client_qpinfo n i raw mtu =
     qpinfo_layout ''qpinfo_client'' \<lparr>qpn = n, lid = 0, gid = raw, gid_idx = i, mtu_enum = mtu\<rparr>"

lemma connect_says:
  assumes "written fd t = w" "\<And>e t'. Q (Fail e, s) t'"
    and "\<And>key raw mtu t'. length key = 4 \<Longrightarrow> length raw = 16 \<Longrightarrow>
      written fd t' = w @ ws_frame 1 (Some key) (bytes_of (client_qpinfo n i raw mtu)) \<Longrightarrow> Q (Ok fd, s) t'"
  shows "wp (connect_qp E fd port i ctx q n eb s) Q t"
proof -
  have ok: "qpinfo_client_buf \<lparr>qpn = n, lid = 0, gid = raw, gid_idx = i, mtu_enum = mtu\<rparr> = Some (client_qpinfo n i raw mtu)"
    if "length raw = 16" "- 1 \<le> mtu" "mtu \<le> 5" for raw mtu
    unfolding client_qpinfo_def by (rule qpinfo_client_buf_ok) (use that in \<open>simp add: qpinfo_ok_def\<close>)
  show ?thesis
    unfolding connect_qp_def wp_bind
    apply (rule wp_writeless_post [OF writeless_device(8) gid_length assms(1)])
    subgoal for g t1
      apply (cases g)
       apply (simp add: wp_fail_close assms(2))
      subgoal for raw
        apply (simp only: option.case wp_bind)
        apply (rule wp_writeless_post [OF writeless_device(9) mtu_range], assumption)
        subgoal for mtu t2
          apply (cases "mtu < 0")
           apply (simp add: wp_fail_close assms(2))
          apply (simp add: send_qpinfo_client_def ok wp_bind)
          apply (rule wp_says, assumption)
           apply (simp add: wp_fail_close assms(2))
          apply (simp add: wp_bind)
          apply (rule wp_writeless [OF writeless_answers(2)], assumption)
          apply (split result.split, intro conjI allI impI)
           apply (simp only: wp_bind)
           apply (rule wp_writeless [OF writeless_device(6)], assumption)
           apply (simp add: wp_if wp_fail_close assms(2) wp_bind)
           apply (intro impI, rule wp_writeless [OF writeless_device(7)], assumption)
           apply (simp add: wp_if wp_fail_close assms(2,3) wp_return)
          apply (simp add: wp_fail_close assms(2))
          done
        done
      done
    done
qed

lemma create_says:
  assumes "written fd t = w" "\<And>e s' t'. Q (Fail e, s') t'"
    and "\<And>s' q n key raw mtu t'. s_qp s' = Some (q, n) \<Longrightarrow> length key = 4 \<Longrightarrow> length raw = 16 \<Longrightarrow>
      written fd t' = w @ ws_frame 1 (Some key) (bytes_of (client_qpinfo n i raw mtu)) \<Longrightarrow> Q (Ok fd, s') t'"
  shows "wp (create_qp E fd dev port i eb s) Q t"
  unfolding create_qp_def Let_def wp_bind
  apply (rule wp_writeless [OF writeless_device(1) assms(1)])
  apply (split option.split, intro conjI allI impI)
   apply (simp add: wp_fail_close assms(2))
  apply (simp only: wp_bind, rule wp_writeless [OF writeless_device(2)], assumption)
  apply (split option.split, intro conjI allI impI)
   apply (simp add: wp_fail_close assms(2))
  apply (simp only: wp_bind, rule wp_writeless [OF writeless_device(3)], assumption)
  apply (split option.split, intro conjI allI impI)
   apply (simp add: wp_fail_close assms(2))
  apply (simp only: wp_bind, rule wp_writeless [OF writeless_device(4)], assumption)
  apply (split option.split, intro conjI allI impI)
   apply (simp add: wp_fail_close assms(2))
  apply (split prod.split, intro allI impI)
  apply (simp only: wp_bind, rule wp_writeless [OF writeless_device(5)], assumption)
  apply (split if_split, intro conjI impI)
   apply (simp add: wp_fail_close assms(2))
  apply (rule connect_says, assumption, rule assms(2))
  apply (rule assms(3), auto)
  done

text \<open>Everything that is said before the token.\<close>

definition greeting :: "string \<Rightarrow> string \<Rightarrow> u8 \<Rightarrow> u32 \<Rightarrow> byte list \<Rightarrow> bool" where
  "greeting url rid i n w \<longleftrightarrow> (\<exists>ks k1 k2 raw mtu. length ks = 16 \<and> length k1 = 4 \<and> length k2 = 4 \<and> length raw = 16 \<and>
     w = bytes_of (upgrade_text url ks) @ ws_frame 1 (Some k1) (bytes_of (register_request_msg rid)) @
       ws_frame 1 (Some k2) (bytes_of (client_qpinfo n i raw mtu)))"

lemma handshake_says:
  assumes "length url \<le> 361" "length rid < 200" "\<And>e s' t'. Q (Fail e, s') t'"
    and "\<And>fd s' q n g t'. length t \<le> fd \<Longrightarrow> s_qp s' = Some (q, n) \<Longrightarrow> greeting url rid i n g \<Longrightarrow>
      written fd t' = written fd t @ g \<Longrightarrow> Q (Ok fd, s') t'"
  shows "wp (rdma_handshake E url dev port i rid eb s) Q t"
  unfolding rdma_handshake_def wp_bind send_register_request_def register_request_fits [OF assms(2)]
  apply (rule wp_dial_says [OF assms(1)])
   apply (simp add: wp_return assms(3))
  apply (simp only: result.case wp_bind)
  apply (rule wp_says, assumption)
   apply (simp add: wp_fail_close assms(3))
  apply (simp only: simp_thms if_False wp_bind)
  apply (rule wp_writeless [OF writeless_answers(1)], assumption)
  apply (split result.split, intro conjI allI impI)
   apply (rule create_says, assumption, rule assms(3))
   subgoal premises that for fd ks t1 k1 t2 _ t3 _ s' q n k2 raw mtu t'
   proof -
     let ?g = "bytes_of (upgrade_text url ks) @ ws_frame 1 (Some k1) (bytes_of (register_request_msg rid)) @
       ws_frame 1 (Some k2) (bytes_of (client_qpinfo n i raw mtu))"
     have "greeting url rid i n ?g" unfolding greeting_def by (intro exI conjI) (use that in simp_all)
     then show ?thesis by (rule assms(4) [rotated 2, where q = q]) (use that in simp_all)
   qed
  apply (simp add: wp_fail_close assms(3))
  done

text \<open>
  What a set-up has said when it succeeds. The close frame is sent without a look at the result of the
  write, so that some of it may be missing.
\<close>

definition conversation :: "string \<Rightarrow> string \<Rightarrow> u8 \<Rightarrow> u64 \<Rightarrow> u64 \<Rightarrow> rdma_session \<Rightarrow> byte list \<Rightarrow> bool" where
  "conversation url rid i addr len s w \<longleftrightarrow> (\<exists>q n m rkey g k3 k4 rest.
     s_qp s = Some (q, n) \<and> s_mr s = Some (m, rkey) \<and> greeting url rid i n g \<and> length k3 = 4 \<and> length k4 = 4 \<and>
     w = g @ ws_frame 1 (Some k3) (bytes_of (token_msg addr rkey 0 len)) @ rest \<and> prefix rest ([0x88, 0x80] @ k4))"

lemma close_says:
  assumes "written fd t = w" "\<And>k rest t'. length k = 4 \<Longrightarrow> prefix rest ([0x88, 0x80] @ k) \<Longrightarrow> written fd t' = w @ rest \<Longrightarrow> Q () t'"
  shows "wp (ws_close E fd) Q t"
  unfolding ws_close_def wp_bind
  apply (rule wp_mono [OF rand_bytes_written [of E 4 fd t]])
  subgoal for k t1
    by (simp add: wp_rules c_write_def c_close_def Let_def del: append_Cons take_append)
      (rule assms(2) [of k], auto simp: assms(1) take_is_prefix simp del: append_Cons take_append)
  done

lemma wp_True: "wp m (\<lambda>_ _. True) = (\<lambda>_. True)"
  by (simp add: wp_def fun_eq_iff split: prod.split)

text \<open>
  A session was introduced to the server between two traces: on a connection that did not exist before, exactly this conversation was
  written.
\<close>

definition introduced :: "string \<Rightarrow> string \<Rightarrow> u8 \<Rightarrow> u64 \<Rightarrow> u64 \<Rightarrow> rdma_session \<Rightarrow> trace \<Rightarrow> trace \<Rightarrow> bool" where
  "introduced url rid i addr len s t t' \<longleftrightarrow>
     (\<exists>fd w. length t \<le> fd \<and> written fd t' = written fd t @ w \<and> conversation url rid i addr len s w)"

lemma share_says:
  assumes "s_qp s = Some (q, n)" "greeting url rid i n g" "written fd t = w0 @ g" "length t0 \<le> fd" "written fd t0 = w0"
  shows "wp (share_buffer acc E fd p s buf len eb) (\<lambda>r t'. case r of Fail _ \<Rightarrow> True
    | Ok (p, s) \<Rightarrow> introduced url rid i (snd buf) len s t0 t') t"
  unfolding share_buffer_def Let_def wp_bind send_token_def token_fits
  apply (rule wp_writeless [OF writeless_device(10) assms(3)])
  apply (split option.split, intro conjI allI impI)
   apply (simp add: wp_rules wp_True)
  apply (split prod.split, intro allI impI)
  apply (simp only: wp_bind)
  apply (rule wp_says, assumption)
   apply (simp add: wp_rules wp_True)
  apply (simp only: simp_thms if_False wp_bind)
  apply (rule close_says, assumption)
  subgoal premises that for _ _ _ m rkey key _ k rest t'
  proof -
    have "conversation url rid i (snd buf) len (s\<lparr>s_mr := Some (m, rkey)\<rparr>)
        (g @ ws_frame 1 (Some key) (bytes_of (token_msg (snd buf) rkey 0 len)) @ rest)"
      unfolding conversation_def by (intro exI conjI) (use that assms(1,2) in simp_all)
    then show ?thesis
      unfolding wp_return result.case prod.case introduced_def
      by (intro exI [of _ fd] exI conjI) (use that assms(4,5) in simp_all)
  qed
  done

lemma setup_introduces:
  assumes "length url \<le> 361" "length rid < 200"
  shows "wp (setup_with acc E url dev port i rid buf len eb) (\<lambda>r t'. case r of Fail _ \<Rightarrow> True
    | Ok (p, s) \<Rightarrow> introduced url rid i (snd buf) len s t t') t"
proof -
  have shared: "wp (share_buffer acc E fd p s buf len eb) (\<lambda>r t'. case r of Fail _ \<Rightarrow> True
      | Ok (p, s) \<Rightarrow> introduced url rid i (snd buf) len s t t') t2"
    if "length (Sys (Malloc 40 h) # Sys (Srand a) # Sys (GetPid b) # Sys (Time c) # t) \<le> fd" "s_qp s = Some (q, n)"
      "greeting url rid i n g" "written fd t2 = written fd (Sys (Malloc 40 h) # Sys (Srand a) # Sys (GetPid b) # Sys (Time c) # t) @ g"
    for h a b c fd p s q n g t2
    by (rule share_says [OF that(2,3)]) (use that(1,4) in auto)
  show ?thesis
    unfolding setup_with_def wp_bind
    apply (simp add: c_time_def c_getpid_def c_srand_def c_malloc_def Let_def wp_rules)
    apply (intro impI, rule handshake_says [OF assms])
     apply (simp add: wp_rules wp_True)
    apply (simp only: prod.case result.case)
    apply (rule shared, assumption+)
    done
qed

text \<open>In a safe trace nothing was written to a descriptor that is still to come.\<close>

lemma introduced_conversation:
  assumes "introduced url rid i addr len s t t'" "safe t"
  shows "\<exists>fd. conversation url rid i addr len s (written fd t')"
  using assms safe_unwritten [OF assms(2)] by (auto simp: introduced_def unwritten_def)

subsection \<open>Properties\<close>



end
