(* ===== verification/EndToEnd.thy ===== *)
theory EndToEnd
  imports Multipart Conversation
begin

text \<open>
  Properties of whole runs. A session makes no HTTP request and touches no file, so the requests
  of a program run are those of its S3 calls: the lemmas give the exact list of requests of a
  download, an upload and a multipart upload that end with status 0, and say that the session a
  request names was registered with the server before the request was made.
\<close>

subsection \<open>The requests of a run\<close>

abbreviation quiet :: "'a io \<Rightarrow> bool" where
  "quiet m \<equiv> emits (\<lambda>e. request_of e = []) m"

lemma session_quiet: "emits is_session m \<Longrightarrow> quiet m"
  by (erule emits_mono) (auto elim!: is_session.elims)

lemma wp_quiet:
  assumes "quiet m" "\<And>a t'. requests t' = requests t \<Longrightarrow> suffix t t' \<Longrightarrow> Q a t'"
  shows "wp m Q t"
proof (rule wp_runI)
  fix a t'
  assume "run_state m t = (a, t')"
  with emits_run [OF assms(1)] obtain evs where "t' = evs @ t" "list_all (\<lambda>e. request_of e = []) evs"
    by blast
  then have "requests t' = requests t" "suffix t t'" by (simp_all add: requests_def list_all_iff suffix_def)
  then show "Q a t'" by (rule assms(2))
qed

lemma quiet_calls:
  "quiet (emit (Stderr s))" "quiet (emit (Stdout s))" "quiet (c_getpid E)" "quiet (c_time E)" "quiet (c_mmap E n)"
  "quiet (c_munmap b n)" "quiet (c_load E b n)" "quiet (c_fopen E p m)" "quiet (c_fstat E f)"
  "quiet (c_fseek E f off)" "quiet (c_fread E f b n)" "quiet (c_fwrite E f b n)" "quiet (c_fclose f)"
  "quiet (c_strerror E)" "quiet (c_ferror E f)" "quiet (c_malloc E m')" "quiet (c_free b)" "quiet (emit (Undefined s))"
  by (auto intro!: emits_ext_call emits_strerror simp: call_defs release_defs Let_def)

lemma quiet_session:
  "quiet (rdma_recv_setup E url dev port i rid buf len eb)" "quiet (rdma_send_setup E url dev port i rid buf len eb)"
  "quiet (rdma_session_destroy sp)"
  unfolding rdma_recv_setup_def rdma_send_setup_def rdma_session_destroy_def
  by (auto intro!: session_quiet emits_setup emits_device)

text \<open>A post-condition that only a run with status 0 has to meet.\<close>

abbreviation on_success :: "(trace \<Rightarrow> bool) \<Rightarrow> int \<Rightarrow> trace \<Rightarrow> bool" where
  "on_success P rc t \<equiv> rc = 0 \<longrightarrow> P t"

lemma wp_failed: "yields (\<lambda>rc. rc = 1) m \<Longrightarrow> wp m (on_success P) t"
  by (drule yields_wp [of _ _ t], erule wp_mono) simp

lemma wp_quiet_end:
  "quiet m \<Longrightarrow> (\<And>t'. requests t' = requests t \<Longrightarrow> suffix t t' \<Longrightarrow> P t') \<Longrightarrow> wp m (on_success P) t"
  by (rule wp_quiet) auto

lemma yields_one:
  "yields (\<lambda>rc. rc = 1) (fail_unmap buf n msg)" "yields (\<lambda>rc. rc = 1) (ret 1)"
  unfolding fail_unmap_def by (auto intro: yields_bindI yields_returnI)

text \<open>A request of the single-object clients, with its signed lines, further lines and options.\<close>

definition asks ::
  "env \<Rightarrow> s3_config \<Rightarrow> string \<Rightarrow> string \<Rightarrow> string option \<Rightarrow> string list \<Rightarrow> (curl_opts \<Rightarrow> curl_opts) \<Rightarrow>
   curl_opts \<Rightarrow> bool" where
  "asks E cfg mth bucket key extra f q \<longleftrightarrow> (\<exists>h s. q = f (base_opts (endpoint cfg @ object_path bucket key)
     (Some (h, signed_lines E cfg mth bucket key s @ extra)) Write_Discard))"

lemma requested_asks:
  "requested E cfg mth bucket key extra f t r t' \<longleftrightarrow>
   (\<exists>q. asks E cfg mth bucket key extra f q \<and> requests t' = (q, r) # requests t)"
  unfolding requested_def asks_def by blast

abbreviation head_opts :: "curl_opts \<Rightarrow> curl_opts" where
  "head_opts opts \<equiv> opts\<lparr>co_nobody := True, co_header_cb := True\<rparr>"

abbreviation get_opts :: "curl_opts \<Rightarrow> curl_opts" where
  "get_opts opts \<equiv> opts\<lparr>co_httpget := True, co_ignore_content_length := True\<rparr>"

abbreviation put_opts :: "curl_opts \<Rightarrow> curl_opts" where
  "put_opts opts \<equiv> opts\<lparr>co_upload := True, co_infilesize := Some 0, co_empty_read := True\<rparr>"

abbreviation rdma_line :: "string \<Rightarrow> string" where
  "rdma_line rid \<equiv> ''X-RDMA-Request-ID: '' @ rid"

lemma wp_head:
  assumes "request_ok cfg ''HEAD'' bucket key" "current_clock E" "headers_alloc E"
    and "\<And>q r n t'. asks E cfg ''HEAD'' bucket key [] head_opts q \<Longrightarrow> requests t' = (q, r) # requests t \<Longrightarrow>
      suffix t t' \<Longrightarrow> cr_http r = 200 \<Longrightarrow> Q (Ok n) t'"
    and "\<And>e t'. Q (Fail e) t'"
  shows "wp (s3_head_object E cfg bucket key errlen) Q t"
  by (rule wp_grows_post [OF grows_s3(1) wp_s3_head_object [OF assms(1-3), of errlen t]])
    (use assms(4,5) in \<open>auto simp: requested_asks\<close>)

lemma wp_get:
  assumes "request_ok cfg ''GET'' bucket key" "current_clock E" "headers_alloc E" "length rid < 64"
    and "\<And>q r t'. asks E cfg ''GET'' bucket key [rdma_line rid] get_opts q \<Longrightarrow> requests t' = (q, r) # requests t \<Longrightarrow>
      suffix t t' \<Longrightarrow> cr_http r = 200 \<Longrightarrow> Q (Ok ()) t'"
    and "\<And>e t'. Q (Fail e) t'"
  shows "wp (s3_get_object E cfg bucket key (Some (''X-RDMA-Request-ID'', rid)) errlen) Q t"
  by (rule wp_grows_post [OF grows_s3(2) wp_s3_get_object [OF assms(1-3), of "''X-RDMA-Request-ID''" rid errlen t]])
    (use assms(4-6) in \<open>auto simp: requested_asks\<close>)

lemma wp_put:
  assumes "request_ok cfg ''PUT'' bucket key" "current_clock E" "headers_alloc E" "length rid < 64"
    and "\<And>q r t'. asks E cfg ''PUT'' bucket key [rdma_line rid] put_opts q \<Longrightarrow> requests t' = (q, r) # requests t \<Longrightarrow>
      suffix t t' \<Longrightarrow> cr_http r = 200 \<or> cr_http r = 201 \<Longrightarrow> Q (Ok ()) t'"
    and "\<And>e t'. Q (Fail e) t'"
  shows "wp (s3_put_object E cfg bucket key (Some (''X-RDMA-Request-ID'', rid)) errlen) Q t"
  by (rule wp_grows_post [OF grows_s3(3) wp_s3_put_object [OF assms(1-3), of "''X-RDMA-Request-ID''" rid errlen t]])
    (use assms(4-6) in \<open>auto simp: requested_asks\<close>)

lemma wp_getpid: "(\<And>t'. requests t' = requests t \<Longrightarrow> suffix t t' \<Longrightarrow> Q (env_pid E) t') \<Longrightarrow> wp (c_getpid E) Q t"
  by (simp add: c_getpid_def wp_rules suffix_ConsI)

lemma length_request_id: "length (request_id pid) < 64"
  unfolding request_id_def by (rule snprintf_length) simp

text \<open>
  In the run from \<open>t\<close> to \<open>t'\<close>, when the requests made were exactly \<open>rs\<close>, a session was introduced to the server: its registration names
  the request id \<open>rid\<close>.
\<close>

definition registered :: "string \<Rightarrow> string \<Rightarrow> (curl_opts \<times> curl_reply) list \<Rightarrow> trace \<Rightarrow> trace \<Rightarrow> bool" where
  "registered url rid rs t t' \<longleftrightarrow> (\<exists>t0 t1 addr len s. suffix t t0 \<and> suffix t0 t1 \<and> suffix t1 t' \<and>
     requests t0 = rs \<and> requests t1 = rs \<and> introduced url rid 0 addr len s t0 t1)"

lemma registered_later: "registered url rid rs t t1 \<Longrightarrow> suffix t1 t' \<Longrightarrow> registered url rid rs t t'"
  unfolding registered_def by (elim exE conjE, intro exI conjI) (auto intro: suffix_order.trans)

lemma setup_registers:
  assumes "length url \<le> 361" "length rid < 200" "suffix tb t"
    and "\<And>ps t'. registered url rid (requests t) tb t' \<Longrightarrow> requests t' = requests t \<Longrightarrow> suffix t t' \<Longrightarrow> Q (Ok ps) t'"
    and "\<And>e t'. Q (Fail e) t'"
  shows "wp (setup_with acc E url dev port 0 rid buf len eb) Q t"
proof -
  have sess: "wp (setup_with acc E url dev port 0 rid buf len eb) (\<lambda>_ t'. requests t' = requests t \<and> suffix t t') t"
    by (rule wp_quiet [OF session_quiet [OF emits_setup]]) simp
  show ?thesis
  proof (rule wp_mono [OF wp_conj [OF setup_introduces [OF assms(1,2)] sess]])
    fix r :: "(nat \<times> rdma_session) result" and t'
    assume r: "(case r of Fail _ \<Rightarrow> True | Ok (p, s) \<Rightarrow> introduced url rid 0 (snd buf) len s t t') \<and>
      requests t' = requests t \<and> suffix t t'"
    show "Q r t'"
    proof (cases r)
      case (Ok ps)
      obtain p s where ps: "ps = (p, s)" by (cases ps)
      with r Ok assms(3) have "introduced url rid 0 (snd buf) len s t t'" "suffix tb t" "suffix t t'" "requests t' = requests t"
        by simp_all
      then have "registered url rid (requests t) tb t'"
        unfolding registered_def using suffix_order.refl [of t'] by blast
      with r Ok assms(4) show ?thesis by simp
    next
      case (Fail e)
      with assms(5) show ?thesis by simp
    qed
  qed
qed

lemma session_registers:
  assumes "length url \<le> 361" "length rid < 200" "suffix tb t"
    and "\<And>ps t'. registered url rid (requests t) tb t' \<Longrightarrow> requests t' = requests t \<Longrightarrow> suffix t t' \<Longrightarrow> Q (Ok ps) t'"
    and "\<And>e t'. Q (Fail e) t'"
  shows "wp (rdma_recv_setup E url dev port 0 rid buf len eb) Q t" "wp (rdma_send_setup E url dev port 0 rid buf len eb) Q t"
  unfolding rdma_recv_setup_def rdma_send_setup_def by (rule setup_registers [OF assms]; assumption)+

lemma object_url_short: "length (ws_url_from_endpoint ep 300) \<le> 361"
  by (simp add: ws_url_from_endpoint_def snprintf_def Let_def)

lemma object_id_short: "length (request_id pid) < 200"
  using length_request_id [of pid] by simp

text \<open>
  A download asks for the size, registers a session and asks for the object under the id of the session; an upload
  registers a session and puts the object under its id.
\<close>

definition get_requests :: "env \<Rightarrow> object_opts \<Rightarrow> string \<Rightarrow> string \<Rightarrow> trace \<Rightarrow> trace \<Rightarrow> bool" where
  "get_requests E ob bucket object t t' \<longleftrightarrow> (\<exists>q1 r1 q2 r2. requests t' = (q2, r2) # (q1, r1) # requests t \<and>
     asks E (config_of ob) ''HEAD'' bucket (Some object) [] head_opts q1 \<and> cr_http r1 = 200 \<and>
     registered (ws_url_from_endpoint (o_endpoint ob) 300) (request_id (env_pid E)) ((q1, r1) # requests t) t t' \<and>
     asks E (config_of ob) ''GET'' bucket (Some object) [rdma_line (request_id (env_pid E))] get_opts q2 \<and>
     cr_http r2 = 200)"

lemma wp_get_object:
  assumes "request_ok (config_of ob) ''HEAD'' bucket (Some object)" "request_ok (config_of ob) ''GET'' bucket (Some object)"
    and "current_clock E" "headers_alloc E"
  shows "wp (get_object E ob bucket object path) (on_success (get_requests E ob bucket object t)) t"
proof -
  have save: "quiet (do { emit (Stderr m); rdma_session_destroy sp; save_object E path b n })" for m sp b n
    unfolding save_object_def fail_unmap_def
    by (auto intro!: emits_bind emits_return quiet_calls quiet_session split: option.split)
  have got: "get_requests E ob bucket object t t'"
    if "registered (ws_url_from_endpoint (o_endpoint ob) 300) (request_id (env_pid E)) ((q1, r1) # requests t) t t1"
      "asks E (config_of ob) ''HEAD'' bucket (Some object) [] head_opts q1" "cr_http r1 = 200"
      "asks E (config_of ob) ''GET'' bucket (Some object) [rdma_line (request_id (env_pid E))] get_opts q2"
      "requests t2 = (q2, r2) # (q1, r1) # requests t" "cr_http r2 = 200" "requests t' = requests t2" "suffix t1 t'"
    for q1 r1 t1 q2 r2 t2 t'
    unfolding get_requests_def that(5,7) using that(2-4,6) registered_later [OF that(1,8)] by blast
  show ?thesis
    unfolding get_object_def Let_def wp_bind
    apply (rule wp_quiet [OF quiet_calls(1)])
    apply (rule wp_head [OF assms(1,3,4)])
     apply (simp only: result.case wp_bind)
     apply (rule wp_quiet [OF quiet_calls(1)], rule wp_getpid)
     apply (rule wp_quiet [OF quiet_calls(5)])
     apply (split option.split, intro conjI allI impI)
      apply (auto intro!: wp_failed yields_bindI yields_returnI)[1]
     apply (simp only: wp_bind)
     apply (rule wp_quiet [OF quiet_calls(1)])
     apply (rule session_registers(1) [OF object_url_short object_id_short, where tb = t])
       apply (meson suffix_order.trans)
      apply (simp only: result.case wp_bind)
      apply (rule wp_quiet [OF quiet_calls(1)])
      apply (rule wp_get [OF assms(2-4) length_request_id])
       apply (simp only: result.case)
       apply (rule wp_quiet_end [OF save])
       apply (rule got, assumption, assumption, assumption, assumption, assumption, assumption, simp, meson suffix_order.trans)
      apply (auto intro!: wp_failed yields_bindI yields_returnI yields_one)
    done
qed

definition put_requests :: "env \<Rightarrow> object_opts \<Rightarrow> string \<Rightarrow> string \<Rightarrow> trace \<Rightarrow> trace \<Rightarrow> bool" where
  "put_requests E ob bucket object t t' \<longleftrightarrow> (\<exists>q r. requests t' = (q, r) # requests t \<and>
     registered (ws_url_from_endpoint (o_endpoint ob) 300) (request_id (env_pid E)) (requests t) t t' \<and>
     asks E (config_of ob) ''PUT'' bucket (Some object) [rdma_line (request_id (env_pid E))] put_opts q \<and>
     (cr_http r = 200 \<or> cr_http r = 201))"

lemma wp_put_object:
  assumes "request_ok (config_of ob) ''PUT'' bucket (Some object)" "current_clock E" "headers_alloc E"
  shows "wp (put_object E ob bucket object path) (on_success (put_requests E ob bucket object t)) t"
proof -
  have finish: "quiet (do { emit (Stderr m); rdma_session_destroy sp; c_munmap b n; ret x })" for m sp b n and x :: int
    by (auto intro!: emits_bind emits_return quiet_calls quiet_session)
  have did: "put_requests E ob bucket object t t'"
    if "registered (ws_url_from_endpoint (o_endpoint ob) 300) (request_id (env_pid E)) (requests t) t t1"
      "asks E (config_of ob) ''PUT'' bucket (Some object) [rdma_line (request_id (env_pid E))] put_opts q"
      "requests t2 = (q, r) # requests t" "cr_http r = 200 \<or> cr_http r = 201" "requests t' = requests t2" "suffix t1 t'"
    for t1 t2 t' q r
    unfolding put_requests_def that(3,5) using that(2,4) registered_later [OF that(1,6)] by blast
  have put: "wp (put_buffer E ob bucket object path buf n) (on_success (put_requests E ob bucket object t)) t'"
    if "requests t' = requests t" "suffix t t'" for buf n t'
    unfolding put_buffer_def Let_def wp_bind
    apply (rule wp_getpid, rule wp_quiet [OF quiet_calls(1)])
    apply (rule session_registers(2) [OF object_url_short object_id_short, where tb = t])
      apply (use that(2) in \<open>meson suffix_order.trans\<close>)
     apply (simp only: result.case wp_bind)
     apply (rule wp_quiet [OF quiet_calls(1)], rule wp_put [OF assms length_request_id])
      apply (simp only: result.case)
      apply (rule wp_quiet_end [OF finish])
      apply (rule did, simp only: that(1), assumption, simp only: that(1), assumption, simp, meson suffix_order.trans)
     apply (auto intro!: wp_failed yields_bindI yields_returnI yields_one)
    done
  have rd: "quiet (if b then c_fread E f m n else ret [])" for b f m n
    by (auto intro!: quiet_calls emits_return)
  show ?thesis
    unfolding put_object_def Let_def wp_bind
    apply (rule wp_quiet [OF quiet_calls(8)])
    apply (split option.split, intro conjI allI impI)
     apply (auto intro!: wp_failed yields_bindI yields_returnI)[1]
    apply (simp only: wp_bind, rule wp_quiet [OF quiet_calls(9)])
    apply (split option.split, intro conjI allI impI)
     apply (auto intro!: wp_failed yields_bindI yields_returnI)[1]
    apply (simp only: wp_bind, rule wp_quiet [OF quiet_calls(5)])
    apply (split option.split, intro conjI allI impI)
     apply (auto intro!: wp_failed yields_bindI yields_returnI)[1]
    apply (simp only: wp_bind, rule wp_quiet [OF rd])
    apply (split if_split, intro conjI impI)
     apply (auto intro!: wp_failed yields_bindI yields_returnI)[1]
    apply (simp only: wp_bind, rule wp_quiet [OF quiet_calls(13)])
    apply (rule put)
     apply simp
    apply (meson suffix_order.trans)
    done
qed

subsection \<open>The requests of a multipart upload\<close>

definition mp_asks ::
  "env \<Rightarrow> s3_config \<Rightarrow> string \<Rightarrow> string \<Rightarrow> string option \<Rightarrow> string \<Rightarrow> string option \<Rightarrow> (string \<times> string) option \<Rightarrow>
   curl_opts \<Rightarrow> bool" where
  "mp_asks E cfg mth bucket key query body extra q \<longleftrightarrow> (\<exists>h s. q = method_opts mth body
     (base_opts (endpoint cfg @ object_path bucket key @ ''?'' @ query)
       (Some (h, mp_lines E cfg mth bucket key query (case body of None \<Rightarrow> - 1 | Some b \<Rightarrow> int (length b)) s @
         extra_lines extra)) Write_Response))"

lemma mp_requested_asks:
  assumes "mp_requested E cfg mth bucket key query body extra t (Ok u, http, buf) t'"
  shows "\<exists>q r. mp_asks E cfg mth bucket key query body extra q \<and> requests t' = (q, r) # requests t \<and>
    response_text buf = reply_text r"
  using assms unfolding mp_requested_def mp_asks_def fst_conv snd_conv is_Ok.simps by blast

text \<open>The arguments for which no line and no URL of a multipart request is cut off.\<close>

definition mp_ok :: "s3_config \<Rightarrow> string \<Rightarrow> string option \<Rightarrow> bool" where
  "mp_ok cfg bucket key \<longleftrightarrow> sig_ok cfg ''DELETE'' bucket key \<and>
     length (endpoint cfg @ object_path bucket key) < 3500"

lemma wp_mp_request:
  assumes "mp_ok cfg bucket key" "requests_env E" "length mth \<le> 6" "query \<noteq> []" "length query \<le> 511"
    and "case body of None \<Rightarrow> True | Some b \<Rightarrow> length b < 2 ^ 62"
    and "case extra of None \<Rightarrow> True | Some (n, v) \<Rightarrow> length n + length v < 2298"
    and "\<And>q r http buf t'. mp_asks E cfg mth bucket key query body extra q \<Longrightarrow> requests t' = (q, r) # requests t \<Longrightarrow>
      suffix t t' \<Longrightarrow> response_text buf = reply_text r \<Longrightarrow> Q (Ok (), http, buf) t'"
    and "\<And>e http buf t'. Q (Fail e, http, buf) t'"
  shows "wp (s3_request E cfg mth bucket key (Some query) (Some query) body extra response_zero errlen) Q t"
proof -
  have ok: "mp_request_ok cfg mth bucket key query"
    using assms(1,3,4,5) by (simp add: mp_ok_def mp_request_ok_def sig_ok_def)
  have env: "current_clock E" "headers_alloc E" using assms(2) by (simp_all add: requests_env_def)
  show ?thesis
  proof (rule wp_grows_post [OF grows_s3_request wp_s3_request [OF ok env assms(6,7)]])
    fix a :: "unit result \<times> int \<times> response_buf" and t'
    obtain rc http buf where a: "a = (rc, http, buf)" by (metis prod_cases3)
    assume "mp_requested E cfg mth bucket key query body extra t a t'" "suffix t t'"
    then show "Q a t'"
      using assms(8,9) unfolding a by (cases rc) (auto dest!: mp_requested_asks)
  qed
qed

lemma quiet_free_response: "quiet (free_response buf)"
  by (auto simp: free_response_def intro!: emits_return quiet_calls split: option.split)

lemma wp_s3_create_multipart:
  assumes "mp_ok cfg bucket key" "requests_env E"
    and "\<And>q r uid t'. mp_asks E cfg ''POST'' bucket key ''uploads='' None None q \<Longrightarrow>
      requests t' = (q, r) # requests t \<Longrightarrow> suffix t t' \<Longrightarrow> parse_upload_id (reply_text r) n = Some uid \<Longrightarrow> Q (Ok uid) t'"
    and "\<And>e t'. Q (Fail e) t'"
  shows "wp (s3_create_multipart E cfg bucket key n errlen) Q t"
  unfolding s3_create_multipart_def Let_def wp_bind
  by (rule wp_mp_request [OF assms(1,2)])
    (auto simp: wp_bind wp_return intro!: wp_quiet [OF quiet_free_response] assms(3,4) intro: suffix_order.trans split: option.split)

abbreviation part_query :: "string \<Rightarrow> int \<Rightarrow> string" where
  "part_query uid k \<equiv> ''partNumber='' @ show_int k @ ''&uploadId='' @ uid"

lemma wp_s3_upload_part_empty:
  assumes "mp_ok cfg bucket key" "requests_env E" "\<bar>k\<bar> < 2 ^ 31" "length uid \<le> 255" "length rid < 128"
    and "\<And>q r t'. mp_asks E cfg ''PUT'' bucket key (part_query uid k) None (Some (''X-RDMA-Request-ID'', rid)) q \<Longrightarrow>
      requests t' = (q, r) # requests t \<Longrightarrow> suffix t t' \<Longrightarrow> Q (Ok (part_tag k)) t'"
    and "\<And>e t'. Q (Fail e) t'"
  shows "wp (s3_upload_part_empty E cfg bucket key uid k rid 256 errlen) Q t"
proof -
  have len: "length (part_query uid k) \<le> 511" using length_part_number [OF assms(3)] assms(4) by simp
  then have query: "snprintf_str 512 (part_query uid k) = part_query uid k" by (simp add: snprintf_fits del: append_Cons)
  show ?thesis
    unfolding s3_upload_part_empty_def Let_def wp_bind query part_tag_fits [OF assms(3)]
    by (rule wp_mp_request [OF assms(1,2)])
      (use len assms(5) in \<open>auto simp: wp_bind wp_return intro!: wp_quiet [OF quiet_free_response] assms(6,7)
        intro: suffix_order.trans\<close>)
qed

lemma wp_s3_complete_multipart:
  assumes "mp_ok cfg bucket key" "requests_env E" "list_all printable cps" "length uid \<le> 255"
    and "length (complete_xml (map shown_part cps)) < 2 ^ 62"
    and "\<And>q r t'. mp_asks E cfg ''POST'' bucket key (''uploadId='' @ uid) (Some (complete_xml (map shown_part cps))) None q \<Longrightarrow>
      requests t' = (q, r) # requests t \<Longrightarrow> suffix t t' \<Longrightarrow> Q (Ok ()) t'"
    and "\<And>e t'. Q (Fail e) t'"
  shows "wp (s3_complete_multipart E cfg bucket key uid cps errlen) Q t"
proof -
  have query: "upload_query uid = ''uploadId='' @ uid"
    using assms(4) by (simp add: upload_query_def snprintf_fits)
  show ?thesis
    unfolding s3_complete_multipart_def Let_def wp_bind complete_body_fits [OF assms(3)] c_text_def option.case query
    apply (rule wp_quiet [OF quiet_calls(16)])
    apply (split option.split, intro conjI allI impI)
     apply (simp add: wp_return assms(7))
    apply (simp only: bind_left_identity wp_bind)
    apply (rule wp_mp_request [OF assms(1,2)])
          apply (use assms(4,5) in \<open>auto simp: wp_bind wp_return
            intro!: wp_quiet [OF quiet_free_response] wp_quiet [OF quiet_calls(17)] wp_quiet [OF quiet_calls(1)] assms(6,7)
            intro: suffix_order.trans\<close>)
    done
qed

text \<open>
  The same requests as AWS Signature Version 4 specifies them, of a path and of parameters that need no encoding.
\<close>

definition aws_asks ::
  "env \<Rightarrow> s3_config \<Rightarrow> string \<Rightarrow> string \<Rightarrow> string option \<Rightarrow> (string \<times> string) list \<Rightarrow> string option \<Rightarrow>
   (string \<times> string) option \<Rightarrow> curl_opts \<Rightarrow> bool" where
  "aws_asks E cfg mth bucket key params body extra q \<longleftrightarrow> (\<exists>h s. q = method_opts mth body
     (base_opts (endpoint cfg @ object_path bucket key @ ''?'' @ query_string params) (Some (h,
       [''Host: '' @ host_of (endpoint cfg), ''x-amz-date: '' @ amz_date (gmtime s),
        ''Authorization: '' @ aws_authorization E cfg (gmtime s) mth (object_path bucket key) params
          (mp_signed_headers (case body of None \<Rightarrow> - 1 | Some b \<Rightarrow> int (length b)) cfg (gmtime s)),
        ''Accept:'', ''Content-Type:''] @ extra_lines extra)) Write_Response))"

lemma mp_asks_aws:
  assumes "plain True (object_path bucket key)" "plain_params params"
    and "mp_asks E cfg mth bucket key (query_string params) body extra q"
  shows "aws_asks E cfg mth bucket key params body extra q"
  using assms(3) unfolding mp_asks_def aws_asks_def mp_lines_def aws_authorization_plain [OF assms(1,2)] by blast

lemma plain_queries:
  "query_string [(''uploads'', [])] = ''uploads=''" "query_string [(''uploadId'', uid)] = ''uploadId='' @ uid"
  "query_string [(''partNumber'', show_int k), (''uploadId'', uid)] = part_query uid k"
  by (simp_all add: query_string_def)

lemma plain_names:
  "plain False ''uploads''" "plain False ''partNumber''" "plain False ''uploadId''" "name_le ''partNumber'' ''uploadId''"
  by code_simp+

lemma plain_upload_params:
  "plain_params [(''uploads'', [])]" "plain False uid \<Longrightarrow> plain_params [(''uploadId'', uid)]"
  "plain False uid \<Longrightarrow> 0 \<le> k \<Longrightarrow> plain_params [(''partNumber'', show_int k), (''uploadId'', uid)]"
  using plain_names by (simp_all add: plain_params_def plain_show_int)

text \<open>
  The request that announces part \<open>k\<close> of an upload after the requests \<open>rs\<close>: it carries its own request id, under which
  a session was registered after \<open>rs\<close>. Then the requests of a list of parts, one after the other, from the
  requests \<open>rs\<close> to the requests \<open>rs'\<close>.
\<close>

abbreviation part_url :: "options \<Rightarrow> string" where
  "part_url opts \<equiv> mp_ws_url_from_endpoint (op_endpoint opts) 512"

definition part_request ::
  "env \<Rightarrow> options \<Rightarrow> string \<Rightarrow> string \<Rightarrow> trace \<Rightarrow> trace \<Rightarrow> int \<Rightarrow> (curl_opts \<times> curl_reply) list \<Rightarrow> curl_opts \<times> curl_reply \<Rightarrow> bool" where
  "part_request E opts bucket uid t t' k rs qr \<longleftrightarrow> (\<exists>rid now. rid = part_request_id (env_pid E) k now \<and>
     registered (part_url opts) rid rs t t' \<and>
     aws_asks E (mp_config_of opts) ''PUT'' bucket (op_object opts) [(''partNumber'', show_int k), (''uploadId'', uid)] None
       (Some (''X-RDMA-Request-ID'', rid)) (fst qr))"

fun part_requests ::
  "env \<Rightarrow> options \<Rightarrow> string \<Rightarrow> string \<Rightarrow> trace \<Rightarrow> trace \<Rightarrow> int list \<Rightarrow> (curl_opts \<times> curl_reply) list \<Rightarrow>
   (curl_opts \<times> curl_reply) list \<Rightarrow> bool" where
  "part_requests E opts bucket uid t t' [] rs rs' \<longleftrightarrow> rs' = rs"
| "part_requests E opts bucket uid t t' (k # ks) rs rs' \<longleftrightarrow>
     (\<exists>qr. part_request E opts bucket uid t t' k rs qr \<and> part_requests E opts bucket uid t t' ks (qr # rs) rs')"

lemma part_request_later:
  "part_request E opts bucket uid t t1 k rs qr \<Longrightarrow> suffix t1 t' \<Longrightarrow> part_request E opts bucket uid t t' k rs qr"
  unfolding part_request_def using registered_later by blast

lemma part_requests_later:
  "part_requests E opts bucket uid t t1 ks rs rs' \<Longrightarrow> suffix t1 t' \<Longrightarrow> part_requests E opts bucket uid t t' ks rs rs'"
  by (induction ks arbitrary: rs) (auto dest: part_request_later)

text \<open>What the requests of a multipart upload rely on.\<close>

definition plain_upload :: "env \<Rightarrow> options \<Rightarrow> string \<Rightarrow> bool" where
  "plain_upload E opts bucket \<longleftrightarrow> mp_ok (mp_config_of opts) bucket (op_object opts) \<and> requests_env E \<and>
     plain True (object_path bucket (op_object opts)) \<and> length (op_endpoint opts) \<le> 340"

lemma quiet_mmap_part: "quiet (mmap_part E f offset len errlen)"
  unfolding mmap_part_def Let_def
  by (auto intro!: emits_bind emits_return quiet_calls split: option.split)

lemma wp_upload_one_part:
  assumes "plain_upload E opts bucket" "0 \<le> k" "k < 2 ^ 31" "length uid \<le> 255" "plain False uid" "suffix tb t"
    and "\<And>cp qr t'. part_request E opts bucket uid tb t' k (requests t) qr \<Longrightarrow> requests t' = qr # requests t \<Longrightarrow>
      suffix t t' \<Longrightarrow> cp = \<lparr>cp_number = k, cp_etag = Some (part_tag k), cp_size = Some len\<rparr> \<Longrightarrow> Q (Ok cp) t'"
    and "\<And>e t'. Q (Fail e) t'"
  shows "wp (upload_one_part_rdma E (mp_config_of opts) opts bucket f uid k offset len errlen) Q t"
proof -
  let ?cfg = "mp_config_of opts" and ?key = "op_object opts"
  have env: "mp_ok ?cfg bucket ?key" "requests_env E" "plain True (object_path bucket ?key)" "length (part_url opts) \<le> 361"
    using assms(1) length_mp_ws_url [of "op_endpoint opts" 512] by (simp_all add: plain_upload_def)
  have k: "\<bar>k\<bar> < 2 ^ 31" using assms(2,3) by simp
  have rid: "length (part_request_id pid k now) < 128" for pid now
    unfolding part_request_id_def by (rule snprintf_length) simp
  then have rid200: "length (part_request_id pid k now) < 200" for pid now
    by (rule less_trans) simp
  have asked: "part_request E opts bucket uid tb t2 k (requests t) qr"
    if "registered (part_url opts) (part_request_id (env_pid E) k now) (requests t) tb t1" "suffix t1 t2"
      "mp_asks E ?cfg ''PUT'' bucket ?key (part_query uid k) None
        (Some (''X-RDMA-Request-ID'', part_request_id (env_pid E) k now)) (fst qr)" for now t1 t2 qr
    unfolding part_request_def
    using registered_later [OF that(1,2)]
      mp_asks_aws [OF env(3) plain_upload_params(3) [OF assms(5,2)]] that(3) plain_queries(3) by metis
  show ?thesis
    unfolding upload_one_part_rdma_def Let_def wp_bind
    apply (rule wp_quiet [OF quiet_mmap_part])
    apply (split result.split, intro conjI allI impI)
     apply (split prod.split, intro allI impI)
     apply (simp only: wp_bind)
     apply (rule wp_getpid, rule wp_quiet [OF quiet_calls(4)])
     apply (rule session_registers(2) [OF env(4) rid200, where tb = tb])
       apply (use assms(6) in \<open>meson suffix_order.trans\<close>)
      apply (simp only: result.case wp_bind)
      apply (rule wp_s3_upload_part_empty [OF env(1,2) k assms(4) rid])
       apply (rule wp_quiet [OF quiet_session(3)], rule wp_quiet [OF quiet_calls(6)])
       subgoal for _ _ _ _ _ t1 now t2 _ t3 q r t4 _ t5 _ t6
         unfolding wp_return result.case
         by (rule assms(7) [of t6 "(q, r)"], rule asked [where ?t1.0 = t3])
           (use length_part_tag [OF k] in \<open>auto intro: suffix_order.trans\<close>)
      apply (auto simp: wp_return wp_bind intro!: wp_quiet [OF quiet_session(3)] wp_quiet [OF quiet_calls(6)] assms(8))
    done
qed

lemma wp_upload_loop:
  assumes "plain_upload E opts bucket" "length uid \<le> 255" "plain False uid" "end_part < 2 ^ 31"
    and Q: "\<And>cps t'. part_requests E opts bucket uid tb t' [k .. end_part] (requests t) (requests t') \<Longrightarrow> suffix t t' \<Longrightarrow>
      cps = slots @ map (uploaded_part file_size (op_part_size opts)) [k .. end_part] \<Longrightarrow> Q (Ok cps) t'"
    and "\<And>e t'. Q (Fail e) t'" "0 \<le> k" "suffix tb t"
  shows "wp (upload_loop E (mp_config_of opts) opts bucket f uid file_size num errlen end_part k slots) Q t"
  using Q assms(7,8)
proof (induction "nat (end_part + 1 - k)" arbitrary: k slots t rule: less_induct)
  case less
  show ?case
  proof (cases "k \<le> end_part")
    case False
    then show ?thesis
      using less.prems(1) [of t slots] by (subst upload_loop.simps) (simp add: wp_return)
  next
    case True
    let ?cp = "\<lparr>cp_number = k, cp_etag = Some (part_tag k), cp_size = Some (part_length file_size (op_part_size opts) k)\<rparr>"
    have rest: "wp (upload_loop E (mp_config_of opts) opts bucket f uid file_size num errlen end_part (k + 1) (slots @ [?cp])) Q t'"
      if qr: "part_request E opts bucket uid tb t1 k (requests t) qr" "requests t1 = qr # requests t"
        "requests t' = requests t1" "suffix t1 t'" "suffix t t1" for qr t1 t'
    proof (rule less.hyps)
      show "nat (end_part + 1 - (k + 1)) < nat (end_part + 1 - k)" using True by simp
      show "0 \<le> k + 1" using less.prems(2) by simp
      show "suffix tb t'" using less.prems(3) qr(4,5) by (meson suffix_order.trans)
      fix cps t''
      assume t'': "part_requests E opts bucket uid tb t'' [k + 1 .. end_part] (requests t') (requests t'')" "suffix t' t''"
        "cps = (slots @ [?cp]) @ map (uploaded_part file_size (op_part_size opts)) [k + 1 .. end_part]"
      have s: "suffix t1 t''" "suffix t t''" using qr(4,5) t''(2) by (meson suffix_order.trans)+
      have "part_requests E opts bucket uid tb t'' [k .. end_part] (requests t) (requests t'')"
        unfolding upto_rec1 [OF True] part_requests.simps
        by (rule exI [of _ qr]) (use part_request_later [OF qr(1) s(1)] t''(1) qr(2,3) in simp)
      then show "Q (Ok cps) t''"
        by (rule less.prems(1)) (use True t''(3) s(2) in \<open>simp_all add: upto_rec1 [of k] uploaded_part_def\<close>)
    qed
    have check: "quiet (if b then emit (Undefined m) else ret ())" for b m
      by (auto intro!: quiet_calls emits_return)
    have k: "k < 2 ^ 31" using True assms(4) by simp
    show ?thesis
      apply (subst upload_loop.simps)
      apply (simp only: True if_True Let_def wp_bind)
      apply (rule wp_quiet [OF quiet_calls(1)])
      apply (rule wp_upload_one_part [OF assms(1) less.prems(2) k assms(2,3), where tb = tb])
        apply (use less.prems(3) in \<open>meson suffix_order.trans\<close>)
       apply (simp only: result.case c_text_def completed_part.select_convs option.case bind_left_identity wp_bind)
       apply (rule wp_quiet [OF quiet_calls(1)], rule wp_quiet [OF check])
       apply (rule rest, assumption, assumption, simp, meson suffix_order.trans, meson suffix_order.trans)
      apply (simp add: wp_return assms(6))
      done
  qed
qed

text \<open>The numbers of all parts of a file of \<open>n\<close> bytes: one for each started multiple of the part size.\<close>

abbreviation all_parts :: "options \<Rightarrow> int \<Rightarrow> int list" where
  "all_parts opts n \<equiv> [1 .. (n + op_part_size opts - 1) div op_part_size opts]"

lemma all_parts_sent:
  "op_part opts = 0 \<Longrightarrow> count_fits n (op_part_size opts) \<Longrightarrow> 0 < n \<Longrightarrow> sent_numbers n opts = all_parts opts n"
  by (simp add: sent_numbers_def part_count_exact)

lemma wp_upload_parts:
  assumes "plain_upload E opts bucket" "length uid \<le> 255" "plain False uid" "suffix tb t"
    and Q: "\<And>h n t'. part_requests E opts bucket uid tb t' (sent_numbers n opts) (requests t) (requests t') \<Longrightarrow> suffix t t' \<Longrightarrow>
      sized path n t t' \<Longrightarrow> \<exists>tr f. env_fstat E tr f = Some n \<Longrightarrow> 0 < n \<Longrightarrow> 0 \<le> op_part opts \<Longrightarrow>
      op_part opts \<le> part_count n (op_part_size opts) \<Longrightarrow> Q (Ok (h, sent_parts n opts)) t'"
    and "\<And>e t'. Q (Fail e) t'"
  shows "wp (upload_parts_rdma E (mp_config_of opts) opts bucket path uid errlen) Q t"
proof (rule wp_upload_parts_rdma)
  fix n h t1
  assume st: "started E opts path t n h t1"
  then have n: "\<exists>tr f. env_fstat E tr f = Some n" "0 < n" "0 \<le> op_part opts" "op_part opts \<le> part_count n (op_part_size opts)"
    and t1: "requests t1 = requests t" "suffix t t1"
    by (auto simp: started_def suffix_Cons)
  have tb: "suffix tb t1" using assms(4) t1(2) by (rule suffix_order.trans)
  have first: "0 \<le> first_part opts" by simp
  show "wp (upload_loop E (mp_config_of opts) opts bucket (length t) uid n (part_count n (op_part_size opts)) errlen (last_part opts n)
      (first_part opts) []) (\<lambda>r t2. \<forall>cps. r = Ok cps \<longrightarrow> Q (Ok (h, cps)) (File (Fclose (length t)) # t2)) t1"
  proof (rule wp_upload_loop [OF assms(1-3) sent_range(2) [OF n(3,4)] _ _ first tb])
    fix cps t2
    assume t2: "part_requests E opts bucket uid tb t2 [first_part opts .. last_part opts n] (requests t1) (requests t2)"
      "suffix t1 t2" "cps = [] @ map (uploaded_part n (op_part_size opts)) [first_part opts .. last_part opts n]"
    let ?t = "File (Fclose (length t)) # t2"
    have s: "suffix t2 ?t" by (simp add: suffix_ConsI)
    have "part_requests E opts bucket uid tb ?t (sent_numbers n opts) (requests t) (requests ?t)"
      using part_requests_later [OF t2(1) s] by (simp add: sent_parts_loop(1) t1(1))
    moreover have "suffix t ?t" "sized path n t ?t"
      using t1(2) t2(2) s sized_later [OF started_sized [OF st]] by (meson suffix_order.trans)+
    ultimately show "\<forall>cps'. Ok cps = Ok cps' \<longrightarrow> Q (Ok (h, cps')) ?t"
      using n t2(3) Q by (simp add: sent_parts_loop(2))
  qed simp
qed (rule assms(6))

text \<open>
  A multipart upload that ends with status 0: a request that creates the upload, one request for each part of the file
  in order, for the size that the file was found to have in this run, and the completion, which lists exactly the
  parts that were sent, with the client's placeholder for the entity tag.
\<close>

definition all_requests :: "env \<Rightarrow> options \<Rightarrow> string \<Rightarrow> string \<Rightarrow> trace \<Rightarrow> trace \<Rightarrow> bool" where
  "all_requests E opts bucket path t t' \<longleftrightarrow> (\<exists>q0 r0 uid tu n rs qc rc.
     aws_asks E (mp_config_of opts) ''POST'' bucket (op_object opts) [(''uploads'', [])] None None q0 \<and>
     parse_upload_id (reply_text r0) 256 = Some uid \<and>
     suffix t tu \<and> requests tu = (q0, r0) # requests t \<and> sized path n tu t' \<and> 0 < n \<and>
     part_requests E opts bucket uid t t' (all_parts opts n) ((q0, r0) # requests t) rs \<and>
     aws_asks E (mp_config_of opts) ''POST'' bucket (op_object opts) [(''uploadId'', uid)]
       (Some (complete_xml (map (\<lambda>k. (k, part_tag k)) (all_parts opts n)))) None qc \<and>
     requests t' = (qc, rc) # rs)"

lemma shown_sent_parts: "map shown_part (sent_parts n opts) = map (\<lambda>k. (k, part_tag k)) (sent_numbers n opts)"
  by (simp add: sent_parts_def uploaded_part_def shown_part_def shown_etag_def part_tag_def)

lemma length_complete_xml:
  assumes "list_all printable cps"
  shows "length (complete_xml (map shown_part cps)) \<le> 51 + 317 * length cps"
proof -
  have "length (concat (map (part_xml \<circ> shown_part) cps)) \<le> 317 * length cps"
    using assms by (induction cps) (auto dest: length_part_xml)
  then show ?thesis by (simp add: complete_xml_def)
qed

lemma length_sent_parts: "length (sent_parts n opts) < 2 ^ 31"
proof -
  have "nat (part_count n (op_part_size opts)) < 2 ^ 31"
    using part_count_int [of n "op_part_size opts"]
    by (cases "0 \<le> part_count n (op_part_size opts)") (simp_all add: nat_less_iff)
  then show ?thesis by (simp add: sent_parts_def sent_numbers_def)
qed

lemma upload_id_length: "parse_upload_id xml 256 = Some uid \<Longrightarrow> length uid \<le> 255"
  unfolding parse_upload_id_def by (drule find_tag_text_length) auto

text \<open>The upload ids of the server need no encoding.\<close>

definition plain_ids :: "env \<Rightarrow> bool" where
  "plain_ids E \<longleftrightarrow> (\<forall>r uid. server_reply E r \<and> parse_upload_id (reply_text r) 256 = Some uid \<longrightarrow> plain False uid)"

lemma create_law:
  "yields (\<lambda>r. \<forall>uid. r = Ok uid \<longrightarrow> (\<exists>reply. server_reply E reply \<and> parse_upload_id (reply_text reply) n = Some uid))
   (s3_create_multipart E cfg bucket key n errlen)"
  unfolding s3_create_multipart_def Let_def
  by (rule yields_bind_post [OF s3_request_reply])
    (auto simp: is_Ok_iff intro!: yields_bindI yields_returnI split: result.splits option.splits)

lemma wp_created:
  assumes "plain_upload E opts bucket" "plain_ids E"
    and "\<And>q r uid t'. aws_asks E (mp_config_of opts) ''POST'' bucket (op_object opts) [(''uploads'', [])] None None q \<Longrightarrow>
      requests t' = (q, r) # requests t \<Longrightarrow> suffix t t' \<Longrightarrow> parse_upload_id (reply_text r) 256 = Some uid \<Longrightarrow>
      plain False uid \<Longrightarrow> Q (Ok uid) t'"
    and "\<And>e t'. Q (Fail e) t'"
  shows "wp (s3_create_multipart E (mp_config_of opts) bucket (op_object opts) 256 errlen) Q t"
proof -
  let ?m = "s3_create_multipart E (mp_config_of opts) bucket (op_object opts) 256 errlen"
  have env: "mp_ok (mp_config_of opts) bucket (op_object opts)" "requests_env E" "plain True (object_path bucket (op_object opts))"
    using assms(1) by (simp_all add: plain_upload_def)
  have "wp ?m (\<lambda>r t'. (\<forall>uid. r = Ok uid \<longrightarrow> plain False uid) \<longrightarrow> Q r t') t"
    by (rule wp_s3_create_multipart [OF env(1,2)])
      (use assms(4) in \<open>auto intro!: assms(3) mp_asks_aws [OF env(3) plain_upload_params(1)] simp: plain_queries(1)\<close>)
  from wp_conj [OF this yields_wp [OF create_law]] show ?thesis
    by (rule wp_mono) (use assms(2) in \<open>auto simp: plain_ids_def\<close>)
qed

lemma wp_do_all:
  assumes "plain_upload E opts bucket" "plain_ids E" "op_part opts = 0"
    and fits: "\<And>tr f n. env_fstat E tr f = Some n \<Longrightarrow> count_fits n (op_part_size opts)"
  shows "wp (do_all E opts bucket path) (on_success (all_requests E opts bucket path t)) t"
proof -
  let ?cfg = "mp_config_of opts" and ?key = "op_object opts"
  have env: "mp_ok ?cfg bucket ?key" "requests_env E" "plain True (object_path bucket ?key)"
    using assms(1) by (simp_all add: plain_upload_def)
  have finish: "quiet (do { emit (Stdout m); c_free h; ret (0::int) })" for m h
    by (auto intro!: emits_bind emits_return quiet_calls)
  have complete: "wp (s3_complete_multipart E ?cfg bucket ?key u (sent_parts n opts) 1024)
      (\<lambda>c. wp (case c of
          Fail e \<Rightarrow> do { emit (Stderr (m e)); c_free h; ret 1 }
        | Ok _ \<Rightarrow> do { emit (Stdout m'); c_free h; ret 0 }) (on_success (all_requests E opts bucket path t))) t2"
    if asm: "sized path n t1 t2" "aws_asks E ?cfg ''POST'' bucket ?key [(''uploads'', [])] None None q0" "requests t1 = (q0, r0) # requests t"
      "parse_upload_id (reply_text r0) 256 = Some u" "plain False u" "suffix t t1"
      "part_requests E opts bucket u t t2 (sent_numbers n opts) (requests t1) (requests t2)"
      "\<exists>tr f. env_fstat E tr f = Some n" "0 < n" "0 \<le> op_part opts" "op_part opts \<le> part_count n (op_part_size opts)"
    for q0 r0 u n t1 t2 h m m'
  proof (rule wp_s3_complete_multipart [OF env(1,2) sent_parts_printable upload_id_length])
    note p = sent_parts_printable [OF that(10,11)]
    have all: "sent_numbers n opts = all_parts opts n"
      using that(8,9) fits assms(3) by (auto intro: all_parts_sent)
    show "length (complete_xml (map shown_part (sent_parts n opts))) < 2 ^ 62"
      using length_complete_xml [OF p] length_sent_parts [of n opts] by simp
    show "wp (case Fail e of
          Fail e \<Rightarrow> do { emit (Stderr (m e)); c_free h; ret 1 }
        | Ok _ \<Rightarrow> do { emit (Stdout m'); c_free h; ret 0 }) (on_success (all_requests E opts bucket path t)) t3" for e t3
      by (auto intro!: wp_failed yields_bindI yields_returnI)
    fix q r t3
    assume q: "mp_asks E ?cfg ''POST'' bucket ?key (''uploadId='' @ u)
        (Some (complete_xml (map shown_part (sent_parts n opts)))) None q" "requests t3 = (q, r) # requests t2" "suffix t2 t3"
    have c: "aws_asks E ?cfg ''POST'' bucket ?key [(''uploadId'', u)]
        (Some (complete_xml (map (\<lambda>k. (k, part_tag k)) (all_parts opts n)))) None q"
      by (rule mp_asks_aws [OF env(3) plain_upload_params(2) [OF that(5)]])
        (use q(1) in \<open>simp add: shown_sent_parts all plain_queries(2)\<close>)
    have "all_requests E opts bucket path t t4" if t4: "requests t4 = requests t3" "suffix t3 t4" for t4
    proof -
      have s: "suffix t2 t4" using q(3) t4(2) by (rule suffix_order.trans)
      have parts: "part_requests E opts bucket u t t4 (all_parts opts n) ((q0, r0) # requests t) (requests t2)"
        using part_requests_later [OF asm(7) s] asm(3) by (simp add: all)
      show ?thesis
        unfolding all_requests_def
        by (rule exI [of _ q0], rule exI [of _ r0], rule exI [of _ u], rule exI [of _ t1], rule exI [of _ n],
            rule exI [of _ "requests t2"], rule exI [of _ q], rule exI [of _ r])
          (use asm(2-4,6,9) c parts q(2) t4(1) sized_later [OF asm(1) s] in simp)
    qed
    then show "wp (case Ok () of
          Fail e \<Rightarrow> do { emit (Stderr (m e)); c_free h; ret 1 }
        | Ok _ \<Rightarrow> do { emit (Stdout m'); c_free h; ret 0 }) (on_success (all_requests E opts bucket path t)) t3"
      unfolding result.case by (rule wp_quiet_end [OF finish])
  qed (use that in auto)
  show ?thesis
    unfolding do_all_def Let_def wp_bind
    apply (rule wp_created [OF assms(1,2)])
     apply (simp only: result.case wp_bind)
     apply (rule wp_quiet [OF quiet_calls(2)])
     apply (rule wp_upload_parts [OF assms(1) upload_id_length, where tb = t], assumption, assumption)
       apply (meson suffix_order.trans)
      apply (simp only: result.case prod.case wp_bind)
      apply (rule complete, assumption, assumption, assumption, assumption, assumption, meson suffix_order.trans,
        simp, assumption, assumption, assumption, assumption)
     apply (auto simp: exit_error_def intro!: wp_failed yields_bindI yields_returnI)
    done
qed

subsection \<open>A failed upload is aborted\<close>

text \<open>The abort of an upload: it was accepted, or its failure is the last message of the run.\<close>

definition aborted :: "env \<Rightarrow> options \<Rightarrow> string \<Rightarrow> string \<Rightarrow> trace \<Rightarrow> trace \<Rightarrow> bool" where
  "aborted E opts bucket uid t t' \<longleftrightarrow>
     (\<exists>q r. requests t' = (q, r) # requests t \<and>
        mp_asks E (mp_config_of opts) ''DELETE'' bucket (op_object opts) (''uploadId='' @ uid) None None q) \<or>
     (\<exists>m t0. t' = Stderr (''AbortMultipartUpload error: '' @ m @ nl) # t0)"

lemma wp_s3_abort_multipart:
  assumes "mp_ok cfg bucket key" "requests_env E" "length uid \<le> 255"
    and "\<And>q r t'. mp_asks E cfg ''DELETE'' bucket key (''uploadId='' @ uid) None None q \<Longrightarrow>
      requests t' = (q, r) # requests t \<Longrightarrow> Q (Ok ()) t'"
    and "\<And>e t'. Q (Fail e) t'"
  shows "wp (s3_abort_multipart E cfg bucket key uid errlen) Q t"
proof -
  have query: "upload_query uid = ''uploadId='' @ uid"
    using assms(3) by (simp add: upload_query_def snprintf_fits)
  show ?thesis
    unfolding s3_abort_multipart_def Let_def wp_bind query
    by (rule wp_mp_request [OF assms(1,2)])
      (use assms(3) in \<open>auto simp: wp_bind wp_return intro!: wp_quiet [OF quiet_free_response] assms(4,5)\<close>)
qed

lemma wp_of_run: "run_state m t = (a, t') \<Longrightarrow> wp m Q t = Q a t'"
  by (simp add: wp_def)

lemma do_all_aborts:
  assumes "mp_ok (mp_config_of opts) bucket (op_object opts)" "requests_env E"
    and "run_state (s3_create_multipart E (mp_config_of opts) bucket (op_object opts) 256 1024) t = (Ok uid, t1)"
    and "run_state (upload_parts_rdma E (mp_config_of opts) opts bucket path uid 1024)
      (Stdout (''Successfully created multipart upload'' @ nl @ ''Upload ID: '' @ uid @ nl) # t1) = (Fail e, t2)"
  shows "wp (do_all E opts bucket path) (\<lambda>rc t'. rc = 1 \<and> aborted E opts bucket uid t2 t') t"
proof -
  have "wp (s3_create_multipart E (mp_config_of opts) bucket (op_object opts) 256 1024)
      (\<lambda>r _. \<forall>u. r = Ok u \<longrightarrow> length u \<le> 255) t"
    by (rule wp_s3_create_multipart [OF assms(1,2)]) (auto dest: upload_id_length)
  from wp_run [OF this assms(3)] have uid: "length uid \<le> 255" by simp
  show ?thesis
    unfolding do_all_def Let_def wp_bind wp_of_run [OF assms(3)] result.case wp_ext_call fst_conv snd_conv
      wp_of_run [OF assms(4)]
    by (rule wp_s3_abort_multipart [OF assms(1,2) uid]) (auto simp: wp_return aborted_def wp_ext_call)
qed

end
