(* ===== verification/Liveness.thy ===== *)
theory Liveness
  imports EndToEnd
begin

text \<open>
  Progress: with a network, a device and an allocator that do not fail and a server that follows the
  protocol, a session is set up and the single-object programs end with status 0, however the server's
  bytes are split into segments.
\<close>

subsection \<open>Reading from the server\<close>

text \<open>Nothing was read yet from a descriptor that does not exist yet.\<close>

definition unread :: "trace \<Rightarrow> bool" where
  "unread t \<longleftrightarrow> (\<forall>fd. length t \<le> fd \<longrightarrow> consumed fd t = 0)"

abbreviation readless :: "'a io \<Rightarrow> bool" where
  "readless m \<equiv> emits (\<lambda>e. \<forall>fd. read_count fd e = 0) m"

lemma readless_run:
  assumes "readless m" "run_state m t = (a, t')"
  shows "consumed fd t' = consumed fd t \<and> length t \<le> length t'"
  using emits_run [OF assms] by (auto simp: consumed_def list_all_iff)

lemma wp_readless:
  assumes "readless m" "yields P m"
    and "\<And>a t'. P a \<Longrightarrow> (\<And>fd. consumed fd t' = consumed fd t) \<Longrightarrow> length t \<le> length t' \<Longrightarrow> Q a t'"
  shows "wp m Q t"
  by (rule wp_runI) (use assms(3) readless_run [OF assms(1)] yields_run [OF assms(2)] in blast)

lemma unread_later:
  "unread t \<Longrightarrow> (\<And>fd. consumed fd t' = consumed fd t) \<Longrightarrow> length t \<le> length t' \<Longrightarrow> unread t'"
  by (auto simp: unread_def)

lemma read_count_pos: "read_count fd e \<noteq> 0 \<Longrightarrow> \<exists>n bs. e = Net (Read fd n (Some bs))"
  by (cases "(fd, e)" rule: read_count.cases) (auto split: if_splits)

text \<open>The traces of safe programs are such: a read needs a live descriptor.\<close>

lemma safe_unread: "safe t \<Longrightarrow> unread t"
proof (induction t)
  case Nil
  then show ?case by (simp add: unread_def consumed_def)
next
  case (Cons e t)
  have "read_count fd e = 0" if "length t < fd" for fd
  proof (rule ccontr)
    assume "read_count fd e \<noteq> 0"
    then obtain n bs where "e = Net (Read fd n (Some bs))"
      using read_count_pos by blast
    with Cons.prems have "holds KFd fd (live t)" "safe t" by auto
    then have "fd < length t" by (auto simp: holds_def dest: live_handles)
    with that show False by simp
  qed
  with Cons show ?case by (auto simp: unread_def)
qed

text \<open>The head of the upgrade response: it ends with the first blank line.\<close>

definition response_head :: "string \<Rightarrow> bool" where
  "response_head s \<longleftrightarrow> length s \<le> 2047 \<and> suffix (crlf @ crlf) s \<and>
     (\<forall>j < length s. \<not> suffix (crlf @ crlf) (take j s)) \<and> ws_upgrade_ok (cstring s)"

lemma read_one:
  assumes "delivers E fd (pre @ b # rest)" "consumed fd t = length pre"
  shows "\<exists>t'. run_state (c_read E fd 1) t = (Some [b], t') \<and> consumed fd t' = Suc (length pre)"
proof -
  obtain k t' where k: "0 < k" "k \<le> 1"
    and run: "run_state (c_read E fd 1) t = (Some (take k (drop (consumed fd t) (pre @ b # rest))), t')"
      "consumed fd t' = consumed fd t + k"
    using c_read_delivers [OF assms(1), of 1 t] assms(2) by auto
  from k have "k = 1" by simp
  with run assms(2) show ?thesis by simp
qed

lemma suffix_crlf: "4 \<le> length s \<and> drop (length s - 4) s = crlf @ crlf \<longleftrightarrow> suffix (crlf @ crlf) s"
proof -
  have "suffix (crlf @ crlf) s \<longleftrightarrow> (\<exists>p. s = p @ crlf @ crlf)" by (simp add: suffix_def)
  also have "\<dots> \<longleftrightarrow> 4 \<le> length s \<and> drop (length s - 4) s = crlf @ crlf"
  proof (intro iffI; elim exE conjE)
    assume "drop (length s - 4) s = crlf @ crlf"
    then show "\<exists>p. s = p @ crlf @ crlf" by (metis append_take_drop_id)
  qed simp_all
  finally show ?thesis ..
qed

lemma response_step:
  assumes "length resp < 2047" "run_state (c_read E fd 1) t = (Some [b], t1)"
  shows "ws_response_loop E fd resp t =
    (if suffix (crlf @ crlf) (resp @ [char_of_byte b]) then (Some (resp @ [char_of_byte b]), t1)
     else ws_response_loop E fd (resp @ [char_of_byte b]) t1)"
  unfolding suffix_crlf [symmetric]
  by (subst ws_response_loop.simps) (simp only: assms if_True prod.case option.case list.case Let_def)

lemma response_loop_reads:
  assumes "delivers E fd (bytes_of s @ rest)" "response_head s"
  shows "k < length s \<Longrightarrow> consumed fd t = k \<Longrightarrow>
    \<exists>t'. ws_response_loop E fd (take k s) t = (Some s, t') \<and> consumed fd t' = length s"
proof (induction "length s - k" arbitrary: k t)
  case 0
  then show ?case by simp
next
  case (Suc m)
  have split: "bytes_of s @ rest = bytes_of (take k s) @ byte_of_char (s ! k) # bytes_of (drop (Suc k) s) @ rest"
    using arg_cong [OF id_take_nth_drop [OF Suc.prems(1)], of bytes_of] by (simp add: bytes_of_def)
  obtain t1 where t1: "run_state (c_read E fd 1) t = (Some [byte_of_char (s ! k)], t1)" "consumed fd t1 = Suc k"
    using read_one [of E fd "bytes_of (take k s)", OF assms(1) [unfolded split]] Suc.prems by auto
  have short: "length (take k s) < 2047" using assms(2) Suc.prems(1) by (simp add: response_head_def)
  have step: "take k s @ [s ! k] = take (Suc k) s" using Suc.prems(1) by (simp add: take_Suc_conv_app_nth)
  note loop = response_step [OF short t1(1), unfolded char_byte_inverse step]
  show ?case
  proof (cases "Suc k = length s")
    case True
    then have "take (Suc k) s = s" by simp
    with assms(2) t1(2) True loop show ?thesis by (simp add: response_head_def)
  next
    case False
    with Suc.prems(1) have lt: "Suc k < length s" by simp
    then have "\<not> suffix (crlf @ crlf) (take (Suc k) s)" using assms(2) by (simp add: response_head_def)
    moreover have "\<exists>t'. ws_response_loop E fd (take (Suc k) s) t1 = (Some s, t') \<and> consumed fd t' = length s"
      using Suc.hyps lt t1 by (intro Suc.hyps(1)) auto
    ultimately show ?thesis using loop by simp
  qed
qed

lemma wp_response_loop:
  assumes "delivers E fd (bytes_of s @ rest)" "response_head s" "consumed fd t = 0"
    and "\<And>t'. consumed fd t' = length s \<Longrightarrow> Q (Some s) t'"
  shows "wp (State (ws_response_loop E fd [])) Q t"
proof -
  have "0 < length s" using assms(2) by (cases s) (simp_all add: response_head_def)
  from response_loop_reads [OF assms(1,2) this assms(3)] assms(4) show ?thesis
    by (auto simp: wp_def)
qed

subsection \<open>A cooperating environment\<close>

text \<open>
  A network, a memory allocator and a device that do not fail. The device list holds the device that is
  asked for.
\<close>

definition names_device :: "string option \<Rightarrow> string list \<Rightarrow> bool" where
  "names_device dev names \<longleftrightarrow> names \<noteq> [] \<and> (dev = None \<or> dev = Some [] \<or> (\<exists>d \<in> set names. dev = Some d))"

definition network_works :: "env \<Rightarrow> bool" where
  "network_works E \<longleftrightarrow> (\<forall>tr h p. \<exists>n. env_getaddrinfo E tr h p = Some (Suc n)) \<and>
     (\<forall>tr a. env_socket E tr a) \<and> (\<forall>tr fd a. env_connect E tr fd a) \<and>
     (\<forall>tr fd bs. env_write E tr fd bs = int (length bs)) \<and> (\<forall>tr n. env_malloc E tr n)"

definition device_works :: "env \<Rightarrow> string option \<Rightarrow> bool" where
  "device_works E dev \<longleftrightarrow> (\<forall>tr. \<exists>names. env_device_list E tr = Some names \<and> names_device dev names) \<and>
     (\<forall>tr i. env_open_device E tr i) \<and> (\<forall>tr x. env_alloc_pd E tr x) \<and> (\<forall>tr x n. env_create_cq E tr x n) \<and>
     (\<forall>tr d a. env_create_qp E tr d a \<noteq> None) \<and> (\<forall>tr q a m. env_modify_qp E tr q a m = 0) \<and>
     (\<forall>tr x p. env_query_port E tr x p \<noteq> None) \<and> (\<forall>tr x p i. env_query_gid E tr x p i \<noteq> None) \<and>
     (\<forall>tr d b n a. env_reg_mr E tr d b n a \<noteq> None)"

text \<open>
  What a server that follows the protocol sends: the head of the upgrade response, a message that accepts
  the registration, and its queue-pair parameters.
\<close>

definition accepts :: "byte list \<Rightarrow> bool" where
  "accepts reg \<longleftrightarrow> length reg < 1024 \<and> (\<forall>eb. parse_register_response (cstring (chars_of reg)) eb = Ok ())"

definition server_stream :: "string \<Rightarrow> byte list \<Rightarrow> qpinfo \<Rightarrow> byte list" where
  "server_stream resp reg srv = bytes_of resp @ ws_frame 1 None reg @
     ws_frame 1 None (bytes_of (qpinfo_layout ''qpinfo_server'' srv))"

definition server_works :: "env \<Rightarrow> bool" where
  "server_works E \<longleftrightarrow> (\<exists>resp reg srv. response_head resp \<and> accepts reg \<and> qpinfo_ok srv \<and>
     (\<forall>fd. \<exists>rest. delivers E fd (server_stream resp reg srv @ rest)))"

subsection \<open>Steps that cannot fail\<close>

lemma readless_rand: "readless (rand_bytes E n)"
  by (induction n) (auto intro!: emits_return emits_bind emits_ext_call simp: c_rand_byte_def Let_def)

lemma readless_send: "readless (ws_send_text E fd msg)"
  unfolding ws_send_text_def
  by (auto intro!: emits_return emits_bind emits_ext_call readless_rand simp: c_write_def c_malloc_def c_free_def Let_def
      split: option.splits)

lemma yields_write: "network_works E \<Longrightarrow> yields (\<lambda>w. w = int (length bs)) (c_write E fd bs)"
  by (simp add: network_works_def yields_def c_write_def wp_rules Let_def)

lemma yields_malloc: "network_works E \<Longrightarrow> yields (\<lambda>p. p \<noteq> None) (c_malloc E n)"
  by (simp add: network_works_def yields_def c_malloc_def wp_rules Let_def)

lemma yields_send:
  assumes "network_works E" "length msg < 65536"
  shows "yields (\<lambda>sent. sent) (ws_send_text E fd msg)"
proof -
  have "yields (\<lambda>sent. sent) (do { w \<leftarrow> c_write E fd (mask_bytes msk (bytes_of msg)); c_free h; ret (w = int (length msg)) })"
    for msk h
    by (rule yields_bind_post [OF yields_write [OF assms(1)]])
      (rule yields_bindI, rule yields_returnI, simp)
  then have *: "yields (\<lambda>sent. sent) (do { m \<leftarrow> c_malloc E (length msg); case m of None \<Rightarrow> ret False
      | Some h \<Rightarrow> do { w \<leftarrow> c_write E fd (mask_bytes msk (bytes_of msg)); c_free h; ret (w = int (length msg)) } })" for msk
    by - (rule yields_bind_post [OF yields_malloc [OF assms(1)]], auto)
  show ?thesis
    unfolding ws_send_text_def Let_def if_not_P [OF assms(2) [folded not_le]]
    by (rule yields_bindI, rule yields_bind_post [OF yields_write [OF assms(1)]]) (simp only: if_not_P not_True_eq_False *)
qed

subsection \<open>Dialling\<close>

lemma wp_connect:
  assumes "network_works E" "unread t" "\<And>fd t'. consumed fd t' = 0 \<Longrightarrow> Q (Some fd) t'"
  shows "wp (connect_loop E ai [0..<Suc n]) Q t"
proof -
  have "[0..<Suc n] = 0 # [1..<Suc n]" by (simp add: upt_rec)
  then show ?thesis
    using assms by (simp add: wp_rules c_socket_def c_connect_def Let_def network_works_def unread_def del: upt_Suc)
qed

text \<open>The calls before the response, each with what the rest of the proof needs of its answer.\<close>

lemma wp_works:
  assumes "network_works E"
  shows "(\<And>ai n t'. unread t' \<Longrightarrow> Q (Some (ai, Suc n)) t') \<Longrightarrow> unread t \<Longrightarrow> wp (c_getaddrinfo E host p) Q t"
    and "(\<And>ks t'. length ks = k \<Longrightarrow> consumed fd t' = consumed fd t \<Longrightarrow> R ks t') \<Longrightarrow> wp (rand_bytes E k) R t"
    and "(\<And>t'. consumed fd t' = consumed fd t \<Longrightarrow> W (int (length bs)) t') \<Longrightarrow> wp (c_write E fd bs) W t"
proof -
  assume Q: "\<And>ai n t'. unread t' \<Longrightarrow> Q (Some (ai, Suc n)) t'" and t: "unread t"
  obtain n where "env_getaddrinfo E t host p = Some (Suc n)" using assms unfolding network_works_def by blast
  then show "wp (c_getaddrinfo E host p) Q t"
    using t by (auto simp: wp_rules c_getaddrinfo_def Let_def unread_def intro!: Q)
next
  assume R: "\<And>ks t'. length ks = k \<Longrightarrow> consumed fd t' = consumed fd t \<Longrightarrow> R ks t'"
  have "yields (\<lambda>ks. length ks = k) (rand_bytes E k)" using rand_bytes_length by (simp add: yields_def)
  then show "wp (rand_bytes E k) R t" by (rule wp_readless [OF readless_rand]) (rule R)
next
  assume "\<And>t'. consumed fd t' = consumed fd t \<Longrightarrow> W (int (length bs)) t'"
  then show "wp (c_write E fd bs) W t" using assms by (simp add: wp_rules c_write_def Let_def network_works_def)
qed

lemma wp_ws_dial:
  assumes "network_works E" "unread t" "ws_parse_url url 256 256 \<noteq> None" "length url \<le> 362"
    and "response_head resp" "\<And>fd. \<exists>rest. delivers E fd (bytes_of resp @ rest)"
    and "\<And>fd t'. consumed fd t' = length resp \<Longrightarrow> Q (Ok fd) t'"
  shows "wp (ws_dial E url eb) Q t"
proof -
  obtain host port path where url: "ws_parse_url url 256 256 = Some (host, port, path)"
    using assms(3) by auto
  have req: "length (ws_request path host port (base64_encode ks)) < 513" if "length ks = 16" for ks
    using length_ws_request [of port "base64_encode ks" path host] ws_parse_url_lengths [OF url] assms(4) that
    by (simp add: length_base64_encode)
  have len: "length (take (length m) (bytes_of (snprintf_str 512 m @ [NUL]))) = length m" if "length m < 513" for m
    using that by (simp add: snprintf_def)
  have snd: "snd (snprintf 512 m) = length m" for m by (simp add: snprintf_def)
  obtain rest where stream: "\<And>fd. delivers E fd (bytes_of resp @ rest fd)" using assms(6) by metis
  have upgrade: "ws_upgrade_ok (cstring resp)" using assms(5) by (simp add: response_head_def)
  show ?thesis
    unfolding ws_dial_def url option.case prod.case wp_bind Let_def case_prod_beta snd fst_conv snd_conv
    apply (rule wp_works(1) [OF assms(1) _ assms(2)])
    subgoal for ai n t1
      apply (simp only: option.case fst_conv snd_conv wp_bind)
      apply (rule wp_connect [OF assms(1)], assumption)
      subgoal for fd t2
        apply (simp only: option.case wp_bind c_freeaddrinfo_def wp_ext_call)
        apply (rule wp_works(2) [OF assms(1), where fd = fd])
        subgoal for ks t3
          apply (insert req [of ks])
          apply (simp add: wp_rules del: take_append length_append)
          apply (rule wp_works(3) [OF assms(1), where fd = fd])
          apply (simp only: len)
          apply (simp only: simp_thms if_False wp_bind)
          apply (rule wp_response_loop [OF stream assms(5)], simp)
          apply (use upgrade in \<open>simp add: wp_rules assms(7)\<close>)
          done
        done
      done
    done
qed

subsection \<open>The messages of the server\<close>

lemma wp_frame:
  assumes "delivers E fd (pre @ ws_frame 1 None payload @ rest)" "consumed fd t = length pre" "length payload < 1024"
    and "\<And>t'. consumed fd t' = length (pre @ ws_frame 1 None payload) \<Longrightarrow> Q (Some payload) t'"
  shows "wp (ws_recv_text E fd 1024) Q t"
  by (rule wp_mono [OF ws_recv_text_frame [OF assms(1,2)]]) (use assms(3,4) in auto)

lemma wp_registered:
  assumes "delivers E fd (pre @ ws_frame 1 None reg @ rest)" "consumed fd t = length pre" "accepts reg"
    and "\<And>t'. consumed fd t' = length (pre @ ws_frame 1 None reg) \<Longrightarrow> Q (Ok ()) t'"
  shows "wp (recv_register_response E fd eb) Q t"
  unfolding recv_register_response_def wp_bind
  by (rule wp_frame [OF assms(1,2)]) (use assms(3,4) in \<open>simp_all add: accepts_def wp_rules\<close>)

lemma qpinfo_layout_text:
  assumes "qpinfo_ok srv"
  shows "length (qpinfo_layout typ srv) \<le> length typ + 200" "nul_free typ \<Longrightarrow> nul_free (qpinfo_layout typ srv)"
    \<open>strstr (qpinfo_layout ''qpinfo_server'' srv) ''"qpinfo_server"'' \<noteq> None\<close>
proof -
  have mtu: "length (show_int (mtu_enum srv)) \<le> Suc 10"
    by (rule length_show_int) (use assms in \<open>auto simp: qpinfo_ok_def\<close>)
  show "length (qpinfo_layout typ srv) \<le> length typ + 200"
    using assms mtu length_show_u32 [of "qpn srv"] length_show_u16 [of "lid srv"] length_show_u8 [of "gid_idx srv"]
      length_comma_bytes [of True "gid srv"]
    by (simp add: qpinfo_layout_def qpinfo_ok_def)
  show "nul_free (qpinfo_layout typ srv)" if "nul_free typ"
  proof -
    have "nul_free (comma_bytes True (gid srv))"
      by (auto simp: nul_free_def dest!: comma_bytes_chars dest: digit_not_special)
    with that show ?thesis by (simp add: qpinfo_layout_def)
  qed
  show \<open>strstr (qpinfo_layout ''qpinfo_server'' srv) ''"qpinfo_server"'' \<noteq> None\<close>
    by (simp add: qpinfo_layout_def strstr_None_iff)
qed

lemma wp_qpinfo:
  assumes "delivers E fd (pre @ ws_frame 1 None (bytes_of (qpinfo_layout ''qpinfo_server'' srv)) @ rest)"
    and "consumed fd t = length pre" "qpinfo_ok srv" "\<And>t'. Q (Ok srv) t'"
  shows "wp (recv_qpinfo_server E fd eb) Q t"
proof -
  let ?m = "qpinfo_layout ''qpinfo_server'' srv"
  have short: "length (bytes_of ?m) < 1024"
    using qpinfo_layout_text(1) [OF assms(3), of "''qpinfo_server''"] by simp
  have "cstring (chars_of (bytes_of ?m)) = ?m" using qpinfo_layout_text(2) [OF assms(3)] by simp
  moreover obtain y where \<open>strstr ?m ''"qpinfo_server"'' = Some y\<close> using qpinfo_layout_text(3) [OF assms(3)] by blast
  ultimately show ?thesis
    unfolding recv_qpinfo_server_def wp_bind
    by (intro wp_frame [OF assms(1,2) short]) (simp add: Let_def parse_qpinfo_layout [OF assms(3)] wp_return assms(4))
qed

subsection \<open>The device\<close>

lemma open_named_works:
  assumes "\<And>tr i. env_open_device E tr i" "dev = None \<or> dev = Some [] \<or> (\<exists>d \<in> set names. dev = Some d)" "names \<noteq> []"
  shows "yields (\<lambda>x. x \<noteq> None) (open_named E lst dev i names)"
  using assms(2,3)
proof (induction names arbitrary: i)
  case (Cons name names)
  show ?case
  proof (cases "dev = None \<or> dev = Some [] \<or> dev = Some name")
    case True
    then show ?thesis by (simp add: assms(1) yields_def wp_rules c_open_device_def Let_def)
  next
    case False
    with Cons show ?thesis by (cases names) auto
  qed
qed simp

lemma device_yields:
  assumes "device_works E dev"
  shows "yields (\<lambda>x. x \<noteq> None) (v_open_device E dev)" "yields (\<lambda>x. x \<noteq> None) (c_alloc_pd E ctx)"
    "yields (\<lambda>x. x \<noteq> None) (c_create_cq E ctx n)" "yields (\<lambda>x. x \<noteq> None) (c_create_qp E d a)"
    "yields (\<lambda>x. x \<noteq> None) (c_reg_mr E d b len acc)" "yields (\<lambda>r. r = 0) (v_qp_to_init E q port)"
    "yields (\<lambda>r. r = 0) (v_qp_to_rtr E q rq l g port i mtu)" "yields (\<lambda>r. r = 0) (v_qp_to_rts E q)"
    "yields (\<lambda>g. \<exists>raw. g = Some raw \<and> length raw = 16) (v_query_gid E ctx port j)"
    "yields (\<lambda>m. 0 \<le> m \<and> m \<le> 5) (v_query_mtu_enum E ctx port)"
proof -
  have names: "yields (\<lambda>r. \<exists>lst names. r = Some (lst, names) \<and> names_device dev names) (c_get_device_list E)"
    using assms by (auto simp: device_works_def yields_def c_get_device_list_def wp_rules Let_def)
  have opened: "yields (\<lambda>x. x \<noteq> None) (open_named E lst dev 0 names)" if "names_device dev names" for lst names
    using assms that by (intro open_named_works) (auto simp: device_works_def names_device_def)
  show "yields (\<lambda>x. x \<noteq> None) (v_open_device E dev)"
    unfolding v_open_device_def
  proof (rule yields_bind_post [OF names], elim exE conjE)
    fix r and lst :: nat and ns :: "string list"
    assume r: "r = Some (lst, ns)" "names_device dev ns"
    have "yields (\<lambda>x. x \<noteq> None) (do { ctx \<leftarrow> open_named E lst dev 0 ns; c_free_device_list lst; ret ctx })"
      by (rule yields_bind_post [OF opened [OF r(2)]]) (rule yields_bindI, rule yields_returnI)
    with r show "yields (\<lambda>x. x \<noteq> None) (case r of None \<Rightarrow> ret None
        | Some (lst, names) \<Rightarrow> if names = [] then ret None
            else do { ctx \<leftarrow> open_named E lst dev 0 names; c_free_device_list lst; ret ctx })"
      by (simp add: names_device_def)
  qed
  have gid: "\<exists>raw. env_query_gid E tr ctx port j = Some raw" and mtu: "\<exists>m. env_query_port E tr ctx port = Some m" for tr
    using assms unfolding device_works_def by blast+
  show "yields (\<lambda>g. \<exists>raw. g = Some raw \<and> length raw = 16) (v_query_gid E ctx port j)"
    unfolding yields_def
  proof
    fix tr
    obtain raw where "env_query_gid E tr ctx port j = Some raw" using gid by blast
    then show "wp (v_query_gid E ctx port j) (\<lambda>g _. \<exists>raw. g = Some raw \<and> length raw = 16) tr"
      by (simp add: v_query_gid_def c_query_gid_def wp_rules Let_def)
  qed
  show "yields (\<lambda>m. 0 \<le> m \<and> m \<le> 5) (v_query_mtu_enum E ctx port)"
    unfolding yields_def
  proof
    fix tr
    obtain m where "env_query_port E tr ctx port = Some m" using mtu by blast
    then show "wp (v_query_mtu_enum E ctx port) (\<lambda>m _. 0 \<le> m \<and> m \<le> 5) tr"
      by (simp add: v_query_mtu_enum_def c_query_port_def mtu_of_active_def wp_rules Let_def)
  qed
qed (use assms in \<open>simp_all add: device_works_def yields_def wp_rules Let_def c_alloc_pd_def c_create_cq_def c_create_qp_def
      c_reg_mr_def v_qp_to_init_def v_qp_to_rtr_def v_qp_to_rts_def c_modify_qp_def\<close>)

lemma device_readless:
  "readless (v_open_device E dev)" "readless (c_alloc_pd E ctx)" "readless (c_create_cq E ctx n)"
  "readless (c_create_qp E d a)" "readless (v_qp_to_init E q port)" "readless (v_query_gid E ctx port j)"
  "readless (v_query_mtu_enum E ctx port)"
proof -
  have "readless (open_named E lst dev i names)" for lst i names
    by (induction names arbitrary: i) (auto intro!: emits_intros simp: call_defs Let_def)
  then show "readless (v_open_device E dev)"
    unfolding v_open_device_def
    by (auto intro!: emits_return emits_bind emits_ext_call simp: call_defs release_defs Let_def split: option.splits)
qed (auto intro!: emits_return emits_bind emits_ext_call simp: v_qp_to_init_def v_query_gid_def v_query_mtu_enum_def
    call_defs Let_def split: option.splits)

subsection \<open>The set-up succeeds\<close>

lemma send_qpinfo_works:
  assumes "network_works E" "qpinfo_ok q"
  shows "yields (\<lambda>sent. sent) (send_qpinfo_client E fd q)" "readless (send_qpinfo_client E fd q)"
  using yields_send [OF assms(1)] readless_send qpinfo_layout_text(1) [OF assms(2), of "''qpinfo_client''"]
  by (simp_all add: send_qpinfo_client_def qpinfo_client_buf_ok [OF assms(2)])

text \<open>A step that reads nothing, while \<open>k\<close> bytes of the server have been read.\<close>

lemma wp_step:
  assumes "readless m" "yields P m" "consumed fd t = k" "\<And>a t'. P a \<Longrightarrow> consumed fd t' = k \<Longrightarrow> Q a t'"
  shows "wp m Q t"
  by (rule wp_readless [OF assms(1,2)]) (use assms(3,4) in auto)

lemma connect_works:
  assumes "network_works E" "device_works E dev" "qpinfo_ok srv"
    and "delivers E fd (pre @ ws_frame 1 None (bytes_of (qpinfo_layout ''qpinfo_server'' srv)) @ rest)"
    and "consumed fd t = length pre"
  shows "wp (connect_qp E fd port i ctx q n eb s) (\<lambda>r _. r = (Ok fd, s)) t"
proof -
  have up: "yields (\<lambda>r. r = (Ok fd, s)) (do {
      a \<leftarrow> v_qp_to_rtr E q (qpn srv) (lid srv) (gid srv) port (gid_idx srv) (mtu_enum srv);
      if a \<noteq> 0 then fail_close E fd (set_err eb ''qp_to_rtr failed'') s
      else do {
        b \<leftarrow> v_qp_to_rts E q;
        if b \<noteq> 0 then fail_close E fd (set_err eb ''qp_to_rts failed'') s else ret (Ok fd, s)
      } })"
    by (rule yields_bind_post [OF device_yields(7) [OF assms(2)]])
      (simp add: yields_bind_post [OF device_yields(8) [OF assms(2)]] yields_returnI)
  have ok: "qpinfo_ok \<lparr>qpn = n, lid = 0, gid = raw, gid_idx = i, mtu_enum = m\<rparr>" if "length raw = 16" "0 \<le> m" "m \<le> 5" for raw m
    using that by (simp add: qpinfo_ok_def)
  show ?thesis
    unfolding connect_qp_def wp_bind
    apply (rule wp_step [OF device_readless(6) device_yields(9) [OF assms(2)] assms(5)], elim exE conjE)
    subgoal for g t1 raw
      apply (simp only: option.case wp_bind)
      apply (rule wp_step [OF device_readless(7) device_yields(10) [OF assms(2)]], assumption)
      subgoal for m t2
        apply (simp only: wp_bind if_not_P not_less)
        apply (rule wp_step [OF send_qpinfo_works(2,1) [OF assms(1) ok], where fd = fd], simp_all add: wp_bind)
        apply (rule wp_qpinfo [OF assms(4) _ assms(3)], assumption)
        apply (simp only: result.case)
        apply (rule yields_wp [OF up [simplified]])
        done
      done
    done
qed

lemma wp_some:
  assumes "readless m" "yields (\<lambda>x. x \<noteq> None) m" "consumed fd t = k" "\<And>a t'. consumed fd t' = k \<Longrightarrow> Q (Some a) t'"
  shows "wp m Q t"
  by (rule wp_step [OF assms(1-3)]) (use assms(4) in auto)

lemma create_works:
  assumes "network_works E" "device_works E dev" "qpinfo_ok srv"
    and "delivers E fd (pre @ ws_frame 1 None (bytes_of (qpinfo_layout ''qpinfo_server'' srv)) @ rest)"
    and "consumed fd t = length pre"
  shows "wp (create_qp E fd dev port i eb s) (\<lambda>r _. \<exists>s'. r = (Ok fd, s')) t"
  unfolding create_qp_def wp_bind Let_def
  apply (rule wp_some [OF device_readless(1) device_yields(1) [OF assms(2)] assms(5)])
  apply (simp only: option.case wp_bind)
  apply (rule wp_some [OF device_readless(2) device_yields(2) [OF assms(2)]], assumption)
  apply (simp only: option.case wp_bind)
  apply (rule wp_some [OF device_readless(3) device_yields(3) [OF assms(2)]], assumption)
  apply (simp only: option.case wp_bind)
  apply (rule wp_some [OF device_readless(4) device_yields(4) [OF assms(2)]], assumption)
  apply (simp only: option.case wp_bind case_prod_beta)
  apply (rule wp_step [OF device_readless(5) device_yields(6) [OF assms(2)]], assumption)
  apply (simp only: simp_thms if_False)
  apply (rule wp_mono [OF connect_works [OF assms(1-4)]], assumption)
  apply blast
  done

lemma short_message: "length (snprintf_str 256 m) < 65536"
  by (simp add: snprintf_def)

lemma handshake_works:
  assumes "network_works E" "device_works E dev" "server_works E" "unread t"
    and "ws_parse_url url 256 256 \<noteq> None" "length url \<le> 362"
  shows "wp (rdma_handshake E url dev port i rid eb s) (\<lambda>r _. is_Ok (fst r)) t"
proof -
  obtain resp reg srv rest where head: "response_head resp" and reg: "accepts reg" and srv: "qpinfo_ok srv"
    and stream: "\<And>fd. delivers E fd (server_stream resp reg srv @ rest fd)"
    using assms(3) unfolding server_works_def by metis
  let ?q = "ws_frame 1 None (bytes_of (qpinfo_layout ''qpinfo_server'' srv))"
  have d1: "\<exists>r. delivers E fd (bytes_of resp @ r)"
    and d2: "delivers E fd (bytes_of resp @ ws_frame 1 None reg @ (?q @ rest fd))"
    and d3: "delivers E fd ((bytes_of resp @ ws_frame 1 None reg) @ ?q @ rest fd)" for fd
    using stream [of fd] by (auto simp: server_stream_def)
  show ?thesis
    unfolding rdma_handshake_def wp_bind
    apply (rule wp_ws_dial [OF assms(1,4,5,6) head d1])
    apply (simp only: result.case wp_bind send_register_request_def)
    apply (rule wp_step [OF readless_send yields_send [OF assms(1) short_message]], assumption)
    apply (simp only: simp_thms if_False wp_bind)
    apply (rule wp_registered [OF d2 _ reg], simp)
    apply (simp only: result.case)
    apply (rule wp_mono [OF create_works [OF assms(1,2) srv d3]], assumption)
    apply auto
    done
qed

lemma share_works:
  assumes "network_works E" "device_works E dev"
  shows "yields is_Ok (share_buffer acc E fd p s buf len eb)"
  unfolding share_buffer_def Let_def
  apply (rule yields_bind_post [OF device_yields(5) [OF assms(2)]])
  apply (elim not_None_eq [THEN iffD1, THEN exE])
  apply (simp only: option.case case_prod_beta send_token_def)
  apply (rule yields_bind_post [OF yields_send [OF assms(1) short_message]])
  apply (simp add: yields_bindI yields_returnI)
  done

lemma setup_works:
  assumes "network_works E" "device_works E dev" "server_works E" "unread t"
    and "ws_parse_url url 256 256 \<noteq> None" "length url \<le> 362"
  shows "wp (setup_with acc E url dev port i rid buf len eb) (\<lambda>r _. is_Ok r) t"
proof -
  have t: "unread (Sys (Malloc 40 h) # Sys (Srand a) # Sys (GetPid b) # Sys (Time c) # t)" for h a b c
    using assms(4) by (auto simp: unread_def)
  have hs: "wp (rdma_handshake E url dev port i rid eb session_zero) (\<lambda>a. wp (case a of
      (Ok fd, s) \<Rightarrow> share_buffer acc E fd p s buf len eb
    | (Fail e, s) \<Rightarrow> do { cleanup (Some (p, s)); ret (Fail (err_or_empty eb e)) }) (\<lambda>r _. is_Ok r)) t'"
    if "unread t'" for t' p
    by (rule wp_mono [OF handshake_works [OF assms(1-3) that assms(5,6)]])
      (auto split: result.split prod.split intro: yields_wp [OF share_works [OF assms(1,2)]])
  show ?thesis
    using assms(1) unfolding setup_with_def wp_bind
    by (simp add: c_time_def c_getpid_def c_srand_def c_malloc_def Let_def wp_rules network_works_def)
      (rule hs, rule t)
qed

subsection \<open>The programs end with status 0\<close>

text \<open>
  Files that can be opened, whose first read, of at most the file's size, returns all it asks for, and mappings; an S3
  server that answers every request with status 200 and a HEAD request with the size.
\<close>

definition unread_file :: "nat \<Rightarrow> trace \<Rightarrow> bool" where
  "unread_file f tr \<longleftrightarrow> (\<forall>b n d. File (Fread f b n d) \<notin> set tr)"

definition files_work :: "env \<Rightarrow> int \<Rightarrow> bool" where
  "files_work E sz \<longleftrightarrow> (\<forall>tr p m. env_fopen E tr p m) \<and> (\<forall>tr f. env_fstat E tr f = Some sz) \<and>
     (\<forall>tr f n. unread_file f tr \<longrightarrow> unat n \<le> nat sz \<longrightarrow> unat n \<le> length (env_fread E tr f n)) \<and>
     (\<forall>tr f bs. env_fwrite E tr f bs = length bs) \<and> (\<forall>tr n. env_mmap E tr n \<noteq> None)"

definition s3_works :: "env \<Rightarrow> int \<Rightarrow> bool" where
  "s3_works E sz \<longleftrightarrow> (\<forall>tr. env_curl_init E tr) \<and> (\<forall>tr c opts. cr_code (env_perform E tr c opts) = 0 \<and>
     cr_http (env_perform E tr c opts) = 200 \<and>
     (co_nobody opts \<longrightarrow> fold header_cb (cr_headers (env_perform E tr c opts)) (- 1) = sz))"

lemma wp_before:
  assumes "readless m" "yields P m" "unread t" "\<And>a t'. P a \<Longrightarrow> unread t' \<Longrightarrow> Q a t'"
  shows "wp m Q t"
  by (rule wp_readless [OF assms(1,2)]) (use unread_later [OF assms(3)] assms(4) in auto)

lemma wp_message:
  assumes "unread t" "\<And>t'. unread t' \<Longrightarrow> Q () t'"
  shows "wp (emit (Stderr m)) Q t"
  using assms by (simp add: wp_rules unread_def)

lemma readless_make_curl: "readless (make_curl E cfg bucket key mth)"
proof -
  have "readless (sign_request E cfg mth bucket key a b c d)" for a b c d
    unfolding sign_request_def c_strftime_def c_hashed_def
    by (auto intro!: emits_return emits_bind emits_ext_call simp: call_defs Let_def split: option.split prod.split)
  then show ?thesis
    unfolding make_curl_def
    by (auto intro!: emits_return emits_bind emits_ext_call simp: c_slist_append_def c_curl_init_def Let_def
        split: prod.split)
qed

lemma readless_head: "readless (s3_head_object E cfg bucket key errlen)"
  unfolding s3_head_object_def
  by (auto intro!: emits_return emits_bind emits_ext_call readless_make_curl emits_read_headers
      simp: c_perform_def c_slist_free_all_def c_curl_cleanup_def Let_def split: prod.split option.split)

lemma yields_make_curl:
  assumes "s3_works E sz"
  shows "yields (\<lambda>r. fst r \<noteq> None) (make_curl E cfg bucket key mth)"
proof -
  have init: "yields (\<lambda>c. c \<noteq> None) (c_curl_init E)"
    using assms by (simp add: s3_works_def yields_def c_curl_init_def wp_rules Let_def)
  show ?thesis
    unfolding make_curl_def Let_def case_prod_beta
    by (rule yields_bindI, rule yields_bindI, rule yields_bindI, rule yields_bindI, rule yields_bindI,
        rule yields_bind_post [OF init], rule yields_returnI) simp
qed

lemma yields_perform:
  assumes "s3_works E sz" "c \<noteq> None"
  shows "yields (\<lambda>r. cr_code r = 0 \<and> cr_http r = 200 \<and> (co_nobody opts \<longrightarrow> fold header_cb (cr_headers r) (- 1) = sz))
    (c_perform E c opts)"
  using assms by (auto simp: s3_works_def yields_def c_perform_def wp_rules Let_def)

lemma s3_yields:
  assumes "s3_works E sz"
  shows "yields (\<lambda>r. r = Ok sz) (s3_head_object E cfg bucket key errlen)"
    "yields is_Ok (s3_get_object E cfg bucket key extra errlen)" "yields is_Ok (s3_put_object E cfg bucket key extra errlen)"
  unfolding s3_head_object_def s3_get_object_def s3_put_object_def Let_def case_prod_beta
  subgoal
    by (rule yields_bind_post [OF yields_make_curl [OF assms]], rule yields_bind_post [OF yields_perform [OF assms]])
      (auto intro!: yields_bindI yields_returnI)
  subgoal
    by (rule yields_bind_post [OF yields_make_curl [OF assms]], rule yields_bindI,
        rule yields_bind_post [OF yields_perform [OF assms]]) (auto intro!: yields_bindI yields_returnI)
  subgoal
    by (rule yields_bind_post [OF yields_make_curl [OF assms]], rule yields_bindI,
        rule yields_bind_post [OF yields_perform [OF assms]]) (auto intro!: yields_bindI yields_returnI)
  done

text \<open>The environment of a successful run, for the device and the endpoint of the command line.\<close>

definition all_works :: "env \<Rightarrow> object_opts \<Rightarrow> int \<Rightarrow> bool" where
  "all_works E ob sz \<longleftrightarrow> network_works E \<and> device_works E (Some (o_rdma_dev ob)) \<and> server_works E \<and>
     files_work E sz \<and> s3_works E sz \<and> 0 \<le> sz \<and> sz < 2 ^ 63 \<and>
     ws_parse_url (ws_url_from_endpoint (o_endpoint ob) 300) 256 256 \<noteq> None"

lemma ws_url_length: "length (ws_url_from_endpoint ep 300) \<le> 362"
  by (simp add: ws_url_from_endpoint_def snprintf_def Let_def)

lemma session_works:
  assumes "all_works E ob sz" "unread t" "\<And>ps t'. Q (Ok ps) t'"
  shows "wp (rdma_send_setup E (ws_url_from_endpoint (o_endpoint ob) 300) (Some (o_rdma_dev ob)) port i rid buf len eb) Q t"
    "wp (rdma_recv_setup E (ws_url_from_endpoint (o_endpoint ob) 300) (Some (o_rdma_dev ob)) port i rid buf len eb) Q t"
proof -
  have "wp (setup_with acc E (ws_url_from_endpoint (o_endpoint ob) 300) (Some (o_rdma_dev ob)) port i rid buf len eb) Q t" for acc
    by (rule wp_mono [OF setup_works]) (use assms ws_url_length in \<open>auto simp: all_works_def is_Ok_iff\<close>)
  then show "wp (rdma_send_setup E (ws_url_from_endpoint (o_endpoint ob) 300) (Some (o_rdma_dev ob)) port i rid buf len eb) Q t"
    "wp (rdma_recv_setup E (ws_url_from_endpoint (o_endpoint ob) 300) (Some (o_rdma_dev ob)) port i rid buf len eb) Q t"
    by (simp_all add: rdma_send_setup_def rdma_recv_setup_def)
qed

lemma put_buffer_works:
  assumes "all_works E ob sz" "unread t"
  shows "wp (put_buffer E ob bucket object path buf n) (\<lambda>rc _. rc = 0) t"
proof -
  have s3: "s3_works E sz" using assms(1) by (simp add: all_works_def)
  have t: "unread (Stderr m # Sys (GetPid p) # t)" for p m using assms(2) by (auto simp: unread_def)
  show ?thesis
    unfolding put_buffer_def Let_def wp_bind c_getpid_def wp_ext_call fst_conv snd_conv
    apply (rule session_works(1) [OF assms(1) t])
    apply (simp only: result.case)
    apply (rule yields_wp, rule yields_bindI, rule yields_bind_post [OF s3_yields(3) [OF s3]])
    apply (auto simp: is_Ok_iff intro!: yields_bindI yields_returnI)
    done
qed

lemma file_yields:
  assumes "files_work E sz" "0 \<le> sz"
  shows "yields (\<lambda>f. f \<noteq> None) (c_fopen E p m)" "yields (\<lambda>r. r = Some sz) (c_fstat E f)"
    "n \<noteq> 0 \<Longrightarrow> yields (\<lambda>b. b \<noteq> None) (c_mmap E n)"
    "yields (\<lambda>k. k = unat n) (c_fwrite E f b n)"
proof -
  have "length (memory_at E tr b n) = unat n" for tr by (simp add: memory_at_def)
  then show "yields (\<lambda>k. k = unat n) (c_fwrite E f b n)"
    using assms by (simp add: files_work_def yields_def c_fwrite_def wp_rules Let_def)
qed (use assms in \<open>simp_all add: files_work_def yields_def c_fopen_def c_fstat_def c_mmap_def wp_rules Let_def\<close>)

lemma file_readless:
  "readless (c_fopen E p m)" "readless (c_fstat E f)" "readless (c_mmap E n)" "readless (c_fread E f b n)"
  "readless (c_fclose f)" "readless (emit (Stderr msg))" "readless (c_getpid E)"
  by (auto intro!: emits_ext_call simp: call_defs release_defs Let_def)

lemma wp_first_read:
  assumes "files_work E sz" "0 \<le> sz" "unread t" "unread_file f t"
    and "\<And>d t'. length d = unat (word_of_int sz :: u64) \<Longrightarrow> unread t' \<Longrightarrow> Q d t'"
  shows "wp (c_fread E f b (word_of_int sz)) Q t"
proof -
  have "unat (word_of_int sz :: u64) \<le> nat sz"
    using assms(2) zmod_le_nonneg_dividend [of sz] by (simp add: unat_eq_nat_uint uint_word_of_int nat_mono)
  then have "unat (word_of_int sz :: u64) \<le> length (env_fread E t f (word_of_int sz))"
    using assms(1,4) by (simp add: files_work_def)
  then show ?thesis
    using assms(3) by (auto simp: c_fread_def wp_rules Let_def unread_def intro!: assms(5))
qed

lemma put_object_works:
  assumes "all_works E ob sz" "unread t" "\<And>f. unread_file f t"
  shows "wp (put_object E ob bucket object path) (\<lambda>rc _. rc = 0) t"
proof -
  have files: "files_work E sz" "0 \<le> sz" using assms(1) by (simp_all add: all_works_def)
  let ?n = "word_of_int sz :: u64"
  let ?m = "if ?n \<noteq> 0 then ?n else 1"
  have m: "?m \<noteq> 0" by simp
  define t2 where "t2 = File (Fstat (length t) (Some sz)) # File (Fopen path ''rb'' (Some (length t))) # t"
  obtain a where a: "env_mmap E t2 ?m = Some a" using files(1) unfolding files_work_def by blast
  have t3: "unread (Sys (Mmap ?m (Some (length t2, a))) # t2)" "unread_file f (Sys (Mmap ?m (Some (length t2, a))) # t2)" for f
    using assms(2,3) by (auto simp: t2_def unread_def unread_file_def)
  have data: "wp (if ?n \<noteq> 0 then c_fread E f b ?n else ret []) Q t'"
    if "unread t'" "unread_file f t'" "\<And>d t'. length d = unat ?n \<Longrightarrow> unread t' \<Longrightarrow> Q d t'" for f b Q t'
    using that wp_first_read [OF files, of t' f Q b] by (auto simp: wp_return)
  have run: "run_state (c_fopen E path ''rb'') t = (Some (length t), File (Fopen path ''rb'' (Some (length t))) # t)"
    "run_state (c_fstat E (length t)) (File (Fopen path ''rb'' (Some (length t))) # t) = (Some sz, t2)"
    "run_state (c_mmap E ?m) t2 = (Some (length t2, a), Sys (Mmap ?m (Some (length t2, a))) # t2)"
    using files(1) a m by (simp_all add: files_work_def c_fopen_def c_fstat_def c_mmap_def ext_call_def t2_def Let_def)
  show ?thesis
    unfolding put_object_def wp_bind wp_of_run [OF run(1)] option.case wp_of_run [OF run(2)] Let_def wp_of_run [OF run(3)]
    apply (rule data [OF t3])
    apply (simp only: simp_thms if_False wp_bind)
    apply (rule wp_before [OF file_readless(5) yields_True], assumption)
    apply (rule put_buffer_works [OF assms(1)], assumption)
    done
qed

lemma save_object_works:
  assumes "files_work E sz" "0 \<le> sz"
  shows "yields (\<lambda>rc. rc = 0) (save_object E path buf n)"
  unfolding save_object_def
  apply (rule yields_bindI, rule yields_bindI, rule yields_bindI, rule yields_bind_post [OF file_yields(1) [OF assms]])
  apply (clarsimp simp only: option.case not_None_eq)
  apply (rule yields_bind_post [OF file_yields(4) [OF assms]])
  apply (simp add: yields_bindI yields_returnI)
  done

lemma get_object_works:
  assumes "all_works E ob sz" "0 < sz" "unread t"
  shows "wp (get_object E ob bucket object path) (\<lambda>rc _. rc = 0) t"
proof -
  have files: "files_work E sz" "0 \<le> sz" and s3: "s3_works E sz" and sz: "sz < 2 ^ 63"
    using assms(1) by (simp_all add: all_works_def)
  have n: "(word_of_int sz :: u64) \<noteq> 0"
  proof
    assume "(word_of_int sz :: u64) = 0"
    then have "uint (word_of_int sz :: u64) = 0" by simp
    with assms(2) sz show False by (simp add: uint_word_of_int)
  qed
  show ?thesis
    unfolding get_object_def Let_def wp_bind
    apply (rule wp_before [OF file_readless(6) yields_True assms(3)])
    apply (rule wp_before [OF readless_head s3_yields(1) [OF s3]], assumption)
    apply (simp only: result.case wp_bind)
    apply (rule wp_before [OF file_readless(6) yields_True], assumption)
    apply (rule wp_before [OF file_readless(7) yields_True], assumption)
    apply (rule wp_before [OF file_readless(3) file_yields(3) [OF files n]], assumption)
    apply (clarsimp simp only: option.case wp_bind not_None_eq)
    apply (rule wp_before [OF file_readless(6) yields_True], assumption)
    apply (rule session_works(2) [OF assms(1)], assumption)
    apply (simp only: result.case)
    apply (rule yields_wp, rule yields_bindI, rule yields_bind_post [OF s3_yields(2) [OF s3]])
    apply (auto simp: is_Ok_iff intro!: yields_bindI save_object_works [OF files])
    done
qed

definition sample_object :: object_opts where
  "sample_object = object_defaults\<lparr>o_bucket := Some ''b'', o_object := Some ''k'', o_file := Some ''f''\<rparr>"

lemma sample_object_args:
  "object_args [''-bucket'', ''b'', ''-object'', ''k'', ''-file'', ''f''] object_defaults = Some sample_object"
  by (simp add: sample_object_def)

lemma sample_object_fields:
  "o_bucket sample_object = Some ''b''" "o_object sample_object = Some ''k''" "o_file sample_object = Some ''f''"
  by (simp_all add: sample_object_def)

text \<open>The sample environment with a server that follows the protocol, on every connection.\<close>

definition sample_head :: string where
  "sample_head = ''HTTP/1.1 101 Switching Protocols'' @ crlf @ crlf"

definition sample_registered :: "byte list" where
  \<open>sample_registered = bytes_of ''{"type":"register_response","data":{"success":true}}''\<close>

definition sample_length_line :: string where
  "sample_length_line = ''Content-Length: 3'' @ crlf"

definition sample_server :: env where
  "sample_server = sample_env\<lparr>
     env_read := (\<lambda>tr fd n. Some (take n (drop (consumed fd tr) (server_stream sample_head sample_registered sample_qpinfo)))),
     env_perform := (\<lambda>tr c opts. \<lparr>cr_headers = [sample_length_line], cr_chunks = [], cr_code = 0, cr_http = 200\<rparr>)\<rparr>"

lemma sample_head_ok: "response_head sample_head"
  unfolding response_head_def suffix_crlf [symmetric] sample_head_def by code_simp

lemma sample_accepts: "accepts sample_registered"
proof -
  have "length sample_registered < 1024" by code_simp
  moreover have \<open>strstr (cstring (chars_of sample_registered)) ''"register_response"'' \<noteq> None\<close> by code_simp
  moreover have "json_get_bool (cstring (chars_of sample_registered)) ''success'' = Some True" by code_simp
  ultimately show ?thesis by (simp add: accepts_def parse_register_response_def)
qed

lemma sample_delivers:
  "delivers sample_server fd (server_stream sample_head sample_registered sample_qpinfo @ [])"
  unfolding delivers_def by (auto simp: sample_server_def intro!: exI)

lemma sample_server_works: "server_works sample_server"
proof -
  have "qpinfo_ok sample_qpinfo" by (simp add: qpinfo_ok_def sample_qpinfo_def)
  with sample_head_ok sample_accepts sample_delivers show ?thesis unfolding server_works_def by blast
qed

lemma sample_size: "header_cb sample_length_line (- 1) = 3"
  by code_simp

lemma sample_url: "ws_parse_url (ws_url_from_endpoint (o_endpoint sample_object) 300) 256 256 \<noteq> None"
  by code_simp

lemma sample_works: "all_works sample_server sample_object 3"
  unfolding all_works_def
  using sample_server_works sample_url
  by (simp add: network_works_def device_works_def files_work_def s3_works_def names_device_def sample_server_def
      sample_env_def sample_object_def object_defaults_def sample_size)

end
