(* ===== verification/MpLiveness.thy ===== *)
theory MpLiveness
  imports Liveness
begin

text \<open>
  Progress of a multipart upload: with a cooperating environment every part is sent and the run ends with
  status 0; and a run whose upload fails aborts the upload it has created.
\<close>

subsection \<open>The requests of a multipart upload\<close>

text \<open>
  An S3 server that accepts every request, and answers the request that creates an upload, the only one that posts
  an empty body, with an upload id.
\<close>

definition mp_s3_works :: "env \<Rightarrow> bool" where
  "mp_s3_works E \<longleftrightarrow> (\<forall>tr. env_curl_init E tr) \<and> (\<forall>tr n. env_malloc E tr n) \<and>
     (\<forall>tr c opts. cr_code (env_perform E tr c opts) = 0 \<and> 200 \<le> cr_http (env_perform E tr c opts) \<and>
        cr_http (env_perform E tr c opts) < 300 \<and>
        (co_postfields opts = Some [] \<longrightarrow> parse_upload_id (reply_text (env_perform E tr c opts)) 256 \<noteq> None))"

lemma write_response_works:
  assumes "mp_s3_works E"
  shows "yields (\<lambda>(k, _). k = length c) (write_response E buf c)"
proof -
  have realloc: "yields (\<lambda>p. p \<noteq> None) (c_realloc E p m)" for p m
    using assms by (simp add: mp_s3_works_def yields_def c_realloc_def wp_rules Let_def)
  show ?thesis
    unfolding write_response_def Let_def
    by (split if_split, intro conjI impI, rule yields_bindI, rule yields_bind_post [OF realloc])
      (auto intro!: yields_returnI)
qed

lemma deliver_works:
  assumes "mp_s3_works E"
  shows "yields (\<lambda>(k, _). k = length cs) (deliver_chunks E buf cs)"
proof (induction cs arbitrary: buf)
  case Nil
  then show ?case by (simp add: yields_returnI)
next
  case (Cons c cs)
  show ?case
    unfolding deliver_chunks.simps
    by (rule yields_bind_post [OF write_response_works [OF assms]])
      (auto intro!: yields_bind_post [OF Cons.IH] yields_returnI)
qed

lemma yields_conj: "yields P m \<Longrightarrow> yields Q m \<Longrightarrow> yields (\<lambda>a. P a \<and> Q a) m"
  by (simp add: yields_def wp_conj)

text \<open>A request succeeds, and one that creates an upload has a response with an upload id.\<close>

lemma s3_request_works:
  assumes "mp_s3_works E"
  shows "yields (\<lambda>(rc, http, buf). is_Ok rc \<and>
      (mth = ''POST'' \<longrightarrow> body = None \<longrightarrow> parse_upload_id (response_text buf) 256 \<noteq> None))
    (s3_request E cfg mth bucket key query cq body extra response_zero errlen)"
proof -
  have init: "yields (\<lambda>c. c \<noteq> None) (c_curl_init E)"
    using assms by (simp add: mp_s3_works_def yields_def c_curl_init_def wp_rules Let_def)
  have perform: "yields (\<lambda>r. cr_code r = 0 \<and> 200 \<le> cr_http r \<and> cr_http r < 300 \<and>
      (co_postfields opts = Some [] \<longrightarrow> parse_upload_id (reply_text r) 256 \<noteq> None)) (c_perform E (Some c) opts)" for c opts
    using assms by (auto simp: mp_s3_works_def yields_def c_perform_def wp_rules Let_def)
  have opts: "co_postfields (method_opts ''POST'' None o') = Some []" for o'
    by (simp add: method_opts_def)
  note deliver = yields_conj [OF deliver_works [OF assms] deliver_text]
  show ?thesis
    unfolding s3_request_def Let_def case_prod_beta
    apply (rule yields_bindI, rule yields_bindI, rule yields_bindI, rule yields_bindI, rule yields_bindI,
        rule yields_bindI, rule yields_bindI, rule yields_bind_post [OF init])
    apply (clarsimp simp only: option.case not_None_eq)
    apply (rule yields_bind_post [OF perform], rule yields_bind_post [OF deliver])
    apply (rule yields_bindI, rule yields_bindI, rule yields_returnI)
    apply (auto simp: reply_text_def opts split: prod.splits)
    done
qed

lemma mp_yields:
  assumes "mp_s3_works E"
  shows "yields is_Ok (s3_create_multipart E cfg bucket key 256 errlen)"
    "yields is_Ok (s3_upload_part_empty E cfg bucket key uid k rid m errlen)"
    "yields is_Ok (s3_complete_multipart E cfg bucket key uid cps errlen)"
proof -
  note request = yields_bind_post [OF s3_request_works [OF assms]]
  have malloc: "yields (\<lambda>p. p \<noteq> None) (c_malloc E n)" for n
    using assms by (simp add: mp_s3_works_def yields_def c_malloc_def wp_rules Let_def)
  show "yields is_Ok (s3_create_multipart E cfg bucket key 256 errlen)"
    unfolding s3_create_multipart_def Let_def
    by (rule request) (auto simp: is_Ok_iff intro!: yields_bindI yields_returnI)
  show "yields is_Ok (s3_upload_part_empty E cfg bucket key uid k rid m errlen)"
    unfolding s3_upload_part_empty_def Let_def
    by (rule request) (auto simp: is_Ok_iff intro!: yields_bindI yields_returnI)
  show "yields is_Ok (s3_complete_multipart E cfg bucket key uid cps errlen)"
    unfolding s3_complete_multipart_def Let_def
    apply (rule yields_bind_post [OF malloc])
    apply (clarsimp simp only: option.case not_None_eq)
    apply (rule yields_bindI, rule request)
    apply (auto intro!: yields_bindI yields_returnI)
    done
qed

subsection \<open>The parts\<close>

text \<open>
  A file of \<open>sz\<close> bytes: after a seek to an offset, a read that ends within the file returns all the bytes
  it asks for.
\<close>

definition parts_readable :: "env \<Rightarrow> int \<Rightarrow> bool" where
  "parts_readable E sz \<longleftrightarrow> (\<forall>tr p m. env_fopen E tr p m) \<and> (\<forall>tr f. env_fstat E tr f = Some sz) \<and>
     (\<forall>tr f off. env_fseek E tr f off) \<and> (\<forall>tr n. env_mmap E tr n \<noteq> None) \<and>
     (\<forall>tr f off n. 0 \<le> off \<longrightarrow> off + uint n \<le> sz \<longrightarrow>
        unat n \<le> length (env_fread E (File (Fseek f off True) # tr) f n))"

definition mp_works :: "env \<Rightarrow> options \<Rightarrow> int \<Rightarrow> bool" where
  "mp_works E opts sz \<longleftrightarrow> network_works E \<and> device_works E (Some (op_rdma_dev opts)) \<and> server_works E \<and>
     parts_readable E sz \<and> mp_s3_works E \<and> mp_env E \<and> upload_env E opts \<and> 0 < sz \<and>
     0 \<le> op_part opts \<and> op_part opts \<le> part_count sz (op_part_size opts) \<and>
     ws_parse_url (mp_ws_url_from_endpoint (op_endpoint opts) 512) 256 256 \<noteq> None"

text \<open>What the parts of such a file need of its size.\<close>

lemma mp_works_fits:
  assumes "mp_works E opts sz"
  shows "count_fits sz (op_part_size opts)" "0 < sz" "sz < 2 ^ 63"
proof -
  from assms show "count_fits sz (op_part_size opts)" "0 < sz"
    by (simp_all add: mp_works_def upload_env_def parts_readable_def)
  then show "sz < 2 ^ 63" by (simp add: count_fits_def)
qed

lemma mmap_part_works:
  assumes "mp_works E opts sz" "unread t" "0 \<le> off" "0 < len" "off + len \<le> sz"
    and "\<And>b n t'. unread t' \<Longrightarrow> Q (Ok (b, n)) t'"
  shows "wp (mmap_part E f off len errlen) Q t"
proof -
  let ?n = "word_of_int len :: u64"
  have len: "len < 2 ^ 63" using mp_works_fits(3) [OF assms(1)] assms(3,5) by simp
  then have n: "uint ?n = len" "sint ?n = len"
    using assms(4) by (simp_all add: uint_word_of_int sint_sbintrunc' signed_take_bit_int_eq_self)
  then have "?n \<noteq> 0" using assms(4) by auto
  have files: "parts_readable E sz" using assms(1) by (simp add: mp_works_def)
  obtain a where mmap: "env_mmap E t ?n = Some a" using files unfolding parts_readable_def by blast
  have fread: "min (length (env_fread E (File (Fseek f off True) # tr) f ?n)) (unat ?n) = unat ?n" for tr
    using files assms(3,5) n(1) by (simp add: parts_readable_def min_absorb2)
  have fseek: "env_fseek E tr f off" for tr using files by (simp add: parts_readable_def)
  show ?thesis
    unfolding mmap_part_def using assms(2,4) n(2) \<open>?n \<noteq> 0\<close> mmap
    by (auto simp: wp_rules c_mmap_def c_fseek_def c_fread_def Let_def fseek fread unread_def intro!: assms(6))
qed

lemma one_part_works:
  assumes "mp_works E opts sz" "unread t" "0 \<le> off" "0 < len" "off + len \<le> sz"
  shows "wp (upload_one_part_rdma E cfg opts bucket f uid k off len errlen) (\<lambda>r _. is_Ok r) t"
proof -
  have env: "network_works E" "device_works E (Some (op_rdma_dev opts))" "server_works E" "mp_s3_works E"
    "ws_parse_url (mp_ws_url_from_endpoint (op_endpoint opts) 512) 256 256 \<noteq> None"
    "length (mp_ws_url_from_endpoint (op_endpoint opts) 512) \<le> 362"
    using assms(1) upload_env_ready by (auto simp: mp_works_def session_ready_def)
  have t: "unread (Sys (Time c) # Sys (GetPid p) # t')" if "unread t'" for c p t'
    using that by (auto simp: unread_def)
  show ?thesis
    unfolding upload_one_part_rdma_def wp_bind
    apply (rule mmap_part_works [OF assms])
    apply (simp only: result.case prod.case wp_bind c_getpid_def c_time_def wp_ext_call fst_conv snd_conv Let_def rdma_send_setup_def)
    apply (rule wp_mono [OF setup_works [OF env(1-3) _ env(5,6)]])
     apply (erule t)
    apply (clarsimp simp only: is_Ok_iff result.case)
    apply (rule yields_wp, rule yields_bind_post [OF mp_yields(2) [OF env(4)]])
    apply (auto simp: is_Ok_iff intro!: yields_bindI yields_returnI)
    done
qed

lemma wp_moves:
  assumes "moves L m F" "owns t L" "wp m P t" "\<And>a t'. P a t' \<Longrightarrow> owns t' (F a) \<Longrightarrow> Q a t'"
  shows "wp m Q t"
proof -
  have "wp m (\<lambda>a t'. owns t' (F a)) t" using assms(1,2) by (simp add: moves_def)
  then show ?thesis by (rule wp_mono [OF wp_conj [OF assms(3)]]) (use assms(4) in auto)
qed

text \<open>Every part is sent: each ends in a safe trace, in which the next part can start.\<close>

lemma part_loop_works:
  assumes "mp_works E opts sz" "holds KFile f L" "end_part \<le> part_count sz (op_part_size opts)"
  shows "owns t L \<Longrightarrow> 1 \<le> k \<Longrightarrow>
    wp (upload_loop E cfg opts bucket f uid sz num errlen end_part k slots) (\<lambda>r _. is_Ok r) t"
proof (induction "nat (end_part + 1 - k)" arbitrary: k slots t rule: less_induct)
  case less
  show ?case
  proof (cases "k \<le> end_part")
    case False
    then show ?thesis by (subst upload_loop.simps) (simp add: wp_return)
  next
    case True
    then have k: "k \<le> part_count sz (op_part_size opts)" using assms(3) by simp
    note fits = mp_works_fits [OF assms(1)]
    note part = part_in_file [OF fits(1,2) less.prems(2) k]
    have "k < 2 ^ 31 - 1" using k part_count_bounds(4) [OF fits(1,2)] by simp
    then have range: "\<bar>k\<bar> < 2 ^ 31" and last: "k \<noteq> 2 ^ 31 - 1" using less.prems(2) by auto
    have env: "mp_env E" "upload_env E opts" using assms(1) by (simp_all add: mp_works_def)
    have rest: "wp (upload_loop E cfg opts bucket f uid sz num errlen end_part (k + 1) slots') (\<lambda>r _. is_Ok r) t'"
      if "owns t' L" for slots' t'
      using True less.prems(2) that by (intro less.hyps) auto
    have stderr: "owns (Stderr m # t') L" if "owns t' L" for m t'
      using keeps_stderr [of L m] that by (simp add: moves_def wp_ext_call)
    note sent = wp_conj [OF one_part_works [OF assms(1) _ part(1,2,4)] yields_wp [OF upload_one_part_law [OF range]]]
    show ?thesis
      apply (subst upload_loop.simps)
      apply (simp only: True if_True wp_bind Let_def wp_ext_call fst_conv snd_conv)
      apply (rule wp_moves [OF keeps_upload_one_part [OF env assms(2)] stderr [OF less.prems(1)] sent])
       apply (use stderr [OF less.prems(1)] in \<open>blast intro: safe_unread owns_safe\<close>)
      apply (clarsimp simp only: is_Ok_iff result.case wp_bind c_text_def last if_False)
      apply (clarsimp simp only: result.inject simp_thms wp_rules completed_part.simps option.case fst_conv snd_conv)
      apply (rule rest [unfolded is_Ok_iff], erule stderr)
      done
  qed
qed

lemma yields_calloc:
  assumes "network_works E" "0 \<le> c" "c < 2 ^ 31"
  shows "yields (\<lambda>p. p \<noteq> None) (c_calloc E (word_of_int c) sizeof_part)"
proof -
  have "unat (word_of_int c :: u64) = nat c"
    using assms(2,3) by (simp add: unat_eq_nat_uint uint_word_of_int)
  moreover have "nat c * 272 < 2 ^ 64" using assms(2,3) by (simp add: nat_less_iff)
  ultimately show ?thesis
    using assms(1) by (simp add: network_works_def yields_def c_calloc_def wp_rules Let_def sizeof_part_def)
qed

lemma upload_parts_works:
  assumes "mp_works E opts sz" "owns t L"
  shows "wp (upload_parts_rdma E cfg opts bucket path uid errlen) (\<lambda>r _. is_Ok r) t"
proof -
  note fits = mp_works_fits [OF assms(1)]
  have files: "parts_readable E sz" and net: "network_works E" and choice: "0 \<le> op_part opts" "op_part opts \<le> part_count sz (op_part_size opts)"
    using assms(1) by (simp_all add: mp_works_def)
  note part = part_choice [OF fits(1,2) choice]
  have fopen: "yields (\<lambda>f. f \<noteq> None) (c_fopen E path m)" for m
    using files by (simp add: parts_readable_def yields_def c_fopen_def wp_rules Let_def)
  have fstat: "yields (\<lambda>r. r = Some sz) (c_fstat E f)" for f
    using files by (simp add: parts_readable_def yields_def c_fstat_def wp_rules Let_def)
  have keeps_stat: "keeps (Res KFile f [] # L) (c_fstat E f)" for f by (rule keeps_fstat) simp
  have open_file: "holds KFile f (Res KMem h [] # Res KFile f [] # L)" for f h by simp
  have guards: "(sz \<le> 0) = False" "(2 ^ 63 \<le> sz + op_part_size opts) = False"
    "(op_part opts < 0 \<or> part_count sz (op_part_size opts) < op_part opts) = False"
    using fits(1,2) choice by (auto simp: count_fits_def)
  have count: "0 \<le> last_part opts sz - first_part opts + 1" "last_part opts sz - first_part opts + 1 < 2 ^ 31"
    using part(1,2,4) by linarith+
  show ?thesis
    unfolding upload_parts_rdma_def wp_bind
    apply (rule wp_moves [OF moves_fopen assms(2) yields_wp [OF fopen]])
    apply (clarsimp simp only: option.case wp_bind not_None_eq)
    apply (rule wp_moves [OF keeps_stat _ yields_wp [OF fstat]], simp)
    apply (clarsimp simp only: option.case guards if_False check_count_def wp_bind wp_return Let_def)
    apply (rule wp_moves [OF moves_calloc _ yields_wp [OF yields_calloc [OF net count]]], assumption)
    apply (clarsimp simp only: option.case wp_bind not_None_eq)
    apply (rule wp_mono [OF part_loop_works [OF assms(1) open_file part(3) _ part(1)]], assumption)
    apply (auto simp: is_Ok_iff wp_rules c_fclose_def)
    done
qed

lemma do_all_works:
  assumes "mp_works E opts sz" "owns t L"
  shows "wp (do_all E opts bucket path) (\<lambda>rc _. rc = 0) t"
proof -
  have s3: "mp_s3_works E" and env: "mp_env E"
    using assms(1) by (simp_all add: mp_works_def)
  have stdout: "owns (Stdout m # t') L" if "owns t' L" for m t'
    using keeps_stdout [of L m] that by (simp add: moves_def wp_ext_call)
  show ?thesis
    unfolding do_all_def Let_def wp_bind
    apply (rule wp_moves [OF keeps_s3_create_multipart [OF env] assms(2) yields_wp [OF mp_yields(1) [OF s3]]])
    apply (clarsimp simp only: is_Ok_iff result.case wp_bind wp_ext_call fst_conv snd_conv)
    apply (rule wp_mono [OF upload_parts_works [OF assms(1) stdout]], assumption)
    apply (clarsimp simp only: is_Ok_iff result.case)
    apply (rule yields_wp, rule yields_bind_post [OF mp_yields(3) [OF s3]])
    apply (auto simp: is_Ok_iff intro!: yields_bindI yields_returnI)
    done
qed

subsection \<open>Sample environments\<close>

definition sample_upload_reply :: curl_reply where
  "sample_upload_reply = \<lparr>cr_headers = [], cr_chunks = [bytes_of ''<UploadId>'', bytes_of ''u7</UploadId>''], cr_code = 0, cr_http = 200\<rparr>"

definition sample_uploads :: env where
  "sample_uploads = sample_server\<lparr>env_perform := (\<lambda>tr c opts. sample_upload_reply)\<rparr>"

lemma sample_upload_id: "parse_upload_id (reply_text sample_upload_reply) 256 = Some ''u7''"
  by code_simp

lemma sample_mp_s3: "mp_s3_works sample_uploads"
  unfolding mp_s3_works_def using sample_upload_id
  by (simp add: sample_uploads_def sample_server_def sample_env_def sample_upload_reply_def)

lemma sample_uploads_env: "upload_env sample_uploads sample_options" "mp_env sample_uploads"
  using sample_upload_env sample_clock(1) by (simp_all add: upload_env_def mp_env_def
      small_bodies_def current_clock_def sample_uploads_def sample_server_def sample_upload_reply_def bytes_of_def)

lemma sample_uploads_delivers: "delivers sample_uploads = delivers sample_server"
  by (intro ext) (simp add: delivers_def sample_uploads_def)

lemma sample_mp_url: "ws_parse_url (mp_ws_url_from_endpoint (op_endpoint sample_options) 512) 256 256 \<noteq> None"
  by code_simp

lemma sample_mp_works: "mp_works sample_uploads sample_options 3"
proof -
  have "server_works sample_uploads"
    using sample_server_works unfolding server_works_def sample_uploads_delivers .
  moreover have "part_count 3 (op_part_size sample_options) = 1" by code_simp
  ultimately show ?thesis
    unfolding mp_works_def using sample_mp_s3 sample_uploads_env sample_mp_url
    by (simp add: network_works_def device_works_def parts_readable_def names_device_def sample_uploads_def
        sample_server_def sample_env_def sample_options_def init_options_def)
qed

text \<open>The same without the file.\<close>

definition sample_no_file :: env where
  "sample_no_file = sample_uploads\<lparr>env_fopen := (\<lambda>tr p m. False)\<rparr>"

lemma sample_mp_ok: "mp_ok (mp_config_of sample_options) ''b'' (op_object sample_options)"
  by (simp add: mp_ok_def sig_ok_def mp_config_of_def sample_options_def init_options_def sample_host object_path_def)

lemma sample_uploads_requests: "requests_env sample_uploads"
  using sample_clock by (simp add: requests_env_def current_clock_def headers_alloc_def sample_uploads_def sample_server_def)

lemma sample_plain_ids: "plain_ids sample_uploads"
  unfolding plain_ids_def
proof (intro allI impI, elim conjE)
  fix r uid
  assume "server_reply sample_uploads r" "parse_upload_id (reply_text r) 256 = Some uid"
  then have "uid = ''u7''"
    using sample_upload_id by (auto simp: server_reply_def sample_uploads_def)
  moreover have "plain False ''u7''" by code_simp
  ultimately show "plain False uid" by simp
qed

lemma sample_no_file_env: "requests_env sample_no_file"
  using sample_clock by (simp add: requests_env_def current_clock_def headers_alloc_def sample_no_file_def
      sample_uploads_def sample_server_def)

lemma wp_ends: "wp m Q t \<Longrightarrow> \<exists>a t'. run_state m t = (a, t') \<and> Q a t'"
  by (cases "run_state m t") (simp add: wp_def)

lemma sample_no_file_creates:
  "\<exists>uid t1. run_state (s3_create_multipart sample_no_file cfg bucket key 256 1024) t = (Ok uid, t1)"
proof -
  have "mp_s3_works sample_no_file" using sample_mp_s3 by (simp add: mp_s3_works_def sample_no_file_def)
  from wp_ends [OF yields_wp [OF mp_yields(1) [OF this, of cfg bucket key 1024]]] show ?thesis
    by (simp add: is_Ok_iff) blast
qed

lemma sample_no_file_fails:
  "\<exists>e t2. run_state (upload_parts_rdma sample_no_file cfg opts bucket path uid 1024) t = (Fail e, t2)"
proof -
  have "wp (upload_parts_rdma sample_no_file cfg opts bucket path uid 1024) (\<lambda>r _. \<exists>e. r = Fail e) t"
    by (auto simp: upload_parts_rdma_def wp_rules c_fopen_def sample_no_file_def Let_def
        intro!: yields_wp yields_True)
  from wp_ends [OF this] show ?thesis by blast
qed

end
