(* ===== verification/DataFlow.thy ===== *)
theory DataFlow
  imports EndToEnd
begin

text \<open>
  The data of a transfer: the buffer that a session offers to the server is the one that the whole file,
  or the whole part of it, was read into, and the buffer that the server was allowed to write is the one
  that is saved, with the length that the server gave for the object.
\<close>

subsection \<open>Registered buffers\<close>

text \<open>A session that was set up has registered its buffer.\<close>

definition shares :: "access_flag set \<Rightarrow> nat \<Rightarrow> u64 \<Rightarrow> trace \<Rightarrow> bool" where
  "shares acc b n t \<longleftrightarrow> (\<exists>d mk. Verbs (RegMr d b n acc (Some mk)) \<in> set t)"

lemma shares_later: "shares acc b n t \<Longrightarrow> set t \<subseteq> set t' \<Longrightarrow> shares acc b n t'"
  unfolding shares_def by blast

lemma setup_log_shares: "setup_log E eb acc dev port i b len V (Ok ps) t \<Longrightarrow> shares acc b len t"
proof -
  assume log: "setup_log E eb acc dev port i b len V (Ok ps) t"
  obtain p s where "ps = (p, s)" by (cases ps)
  with log obtain d mk es where "verbs_log t = Verbs (RegMr d b len acc (Some mk)) # es"
    unfolding setup_log_def by auto
  then have "Verbs (RegMr d b len acc (Some mk)) \<in> set (verbs_log t)" by simp
  then show ?thesis unfolding shares_def set_filter by blast
qed

lemma setup_shares:
  assumes "\<And>ps t'. shares acc (fst buf) len t' \<Longrightarrow> suffix t t' \<Longrightarrow> set t \<subseteq> set t' \<Longrightarrow> Q (Ok ps) t'" "\<And>e t'. Q (Fail e) t'"
  shows "wp (setup_with acc E url dev port i rid buf len eb) Q t"
proof (rule wp_grows_post [OF grows_mono [OF emits_setup] setup_log_setup])
  fix r t'
  assume "setup_log E eb acc dev port i (fst buf) len (verbs_log t) r t'" "suffix t t'"
  then show "Q r t'"
    by (cases r) (auto intro!: assms dest: setup_log_shares set_mono_suffix)
qed

lemma session_shares:
  "(\<And>ps t'. shares {ACCESS_LOCAL_WRITE, ACCESS_REMOTE_READ} (fst buf) len t' \<Longrightarrow> suffix t t' \<Longrightarrow> set t \<subseteq> set t' \<Longrightarrow> Q (Ok ps) t') \<Longrightarrow>
   (\<And>e t'. Q (Fail e) t') \<Longrightarrow> wp (rdma_send_setup E url dev port i rid buf len eb) Q t"
  "(\<And>ps t'. shares {ACCESS_LOCAL_WRITE, ACCESS_REMOTE_READ, ACCESS_REMOTE_WRITE} (fst buf) len t' \<Longrightarrow> suffix t t' \<Longrightarrow> set t \<subseteq> set t' \<Longrightarrow> Q (Ok ps) t') \<Longrightarrow>
   (\<And>e t'. Q (Fail e) t') \<Longrightarrow> wp (rdma_recv_setup E url dev port i rid buf len eb) Q t"
  unfolding rdma_send_setup_def rdma_recv_setup_def by (rule setup_shares; blast)+

subsection \<open>Uploading\<close>

text \<open>
  The file \<open>f\<close> was read completely into the buffer \<open>b\<close>, and the buffer was offered for remote reading.
\<close>

definition offers_file :: "string \<Rightarrow> trace \<Rightarrow> bool" where
  "offers_file path t \<longleftrightarrow> (\<exists>f sz b. File (Fopen path ''rb'' (Some f)) \<in> set t \<and> File (Fstat f (Some sz)) \<in> set t \<and>
     (let n = word_of_int sz in
        (n = 0 \<or> (\<exists>data. File (Fread f b n data) \<in> set t \<and> length data = unat n)) \<and>
        shares {ACCESS_LOCAL_WRITE, ACCESS_REMOTE_READ} b n t))"

lemma put_buffer_offers:
  assumes "File (Fopen path ''rb'' (Some f)) \<in> set t" "File (Fstat f (Some sz)) \<in> set t" "n = word_of_int sz"
    and "n = 0 \<or> (\<exists>data. File (Fread f (fst buf) n data) \<in> set t \<and> length data = unat n)"
  shows "wp (put_buffer E ob bucket object path buf n) (on_success (offers_file path)) t"
proof -
  have offered: "offers_file path t'" if "shares {ACCESS_LOCAL_WRITE, ACCESS_REMOTE_READ} (fst buf) n t1" "set t \<subseteq> set t1" "set t1 \<subseteq> set t'" for t1 t'
    using assms that shares_later [OF that(1,3)] unfolding offers_file_def Let_def by blast
  have finish: "grows (do { emit (Stderr m); rdma_session_destroy sp; c_munmap b k; ret x })" for m sp b k and x :: int
    by (auto intro!: emits_bind emits_return grows_session emits_ext_call simp: c_munmap_def)
  show ?thesis
    unfolding put_buffer_def Let_def wp_bind c_getpid_def wp_ext_call fst_conv snd_conv
    apply (rule session_shares(1))
    apply (simp only: result.case wp_bind wp_ext_call fst_conv snd_conv)
    apply (rule wp_grows [OF grows_s3(3)])
    apply (split result.split, intro conjI allI impI)
    apply (rule wp_grows [OF finish], intro impI, rule offered, assumption, auto)[1]
    apply (auto intro!: wp_failed yields_bindI yields_returnI yields_one)
    done
qed

lemma wp_read:
  assumes "\<And>data t'. set t \<subseteq> set t' \<Longrightarrow> n = 0 \<or> File (Fread f b n data) \<in> set t' \<Longrightarrow> Q data t'"
  shows "wp (if n \<noteq> 0 then c_fread E f b n else ret []) Q t"
  by (cases "n = 0") (simp_all add: wp_rules c_fread_def Let_def assms subset_insertI)

lemma put_object_offers: "wp (put_object E ob bucket object path) (on_success (offers_file path)) t"
proof -
  have fail: "wp (do { e \<leftarrow> c_strerror E; m e }) (on_success P) t'" if "\<And>e. yields (\<lambda>rc. rc = 1) (m e)" for m P t'
    using that by (intro wp_failed yields_bindI)
  show ?thesis
    unfolding put_object_def Let_def wp_bind c_fopen_def wp_ext_call fst_conv snd_conv
    apply (split option.split, intro conjI allI impI)
     apply (rule fail, auto intro!: yields_bindI yields_returnI)[1]
    apply (simp only: wp_bind c_fstat_def wp_ext_call fst_conv snd_conv Let_def)
    apply (split option.split, intro conjI allI impI)
     apply (rule fail, auto intro!: yields_bindI yields_returnI)[1]
    apply (simp only: wp_bind c_mmap_def wp_ext_call fst_conv snd_conv Let_def)
    apply (split option.split, intro conjI allI impI)
     apply (rule fail, auto intro!: yields_bindI yields_returnI)[1]
    apply (simp only: wp_bind, rule wp_read)
    apply (split if_split, intro conjI impI)
     apply (rule fail, auto intro!: yields_bindI yields_returnI)[1]
    apply (simp only: wp_bind c_fclose_def wp_ext_call fst_conv snd_conv)
    apply (rule put_buffer_offers; auto)
    done
qed

subsection \<open>Downloading\<close>

text \<open>
  The length that a HEAD request has found, and a download: a buffer of that length was offered for remote
  writing, and all of it was written to the file.
\<close>

definition head_size :: "trace \<Rightarrow> int \<Rightarrow> bool" where
  "head_size t sz \<longleftrightarrow> (\<exists>q r. (q, r) \<in> set (requests t) \<and> co_nobody q \<and> cr_http r = 200 \<and>
     sz = fold header_cb (cr_headers r) (- 1))"

definition saves_object :: "string \<Rightarrow> trace \<Rightarrow> bool" where
  "saves_object path t \<longleftrightarrow> (\<exists>f sz b bs. head_size t sz \<and> File (Fopen path ''wb'' (Some f)) \<in> set t \<and>
     (let n = word_of_int sz in
        File (Fwrite f b n bs (unat n)) \<in> set t \<and> length bs = unat n \<and>
        shares {ACCESS_LOCAL_WRITE, ACCESS_REMOTE_READ, ACCESS_REMOTE_WRITE} b n t))"

lemma head_size_later: "head_size t sz \<Longrightarrow> set t \<subseteq> set t' \<Longrightarrow> head_size t' sz"
  unfolding head_size_def requests_def by auto

lemma save_object_saves:
  assumes "head_size t sz" "n = word_of_int sz" "shares {ACCESS_LOCAL_WRITE, ACCESS_REMOTE_READ, ACCESS_REMOTE_WRITE} (fst buf) n t"
  shows "wp (save_object E path buf n) (on_success (saves_object path)) t"
proof -
  have saved: "saves_object path t'"
    if "set t \<subseteq> set t'" "File (Fopen path ''wb'' (Some f)) \<in> set t'" "File (Fwrite f (fst buf) n bs (unat n)) \<in> set t'"
      "length bs = unat n" for t' f bs
    using that head_size_later [OF assms(1) that(1)] shares_later [OF assms(3) that(1)] assms(2)
    unfolding saves_object_def Let_def by blast
  have len: "length (memory_at E t' b n) = unat n" for t' b by (simp add: memory_at_def)
  show ?thesis
    unfolding save_object_def Let_def wp_bind c_load_def c_fopen_def wp_ext_call fst_conv snd_conv
    apply (split option.split, intro conjI allI impI)
     apply (auto intro!: wp_failed yields_bindI yields_one)[1]
    apply (simp only: wp_bind c_fwrite_def wp_ext_call fst_conv snd_conv Let_def)
    apply (split if_split, intro conjI impI)
     apply (auto intro!: wp_failed yields_bindI yields_returnI)[1]
    apply (simp add: wp_rules c_fclose_def c_munmap_def len)
    apply (rule saved, auto simp: len)
    done
qed

lemma head_sizeI:
  "requests t = (q, r) # qs \<Longrightarrow> co_nobody q \<Longrightarrow> cr_http r = 200 \<Longrightarrow> head_size t (fold header_cb (cr_headers r) (- 1))"
  unfolding head_size_def by (intro exI conjI) auto

lemma wp_head_size:
  assumes "request_ok cfg ''HEAD'' bucket key" "current_clock E" "headers_alloc E"
    and "\<And>sz t'. head_size t' sz \<Longrightarrow> Q (Ok sz) t'" "\<And>e t'. Q (Fail e) t'"
  shows "wp (s3_head_object E cfg bucket key errlen) Q t"
  by (rule wp_mono [OF wp_s3_head_object [OF assms(1-3)]])
    (auto simp: requested_def intro!: assms(4,5), rule head_sizeI, assumption, simp_all)

lemma get_object_saves:
  assumes "request_ok (config_of ob) ''HEAD'' bucket (Some object)" "current_clock E" "headers_alloc E"
  shows "wp (get_object E ob bucket object path) (on_success (saves_object path)) t"
  unfolding get_object_def Let_def wp_bind wp_ext_call fst_conv snd_conv
  apply (rule wp_head_size [OF assms])
   apply (simp only: result.case wp_bind wp_ext_call fst_conv snd_conv c_getpid_def c_mmap_def Let_def)
   apply (split option.split, intro conjI allI impI)
    apply (auto intro!: wp_failed yields_bindI yields_returnI)[1]
   apply (simp only: wp_bind wp_ext_call fst_conv snd_conv)
   apply (rule session_shares(2))
    apply (simp only: result.case wp_bind wp_ext_call fst_conv snd_conv)
    apply (rule wp_grows [OF grows_s3(2)])
    apply (split result.split, intro conjI allI impI)
     apply (simp only: wp_bind wp_ext_call fst_conv snd_conv)
     apply (rule wp_grows [OF grows_session(3)])
     apply (rule save_object_saves)
       apply (erule head_size_later, force)
      apply (rule refl)
     apply (erule shares_later, force)
    apply (auto intro!: wp_failed yields_bindI yields_returnI yields_one)
  done

subsection \<open>The parts of a multipart upload\<close>

text \<open>
  Part \<open>k\<close> of the file \<open>f\<close> of \<open>n\<close> bytes: its bytes were read from the part's offset into a buffer of the part's
  length, and the buffer was offered for remote reading.
\<close>

definition offers_part :: "int \<Rightarrow> nat \<Rightarrow> int \<Rightarrow> trace \<Rightarrow> int \<Rightarrow> bool" where
  "offers_part part_size f n t k \<longleftrightarrow> (\<exists>b data t0. let len = word_of_int (part_length n part_size k) in
     suffix (File (Fread f b len data) # File (Fseek f (part_offset part_size k) True) # t0) t \<and>
     length data = unat len \<and> shares {ACCESS_LOCAL_WRITE, ACCESS_REMOTE_READ} b len t)"

lemma offers_part_later: "offers_part ps f n t k \<Longrightarrow> suffix t t' \<Longrightarrow> offers_part ps f n t' k"
  unfolding offers_part_def Let_def by (meson set_mono_suffix shares_later suffix_order.trans)

lemma wp_mmap_part:
  assumes "\<And>b a t0 data. length data = unat (word_of_int len :: u64) \<Longrightarrow> suffix t t0 \<Longrightarrow>
      Q (Ok ((b, a), word_of_int len)) (File (Fread f b (word_of_int len) data) # File (Fseek f off True) # t0)"
    and "\<And>e t'. Q (Fail e) t'"
  shows "wp (mmap_part E f off len errlen) Q t"
proof -
  have fail: "yields (\<lambda>r. \<exists>e. r = Fail e) m \<Longrightarrow> wp m Q t'" for m t'
    by (rule wp_mono [OF yields_wp], assumption) (auto intro: assms(2))
  show ?thesis
    unfolding mmap_part_def wp_if Let_def wp_bind wp_return c_mmap_def wp_ext_call fst_conv snd_conv
    apply (split if_split, intro conjI impI, rule assms(2))
    apply (split option.split, intro conjI allI impI)
     apply (rule fail, auto intro!: yields_bindI yields_returnI)[1]
    apply (simp only: wp_bind c_fseek_def wp_ext_call fst_conv snd_conv Let_def)
    apply (split if_split, intro conjI impI)
     apply (rule fail, auto intro!: yields_bindI yields_returnI)[1]
    apply (simp only: wp_bind c_fread_def wp_ext_call fst_conv snd_conv Let_def)
    apply (split if_split, intro conjI impI)
     apply (rule fail, auto intro!: yields_bindI yields_returnI)[1]
    apply (auto simp: wp_return suffix_Cons intro!: assms(1))
    done
qed

lemma wp_one_part:
  assumes "\<And>cp t'. offers_part (op_part_size opts) f n t' k \<Longrightarrow> suffix t t' \<Longrightarrow> Q (Ok cp) t'" "\<And>e t'. Q (Fail e) t'"
  shows "wp (upload_one_part_rdma E cfg opts bucket f uid k (part_offset (op_part_size opts) k)
    (part_length n (op_part_size opts) k) errlen) Q t"
proof -
  let ?n = "word_of_int (part_length n (op_part_size opts) k) :: u64"
  have finish: "wp (do { rdma_session_destroy sp; c_munmap b m; ret r }) Q t'"
    if "offers_part (op_part_size opts) f n t' k" "suffix t t'" for sp b m r t'
    unfolding wp_bind
    apply (rule wp_grows [OF grows_session(3)])
    apply (cases r)
     apply (auto simp: wp_rules c_munmap_def intro!: assms offers_part_later [OF that(1)] suffix_ConsI
         intro: suffix_order.trans [OF that(2)])
    done
  have offered: "offers_part (op_part_size opts) f n t3 k \<and> suffix t t3"
    if "length data = unat ?n" "suffix t t0" "shares {ACCESS_LOCAL_WRITE, ACCESS_REMOTE_READ} b ?n t2" "suffix t2 t3"
      "suffix (e1 # e2 # File (Fread f b ?n data) # File (Fseek f (part_offset (op_part_size opts) k) True) # t0) t2"
    for data t0 b t2 t3 e1 e2
  proof
    let ?r = "File (Fread f b ?n data) # File (Fseek f (part_offset (op_part_size opts) k) True) # t0"
    have r: "suffix ?r t2" using that(5) by (meson suffix_ConsD)
    then have "offers_part (op_part_size opts) f n t2 k" unfolding offers_part_def Let_def using that(1,3) by blast
    then show "offers_part (op_part_size opts) f n t3 k" by (rule offers_part_later [OF _ that(4)])
    show "suffix t t3" using r that(2,4) by (meson suffix_ConsD suffix_order.trans)
  qed
  show ?thesis
    unfolding upload_one_part_rdma_def wp_bind
    apply (rule wp_mmap_part)
     apply (simp only: result.case prod.case wp_bind c_getpid_def c_time_def wp_ext_call fst_conv snd_conv Let_def)
     apply (rule session_shares(1))
      apply (simp only: result.case wp_bind fst_conv)
      apply (rule wp_grows [OF grows_mp(1)])
      apply (rule finish [unfolded wp_bind])
       apply (rule offered [THEN conjunct1]; assumption)
      apply (rule offered [THEN conjunct2]; assumption)
     apply (simp_all add: wp_rules c_munmap_def assms(2))
    done
qed

lemma wp_part_loop:
  assumes "\<And>cps t'. suffix t t' \<Longrightarrow> (\<And>j. k \<le> j \<Longrightarrow> j \<le> end_part \<Longrightarrow> offers_part (op_part_size opts) f n t' j) \<Longrightarrow> Q (Ok cps) t'"
    and "\<And>e t'. Q (Fail e) t'"
  shows "wp (upload_loop E cfg opts bucket f uid n num errlen end_part k slots) Q t"
  using assms(1)
proof (induction "nat (end_part + 1 - k)" arbitrary: k slots t rule: less_induct)
  case less
  show ?case
  proof (cases "k \<le> end_part")
    case False
    then show ?thesis using less.prems [of t] by (subst upload_loop.simps) (simp add: wp_return)
  next
    case True
    have rest: "wp (upload_loop E cfg opts bucket f uid n num errlen end_part (k + 1) slots') Q t'"
      if "offers_part (op_part_size opts) f n t' k" "suffix t t'" for slots' t'
    proof (rule less.hyps)
      show "nat (end_part + 1 - (k + 1)) < nat (end_part + 1 - k)" using True by simp
      fix cps t''
      assume t'': "suffix t' t''" "\<And>j. k + 1 \<le> j \<Longrightarrow> j \<le> end_part \<Longrightarrow> offers_part (op_part_size opts) f n t'' j"
      show "Q (Ok cps) t''"
      proof (rule less.prems)
        show "suffix t t''" using that(2) t''(1) by (rule suffix_order.trans)
        show "offers_part (op_part_size opts) f n t'' j" if "k \<le> j" "j \<le> end_part" for j
          using that t''(2) offers_part_later [OF \<open>offers_part (op_part_size opts) f n t' k\<close> t''(1)]
          by (cases "j = k") auto
      qed
    qed
    have steps: "grows (c_text w s)" "grows (emit e)" "grows (if b then emit e else ret ())" for w s e b
      unfolding c_text_def by (auto intro!: emits_return emits_bind emits_ext_call split: option.split)
    show ?thesis
      apply (subst upload_loop.simps)
      apply (simp only: True if_True wp_bind Let_def)
      apply (rule wp_grows [OF steps(2)], rule wp_one_part)
       apply (simp only: result.case wp_bind)
       apply (rule wp_grows [OF steps(1)], rule wp_grows [OF steps(2)], rule wp_grows [OF steps(3)])
       apply (rule rest)
        apply (erule offers_part_later, meson suffix_order.trans)
       apply (meson suffix_order.trans)
      apply (simp add: wp_return assms(2))
      done
  qed
qed

text \<open>
  Every part of the file is offered, for the size that the file was found to have when the upload opened it.
\<close>

definition offers_parts :: "string \<Rightarrow> options \<Rightarrow> trace \<Rightarrow> trace \<Rightarrow> bool" where
  "offers_parts path opts t t' \<longleftrightarrow> (\<exists>tu n. suffix t tu \<and> sized path n tu t' \<and> 0 < n \<and>
     list_all (offers_part (op_part_size opts) (length tu) n t') (all_parts opts n))"

lemma offers_parts_later: "offers_parts path opts t t1 \<Longrightarrow> suffix t1 t' \<Longrightarrow> offers_parts path opts t t'"
  unfolding offers_parts_def list_all_iff using offers_part_later sized_later by blast

lemma wp_offers_parts:
  assumes "op_part opts = 0" "\<And>tr f n. env_fstat E tr f = Some n \<Longrightarrow> count_fits n (op_part_size opts)" "suffix tb t"
    and "\<And>r t'. offers_parts path opts tb t' \<Longrightarrow> Q (Ok r) t'" "\<And>e t'. Q (Fail e) t'"
  shows "wp (upload_parts_rdma E cfg opts bucket path uid errlen) Q t"
proof (rule wp_upload_parts_rdma)
  fix n h t1
  let ?f = "length t"
  assume st: "started E opts path t n h t1"
  then have n: "0 < n" "count_fits n (op_part_size opts)"
    using assms(2) by (auto simp: started_def)
  have all: "[first_part opts .. last_part opts n] = all_parts opts n"
    using assms(1) n by (simp add: part_count_exact)
  have sent: "offers_parts path opts tb (File (Fclose ?f) # t2)"
    if "suffix t1 t2" "\<And>j. first_part opts \<le> j \<Longrightarrow> j \<le> last_part opts n \<Longrightarrow> offers_part (op_part_size opts) ?f n t2 j" for t2
  proof -
    have "list_all (offers_part (op_part_size opts) ?f n t2) (all_parts opts n)"
      unfolding all [symmetric] list_all_iff using that(2) by simp
    then have "offers_parts path opts tb t2"
      unfolding offers_parts_def using assms(3) n(1) sized_later [OF started_sized [OF st] that(1)] by blast
    then show ?thesis by (rule offers_parts_later) (simp add: suffix_ConsI)
  qed
  show "wp (upload_loop E cfg opts bucket ?f uid n (part_count n (op_part_size opts)) errlen (last_part opts n)
      (first_part opts) []) (\<lambda>r t2. \<forall>cps. r = Ok cps \<longrightarrow> Q (Ok (h, cps)) (File (Fclose ?f) # t2)) t1"
    by (rule wp_part_loop) (use sent in \<open>auto intro!: assms(4)\<close>)
qed (rule assms(5))

lemma do_all_offers:
  assumes "op_part opts = 0" "\<And>tr f n. env_fstat E tr f = Some n \<Longrightarrow> count_fits n (op_part_size opts)"
  shows "wp (do_all E opts bucket path) (on_success (offers_parts path opts t)) t"
  unfolding do_all_def Let_def wp_bind
  apply (rule wp_grows [OF grows_mp(3)])
  apply (split result.split, intro conjI allI impI)
   apply (simp only: wp_bind wp_ext_call fst_conv snd_conv)
   apply (rule wp_offers_parts [OF assms, where tb = t], assumption)
     apply (simp add: suffix_ConsI)
    apply (simp only: result.case wp_bind split: prod.split, intro allI impI)
    apply (rule wp_grows [OF grows_mp(2)])
    apply (split result.split, intro conjI allI impI)
     apply (simp add: wp_rules c_free_def, rule offers_parts_later, assumption, simp add: suffix_ConsI)
    apply (auto simp: exit_error_def intro!: wp_failed yields_bindI yields_returnI)
  done

end
