(* ===== verification/Spec2Isabelle.thy ===== *)
theory Spec2Isabelle
  imports MpLiveness Conversation DataFlow
begin

text \<open>
  \<^bold>\<open>The RDMA clients of storefs.\<close>

  storefs is an S3 object store. The C programs under \<^verbatim>\<open>src/examples/rdma/c\<close> move objects to and from it by
  RDMA: the data goes directly between the server's network adapter and a buffer of the client, and the
  S3 request over HTTP, with an empty body, only triggers the transfer. This development models these
  programs completely, together with the verbs shim that the Java and Python clients load, and proves
  what makes them correct.

  \<^bold>\<open>How the parts work together.\<close> A client maps a buffer and calls \<^verbatim>\<open>rdma_recv_setup\<close> or
  \<^verbatim>\<open>rdma_send_setup\<close> (\<^verbatim>\<open>rdmalib.c\<close>). The library dials a websocket, registers a request id, opens a device,
  creates a queue pair, exchanges queue-pair parameters as JSON messages, brings the queue pair up to
  RTS, registers the buffer as a memory region and sends its address and key to the server. The client
  then makes a signed S3 request that names the request id (\<^verbatim>\<open>s3client.c\<close>, or the second copy of that code
  in \<^verbatim>\<open>s3rdmamultipart.c\<close>), and releases the session. A multipart upload does this once for every part,
  between a request that creates the upload and one that completes it.

  \<^bold>\<open>The model.\<close> A function of the sources is a function of the same name (\<^verbatim>\<open>mp_\<close> marks the copies in
  \<^verbatim>\<open>s3rdmamultipart.c\<close>), in the state monad when it has effects. The state is the trace of the external calls
  made so far, newest first, each with its arguments and its answer. The answers of the operating
  system, the network, libibverbs, libcurl and OpenSSL come from an environment, a record of functions
  of the trace: a theorem for every environment covers everything that the server, the device and the
  allocator may do. A handle is the position in the trace of the call that made it. Undefined behaviour
  is an event of the trace, so that a proof of safety shows it is never reached. Errors are values:
  \<^verbatim>\<open>Fail\<close> carries the text left in \<^verbatim>\<open>err\<close>. Fixed buffers are kept, with the truncation of \<^verbatim>\<open>snprintf\<close>;
  machine integers have their width.

  \<^bold>\<open>The theories.\<close>
  \<^item> \<open>Prelude\<close>: result type, weakest preconditions for the state monad, collections of facts, the codec
    interface (\<open>stream_codec\<close>).
  \<^item> \<open>CString\<close>: the string and number functions of the C library that the sources call.
  \<^item> \<open>World\<close>: external calls, events, environments.
  \<^item> \<open>Resources\<close>: which handles a trace holds, when it is safe, and the contracts \<open>moves\<close> (what an
    operation acquires and releases), \<open>keeps\<close> and \<open>emits\<close> (which calls it makes). The sources lose two kinds of
    blocks: the list that libibverbs returns when there is no device, and a header list that libcurl could not extend.
    These are the strays; the contracts hold in their presence, and the leak theorems say that nothing else stays.
  \<^item> \<open>Json\<close>, \<open>Base64\<close>, \<open>WebSocket\<close>, \<open>Protocol\<close> (\<^verbatim>\<open>rdmalib.c\<close> 105--425): readers, encoder, frames, messages;
    round trips, buffer bounds, the contract of \<^verbatim>\<open>ws_dial\<close>.
  \<^item> \<open>Verbs\<close> (\<^verbatim>\<open>rdmalib.c\<close> 17--103, \<^verbatim>\<open>verbs_shim.c\<close>): the queue-pair state machine as an inductive relation,
    and a driver interface (\<open>qp_driver\<close>) interpreted for the library and for the shim.
  \<^item> \<open>Session\<close> (\<^verbatim>\<open>rdmalib.c\<close> 427--617): the handshake and the set-ups; the interface \<open>session_provider\<close> is
    interpreted for the receiving and the sending side. Shown: no leak on any path but that of the strays, legal
    transitions, the exact verbs calls with the parameters that the server has sent.
  \<^item> \<open>SigV4\<close>, \<open>S3Client\<close> (\<^verbatim>\<open>s3client.c\<close>): an abstract specification of AWS Signature Version 4, with the
    percent-encoding of the path and the sorted, encoded query, the interface \<open>signer\<close>, and the proof that the client's
    signer refines it for the paths that need no encoding (the sources encode none); the HEAD, GET and PUT requests.
  \<^item> \<open>GetPut\<close> (\<^verbatim>\<open>s3rdmaget.c\<close>, \<^verbatim>\<open>s3rdmaput.c\<close>): the single-object programs.
  \<^item> \<open>MpRequest\<close>, \<open>MpXml\<close>, \<open>MpOps\<close>, \<open>Multipart\<close> (\<^verbatim>\<open>s3rdmamultipart.c\<close>): the second signer and the request
    function, the response buffer (interface \<open>chunk_sink\<close>), the XML reader and printer, the operations on an
    upload, the partition of a file, the upload loop and the actions.
  \<^item> \<open>History\<close>: what the operations add to the trace, from which the order of events is read off.
  \<^item> \<open>Conversation\<close>: the bytes that a set-up writes to its new connection, complete and in order.
  \<^item> \<open>EndToEnd\<close>: the requests of whole runs, proved from the fact that a session makes none, each after the
    registration of the session it names; a failed upload is aborted.
  \<^item> \<open>DataFlow\<close>: the bytes of the object: which file is read into which buffer, what is registered for
    remote access, and what is written to the file.
  \<^item> \<open>Liveness\<close>, \<open>MpLiveness\<close>: with an environment that does not fail and a server that follows the protocol, a session
    is set up and runs of the three programs end with status 0.

  \<^bold>\<open>Bounds.\<close> No function needs fuel: the loops of the sources end, by structural recursion or by a measure
  (\<^verbatim>\<open>read_full\<close> and the response loop of \<^verbatim>\<open>ws_dial\<close>: the bytes still missing; the XML loop: the length of the rest; the
  doubling of the response buffer: the missing capacity; the upload loop: the parts left; the year loop of
  the calendar: the days left). Hypotheses on sizes are those at which the sources would truncate or
  overflow: \<open>sig_ok\<close> and \<open>request_ok\<close> for the signing and header buffers, \<open>count_fits\<close> for the part
  arithmetic, 362 characters for a websocket URL, \<open>tidy_server\<close> for part lists whose slots the code would
  leave uninitialised. Where the sources go wrong beyond them, a theorem says how (the list query, the part count, the
  unencoded path, the device list). What is assumed of the libraries is what they document: \<open>current_clock\<close>, a clock
  that shows a year of four digits; \<open>complete_headers\<close>, header lines that libcurl passes with their line end. The lines
  of a request are stated for \<open>headers_alloc\<close>, when libcurl can allocate them.

  \<^bold>\<open>Not modelled.\<close> The internals of libibverbs, libcurl, OpenSSL and zlib, which are parameters;
  \<^verbatim>\<open>curl_global_init\<close>, which has no result the programs look at; the contents of \<^verbatim>\<open>errno\<close> beyond its text;
  what the response buffer does after a \<^verbatim>\<open>size_t\<close> has wrapped around, an event of its own in the model, which
  \<open>small_bodies\<close> (no body of \<^verbatim>\<open>2^63\<close> bytes) rules out. The Go, Java and
  Python clients repeat the logic of the C clients on other packages. The server is not part of the
  repository; configuration, monitoring and documentation hold no program.
\<close>

subsection \<open>Properties of whole runs\<close>

text \<open>
  C1: a run of \<^verbatim>\<open>s3rdmamultipart -action all\<close> for all parts that ends with status 0 has made exactly these requests,
  in this order: one that creates the upload; for every part of the file, from the first to the last for the size that
  the file had when this run opened it, one PUT under a request id of its own, each after a session was registered
  with the server under that id; and one completion that lists exactly those parts. Every request carries the
  authorization that AWS Signature Version 4 specifies for it. The entity tags of the completion are the placeholders
  \<^verbatim>\<open>"part-N"\<close> that the client makes up. Assumed: no text is longer than its buffer, the header lists can be allocated,
  the clock shows a year of four digits, the path and the upload ids need no percent-encoding, and the sizes that the
  file can have keep the number of parts an \<^verbatim>\<open>int\<close>.
\<close>

theorem multipart_run_requests:
  assumes "parse_args args = Inr opts" "op_action opts = ''all''" "op_bucket opts = Some bucket"
    "op_file_path opts = Some path" "op_part opts = 0"
    "mp_ok (mp_config_of opts) bucket (op_object opts)" "requests_env E" "length (op_endpoint opts) \<le> 340"
    "plain True (object_path bucket (op_object opts))" "plain_ids E"
    "\<And>tr f n. env_fstat E tr f = Some n \<Longrightarrow> count_fits n (op_part_size opts)"
  shows "wp (s3rdmamultipart_main E prog args) (\<lambda>rc t'. rc = 0 \<longrightarrow> all_requests E opts bucket path t t') t"
proof -
  have "plain_upload E opts bucket" using assms(6-9) by (simp add: plain_upload_def)
  from wp_do_all [OF this assms(10,5,11)] assms(1-4) show ?thesis
    by (simp add: s3rdmamultipart_main_def run_action_def)
qed

theorem multipart_run_requests_witness:
  "wp (s3rdmamultipart_main sample_uploads ''s3rdmamultipart'' [''-bucket'', ''b'', ''-object'', ''k'', ''-file'', ''f''])
     (\<lambda>rc t'. rc = 0 \<longrightarrow> all_requests sample_uploads sample_options ''b'' ''f'' [] t') []"
proof (rule multipart_run_requests [OF sample_parse])
  show "op_action sample_options = ''all''" "op_bucket sample_options = Some ''b''" "op_file_path sample_options = Some ''f''"
    "op_part sample_options = 0" "length (op_endpoint sample_options) \<le> 340"
    by (simp_all add: sample_options_def init_options_def)
  show "mp_ok (mp_config_of sample_options) ''b'' (op_object sample_options)" by (rule sample_mp_ok)
  show "requests_env sample_uploads" by (rule sample_uploads_requests)
  show "plain True (object_path ''b'' (op_object sample_options))" by code_simp
  show "plain_ids sample_uploads" by (rule sample_plain_ids)
  show "count_fits n (op_part_size sample_options)" if "env_fstat sample_uploads tr f = Some n" for tr f n
    using that sample_uploads_env(1) by (auto simp: upload_env_def)
qed

text \<open>
  C11: a run of \<^verbatim>\<open>s3rdmaget\<close> that ends with status 0 has asked for the size with one HEAD request and for
  the object with one GET request, and both were answered with status 200. The GET request names the RDMA session of
  the run: between the two requests a session was registered with the server, on a connection of its own, under the
  very request id that the GET request carries.
\<close>

theorem get_run_requests:
  assumes "object_args args object_defaults = Some ob" "o_bucket ob = Some bucket" "o_object ob = Some object"
    "o_file ob = Some path" "request_ok (config_of ob) ''HEAD'' bucket (Some object)"
    "request_ok (config_of ob) ''GET'' bucket (Some object)" "current_clock E" "headers_alloc E"
  shows "wp (s3rdmaget_main E prog args) (\<lambda>rc t'. rc = 0 \<longrightarrow> get_requests E ob bucket object t t') t"
  using wp_get_object [OF assms(5-8)] assms(1-4) by (simp add: s3rdmaget_main_def)

lemma sample_object_ok: "length mth \<le> 16 \<Longrightarrow> request_ok (config_of sample_object) mth ''b'' (Some ''k'')"
  by (simp add: request_ok_def sig_ok_def config_of_def sample_object_def object_defaults_def sample_host object_path_def)

theorem get_run_requests_witness:
  "wp (s3rdmaget_main sample_env ''s3rdmaget'' [''-bucket'', ''b'', ''-object'', ''k'', ''-file'', ''f''])
     (\<lambda>rc t'. rc = 0 \<longrightarrow> get_requests sample_env sample_object ''b'' ''k'' [] t') []"
  by (rule get_run_requests [OF sample_object_args, where path = "''f''"])
    (simp_all add: sample_object_ok sample_clock sample_object_fields)

text \<open>
  C14: a run of \<^verbatim>\<open>s3rdmaput\<close> that ends with status 0 has made exactly one request, the signed PUT of the
  object with an empty body, answered with status 200 or 201. It names the RDMA session of the run: before the
  request a session was registered with the server, on a connection of its own, under the very request id that the
  PUT request carries.
\<close>

theorem put_run_requests:
  assumes "object_args args object_defaults = Some ob" "o_bucket ob = Some bucket" "o_object ob = Some object"
    "o_file ob = Some path" "request_ok (config_of ob) ''PUT'' bucket (Some object)" "current_clock E" "headers_alloc E"
  shows "wp (s3rdmaput_main E prog args) (\<lambda>rc t'. rc = 0 \<longrightarrow> put_requests E ob bucket object t t') t"
  using wp_put_object [OF assms(5-7)] assms(1-4) by (simp add: s3rdmaput_main_def)

theorem put_run_requests_witness:
  "wp (s3rdmaput_main sample_env ''s3rdmaput'' [''-bucket'', ''b'', ''-object'', ''k'', ''-file'', ''f''])
     (\<lambda>rc t'. rc = 0 \<longrightarrow> put_requests sample_env sample_object ''b'' ''k'' [] t') []"
  by (rule put_run_requests [OF sample_object_args, where path = "''f''"])
    (simp_all add: sample_object_ok sample_clock sample_object_fields)

text \<open>
  C4: an upload makes progress: when the network, the device, the files and the allocator do not fail and
  the server follows the protocol, in segments of any size, a run of \<^verbatim>\<open>s3rdmaput\<close> ends with status 0, for a
  file of any size, an empty one included.
\<close>

theorem put_run_succeeds:
  assumes "object_args args object_defaults = Some ob" "o_bucket ob = Some bucket" "o_object ob = Some object"
    "o_file ob = Some path" "all_works E ob sz"
  shows "wp (s3rdmaput_main E prog args) (\<lambda>rc _. rc = 0) []"
  using put_object_works [OF assms(5), of "[]"] assms(1-4) safe_unread [of "[]"]
  by (simp add: s3rdmaput_main_def unread_file_def)

theorem put_run_succeeds_witness:
  "wp (s3rdmaput_main sample_server ''s3rdmaput'' [''-bucket'', ''b'', ''-object'', ''k'', ''-file'', ''f'']) (\<lambda>rc _. rc = 0) []"
  by (rule put_run_succeeds [OF sample_object_args sample_object_fields sample_works])

text \<open>
  C13: a download makes progress in the same way for every object that is not empty: a run of \<^verbatim>\<open>s3rdmaget\<close>
  ends with status 0.
\<close>

theorem get_run_succeeds:
  assumes "object_args args object_defaults = Some ob" "o_bucket ob = Some bucket" "o_object ob = Some object"
    "o_file ob = Some path" "all_works E ob sz" "0 < sz"
  shows "wp (s3rdmaget_main E prog args) (\<lambda>rc _. rc = 0) []"
  using get_object_works [OF assms(5,6), of "[]"] assms(1-4) safe_unread [of "[]"] by (simp add: s3rdmaget_main_def)

theorem get_run_succeeds_witness:
  "wp (s3rdmaget_main sample_server ''s3rdmaget'' [''-bucket'', ''b'', ''-object'', ''k'', ''-file'', ''f'']) (\<lambda>rc _. rc = 0) []"
  by (rule get_run_succeeds [OF sample_object_args sample_object_fields sample_works]) simp

text \<open>
  C15: a run of \<^verbatim>\<open>s3rdmaput\<close> that ends with status 0 has offered the whole file: the buffer that the server may
  read, and may not write, has the length of the file and was filled with all its bytes.
\<close>

theorem put_run_offers_file:
  assumes "object_args args object_defaults = Some ob" "o_bucket ob = Some bucket" "o_object ob = Some object"
    "o_file ob = Some path"
  shows "wp (s3rdmaput_main E prog args) (\<lambda>rc t'. rc = 0 \<longrightarrow> offers_file path t') t"
  using put_object_offers assms by (simp add: s3rdmaput_main_def)

theorem put_run_offers_file_witness:
  "wp (s3rdmaput_main sample_server ''s3rdmaput'' [''-bucket'', ''b'', ''-object'', ''k'', ''-file'', ''f''])
     (\<lambda>rc t'. rc = 0 \<longrightarrow> offers_file ''f'' t') []"
  by (rule put_run_offers_file [OF sample_object_args sample_object_fields])

text \<open>
  C12: a run of \<^verbatim>\<open>s3rdmaget\<close> that ends with status 0 has saved the whole object: the buffer that the server
  could write has the length that the HEAD request gave, and all of it was written to the file.
\<close>

theorem get_run_saves_object:
  assumes "object_args args object_defaults = Some ob" "o_bucket ob = Some bucket" "o_object ob = Some object"
    "o_file ob = Some path" "request_ok (config_of ob) ''HEAD'' bucket (Some object)" "current_clock E" "headers_alloc E"
  shows "wp (s3rdmaget_main E prog args) (\<lambda>rc t'. rc = 0 \<longrightarrow> saves_object path t') t"
  using get_object_saves [OF assms(5-7)] assms(1-4) by (simp add: s3rdmaget_main_def)

theorem get_run_saves_object_witness:
  "wp (s3rdmaget_main sample_env ''s3rdmaget'' [''-bucket'', ''b'', ''-object'', ''k'', ''-file'', ''f''])
     (\<lambda>rc t'. rc = 0 \<longrightarrow> saves_object ''f'' t') []"
  by (rule get_run_saves_object [OF sample_object_args sample_object_fields]) (simp_all add: sample_object_ok sample_clock)

text \<open>
  C2: a run of \<^verbatim>\<open>s3rdmamultipart -action all\<close> for all parts that ends with status 0 has offered every part of the
  file: for each part number from 1 to the size divided by the part size, rounded up, the file that this run opened was
  read from the offset of the part into a buffer of the part's length, all of it, and that buffer was offered for
  remote reading. The sizes that the file can have keep the number of parts an \<^verbatim>\<open>int\<close>.
\<close>

theorem multipart_run_offers_parts:
  assumes "parse_args args = Inr opts" "op_action opts = ''all''" "op_bucket opts = Some bucket"
    "op_file_path opts = Some path" "op_part opts = 0"
    "\<And>tr f n. env_fstat E tr f = Some n \<Longrightarrow> count_fits n (op_part_size opts)"
  shows "wp (s3rdmamultipart_main E prog args) (\<lambda>rc t'. rc = 0 \<longrightarrow> offers_parts path opts t t') t"
  using do_all_offers [OF assms(5,6)] assms(1-4) by (simp add: s3rdmamultipart_main_def run_action_def)

theorem multipart_run_offers_parts_witness:
  "wp (s3rdmamultipart_main sample_uploads ''s3rdmamultipart'' [''-bucket'', ''b'', ''-object'', ''k'', ''-file'', ''f''])
     (\<lambda>rc t'. rc = 0 \<longrightarrow> offers_parts ''f'' sample_options [] t') []"
proof (rule multipart_run_offers_parts [OF sample_parse, where bucket = "''b''"])
  show "count_fits n (op_part_size sample_options)" if "env_fstat sample_uploads tr f = Some n" for tr f n
    using that sample_uploads_env(1) by (auto simp: upload_env_def)
qed (simp_all add: sample_options_def init_options_def)

text \<open>
  C5: a multipart upload makes progress: when the network, the device, the allocator and the file do not fail, the
  server follows the protocol on every connection and S3 accepts the requests, a run of
  \<^verbatim>\<open>s3rdmamultipart -action all\<close> ends with status 0, however many parts the file has.
\<close>

theorem multipart_run_succeeds:
  assumes "parse_args args = Inr opts" "op_action opts = ''all''" "op_bucket opts = Some bucket"
    "op_file_path opts = Some path" "mp_works E opts sz"
  shows "wp (s3rdmamultipart_main E prog args) (\<lambda>rc _. rc = 0) []"
  using do_all_works [OF assms(5), of "[]" "[]"] assms(1-4)
  by (simp add: s3rdmamultipart_main_def run_action_def)

theorem multipart_run_succeeds_witness:
  "wp (s3rdmamultipart_main sample_uploads ''s3rdmamultipart'' [''-bucket'', ''b'', ''-object'', ''k'', ''-file'', ''f''])
     (\<lambda>rc _. rc = 0) []"
  by (rule multipart_run_succeeds [OF sample_parse _ _ _ sample_mp_works])
    (simp_all add: sample_options_def init_options_def)

text \<open>
  C16: when \<^verbatim>\<open>-action all\<close> has created an upload and a part cannot be sent, for whatever reason, the run ends with
  status 1 and has asked the server to abort that upload; if the abort fails too, its error is the last message.
\<close>

theorem failed_upload_aborts:
  assumes "mp_ok (mp_config_of opts) bucket (op_object opts)" "requests_env E"
    and "run_state (s3_create_multipart E (mp_config_of opts) bucket (op_object opts) 256 1024) t = (Ok uid, t1)"
    and "run_state (upload_parts_rdma E (mp_config_of opts) opts bucket path uid 1024)
      (Stdout (''Successfully created multipart upload'' @ nl @ ''Upload ID: '' @ uid @ nl) # t1) = (Fail e, t2)"
  shows "wp (do_all E opts bucket path) (\<lambda>rc t'. rc = 1 \<and> aborted E opts bucket uid t2 t') t"
  by (rule do_all_aborts [OF assms])

theorem failed_upload_aborts_witness:
  "\<exists>uid t1 e t2.
     run_state (s3_create_multipart sample_no_file (mp_config_of sample_options) ''b'' (op_object sample_options) 256 1024) []
       = (Ok uid, t1) \<and>
     run_state (upload_parts_rdma sample_no_file (mp_config_of sample_options) sample_options ''b'' ''f'' uid 1024)
       (Stdout (''Successfully created multipart upload'' @ nl @ ''Upload ID: '' @ uid @ nl) # t1) = (Fail e, t2) \<and>
     wp (do_all sample_no_file sample_options ''b'' ''f'')
     (\<lambda>rc t'. rc = 1 \<and> aborted sample_no_file sample_options ''b'' uid t2 t') []"
proof -
  obtain uid t1 where create: "run_state (s3_create_multipart sample_no_file (mp_config_of sample_options) ''b''
      (op_object sample_options) 256 1024) [] = (Ok uid, t1)"
    using sample_no_file_creates by blast
  obtain e t2 where upload: "run_state (upload_parts_rdma sample_no_file (mp_config_of sample_options) sample_options ''b'' ''f'' uid 1024)
      (Stdout (''Successfully created multipart upload'' @ nl @ ''Upload ID: '' @ uid @ nl) # t1) = (Fail e, t2)"
    using sample_no_file_fails by blast
  show ?thesis
    using failed_upload_aborts [OF sample_mp_ok sample_no_file_env create upload] create upload by blast
qed

end
